(* ===== verification/Prelude.thy ===== *)
theory Prelude
  imports Main "HOL-Library.Word"
begin

text \<open>
  Shared vocabulary of the KeyCompute development. It holds the names of the model's
  scalar types (identifiers, machine integers, clock readings), the Rust standard-library
  operations the sources use on them (saturating and checked arithmetic), the sum of a
  measure over the entries of a finite map, which the admission and rate-limiting
  components keep as a running counter, and generic facts on lists and results.
\<close>

section \<open>Scalar types\<close>

text \<open>
  Identifiers (\<open>Uuid\<close>) are only compared and ordered by the sources, so they are natural
  numbers. \<open>Instant\<close>, \<open>SystemTime\<close> and \<open>Duration\<close> are counted in nanoseconds; a clock
  reading is an argument of every operation whose source calls \<open>Instant::now()\<close>. \<open>DateTime<Utc>\<close> is the
  signed number of nanoseconds since the epoch.
\<close>

type_synonym uuid = nat
type_synonym instant = nat
type_synonym duration = nat
type_synonym datetime = int
type_synonym u16 = "16 word"
type_synonym u32 = "32 word"
type_synonym u64 = "64 word"

named_theorems sat_simps \<open>exact values of saturating and checked arithmetic\<close>
named_theorems map_sum_simps \<open>running sums over finite maps under update and deletion\<close>

section \<open>Saturating and checked arithmetic\<close>

definition sat_add :: "'a::len word \<Rightarrow> 'a word \<Rightarrow> 'a word" where
  "sat_add a b = (if unat a + unat b < 2 ^ LENGTH('a) then a + b else - 1)"

definition sat_sub :: "'a::len word \<Rightarrow> 'a word \<Rightarrow> 'a word" where
  "sat_sub a b = (if a < b then 0 else a - b)"

lemma unat_sat_add: "unat (sat_add (a :: 'a::len word) b) = min (unat a + unat b) (2 ^ LENGTH('a) - 1)"
proof (cases "unat a + unat b < 2 ^ LENGTH('a)")
  case True
  then have "unat (a + b) = unat a + unat b"
    by (simp add: unat_word_ariths)
  with True show ?thesis by (simp add: sat_add_def)
next
  case False
  then show ?thesis by (simp add: sat_add_def unsigned_minus_1_eq_mask mask_eq_exp_minus_1)
qed

lemma unat_sat_sub: "unat (sat_sub a b) = unat a - unat b"
  by (simp add: sat_sub_def word_less_nat_alt unat_sub word_le_nat_alt)

lemma word_less_succ:
  assumes "x \<noteq> - 1"
  shows "(x :: 'a::len word) < x + 1"
proof -
  have "unat x \<noteq> unat (- 1 :: 'a word)" using assms by (metis unsigned_word_eqI)
  then have "unat x \<noteq> 2 ^ LENGTH('a) - 1" by (simp add: unsigned_minus_1_eq_mask mask_eq_exp_minus_1)
  moreover have "unat x < 2 ^ LENGTH('a)" by (rule unsigned_less)
  ultimately have "unat x + 1 < 2 ^ LENGTH('a)" by linarith
  then show ?thesis by (simp add: word_less_nat_alt unat_word_ariths)
qed

lemma unat_sat_add_exact [sat_simps]:
  "unat a + unat b < 2 ^ LENGTH('a) \<Longrightarrow> unat (sat_add (a :: 'a::len word) b) = unat a + unat b"
  by (simp add: unat_sat_add)

lemma sat_add_le_iff [sat_simps]:
  fixes a b l :: "'a::len word"
  assumes "unat l < 2 ^ LENGTH('a) - 1"
  shows "sat_add a b \<le> l \<longleftrightarrow> unat a + unat b \<le> unat l"
  using assms by (auto simp: word_le_nat_alt unat_sat_add min_le_iff_disj)

text \<open>\<open>u32::checked_add\<close>\<close>

definition checked_add_u32 :: "u32 \<Rightarrow> u32 \<Rightarrow> u32 option" where
  "checked_add_u32 a b = (if uint a + uint b < 4294967296 then Some (a + b) else None)"

lemma unat_u32_less: "unat (a :: u32) < 4294967296"
  using unsigned_less [of a, where 'a = nat] by simp

lemma checked_add_u32_nat: "checked_add_u32 a b = (if unat a + unat b < 4294967296 then Some (a + b) else None)"
proof -
  have "uint a + uint b < 4294967296 \<longleftrightarrow> unat a + unat b < 4294967296" unfolding uint_nat by linarith
  then show ?thesis by (simp only: checked_add_u32_def)
qed

lemma unat_add_u32: "unat a + unat b < 4294967296 \<Longrightarrow> unat (a + b :: u32) = unat a + unat b"
  by (simp add: unat_word_ariths)

lemma checked_add_u32_None: "checked_add_u32 a b = None \<longleftrightarrow> 4294967296 \<le> unat a + unat b"
  by (simp add: checked_add_u32_nat not_less)

lemma checked_add_u32_Some: "checked_add_u32 a b = Some c \<longleftrightarrow> unat c = unat a + unat b"
proof
  assume "checked_add_u32 a b = Some c"
  then have "unat a + unat b < 4294967296" "c = a + b" by (auto simp: checked_add_u32_nat split: if_splits)
  then show "unat c = unat a + unat b" by (simp only: unat_add_u32)
next
  assume c: "unat c = unat a + unat b"
  then have l: "unat a + unat b < 4294967296" using unat_u32_less [of c] by linarith
  have "unat c = unat (a + b)" using c unat_add_u32 [OF l] by simp
  then have "c = a + b" by (rule unsigned_word_eqI)
  then show "checked_add_u32 a b = Some c" using l by (simp add: checked_add_u32_nat)
qed

text \<open>
  \<open>Instant::checked_add\<close>: a clock reading holds its seconds in a signed 64-bit integer, and
  the addition fails beyond that range.
\<close>

definition instant_limit :: nat where
  "instant_limit = 2 ^ 63 * 1000000000"

definition instant_checked_add :: "instant \<Rightarrow> duration \<Rightarrow> instant option" where
  "instant_checked_add t d = (if t + d < instant_limit then Some (t + d) else None)"

definition checked_sub :: "nat \<Rightarrow> nat \<Rightarrow> nat option" where
  "checked_sub a b = (if b \<le> a then Some (a - b) else None)"

definition unwrap_or :: "'a option \<Rightarrow> 'a \<Rightarrow> 'a" where
  "unwrap_or x d = (case x of None \<Rightarrow> d | Some y \<Rightarrow> y)"

lemma unwrap_or_simps [simp]: "unwrap_or None d = d" "unwrap_or (Some y) d = y"
  by (simp_all add: unwrap_or_def)

lemma instant_add_ge: "t \<le> unwrap_or (instant_checked_add t d) t"
  by (simp add: instant_checked_add_def)

section \<open>Sums over the entries of a finite map\<close>

definition map_sum :: "('v \<Rightarrow> nat) \<Rightarrow> ('k \<rightharpoonup> 'v) \<Rightarrow> nat" where
  "map_sum f m = (\<Sum>k\<in>dom m. f (the (m k)))"

lemma map_sum_empty [map_sum_simps, simp]: "map_sum f Map.empty = 0"
  by (simp add: map_sum_def)

lemma map_sum_upd_new:
  assumes "finite (dom m)" "m k = None"
  shows "map_sum f (m(k \<mapsto> v)) = map_sum f m + f v"
proof -
  have "(\<Sum>x\<in>dom m. f (the ((m(k \<mapsto> v)) x))) = (\<Sum>x\<in>dom m. f (the (m x)))"
    by (rule sum.cong) (use assms(2) in auto)
  moreover have "k \<notin> dom m" using assms(2) by auto
  ultimately show ?thesis using assms(1) by (simp add: map_sum_def)
qed

lemma map_sum_remove:
  assumes "finite (dom m)" "m k = Some v"
  shows "map_sum f m = map_sum f (m(k := None)) + f v"
proof -
  have *: "(m(k := None))(k \<mapsto> v) = m" using assms(2) by (auto simp: fun_eq_iff)
  have "map_sum f ((m(k := None))(k \<mapsto> v)) = map_sum f (m(k := None)) + f v"
    by (rule map_sum_upd_new) (use assms(1) in auto)
  then show ?thesis by (simp only: *)
qed

lemma map_sum_del [map_sum_simps]:
  assumes "finite (dom m)" "m k = Some v"
  shows "map_sum f (m(k := None)) = map_sum f m - f v"
  using map_sum_remove [OF assms] by simp

lemma map_sum_upd [map_sum_simps]:
  assumes "finite (dom m)" "m k = Some v"
  shows "map_sum f (m(k \<mapsto> w)) = map_sum f m - f v + f w"
proof -
  have "map_sum f ((m(k := None))(k \<mapsto> w)) = map_sum f (m(k := None)) + f w"
    by (rule map_sum_upd_new) (use assms(1) in auto)
  then show ?thesis using map_sum_remove [OF assms, of f] by simp
qed

lemma map_sum_member_le:
  assumes "finite (dom m)" "m k = Some v"
  shows "f v \<le> map_sum f m"
  using map_sum_remove [OF assms, of f] by simp

lemma map_sum_mono:
  assumes "finite (dom m)" "\<And>k. k \<in> dom n \<Longrightarrow> n k = m k"
  shows "map_sum f n \<le> map_sum f m"
proof -
  have "map_sum f n = (\<Sum>k\<in>dom n. f (the (m k)))"
    unfolding map_sum_def by (rule sum.cong) (use assms(2) in auto)
  also have "\<dots> \<le> map_sum f m"
    unfolding map_sum_def
    by (rule sum_mono2) (use assms in \<open>auto simp: domIff\<close>)
  finally show ?thesis .
qed

section \<open>Lists\<close>

text \<open>\<open>Iterator::find\<close> and \<open>Iterator::position\<close> followed by a removal at that position.\<close>

lemma find_Some_mem: "find P xs = Some x \<Longrightarrow> x \<in> set xs \<and> P x"
  by (auto simp: find_Some_iff)

lemma length_filter_remove1:
  "x \<in> set xs \<Longrightarrow> length (filter P (remove1 x xs)) = length (filter P xs) - (if P x then 1 else 0)"
proof (induction xs)
  case (Cons a xs)
  have "P x \<Longrightarrow> x \<in> set xs \<Longrightarrow> 0 < length (filter P xs)"
    by (auto simp: filter_empty_conv)
  with Cons show ?case by auto
qed simp

section \<open>Results\<close>

text \<open>The \<open>?\<close> operator: go on with the value, or return the error.\<close>

definition and_then :: "'e + 'a \<Rightarrow> ('a \<Rightarrow> 'e + 'b) \<Rightarrow> 'e + 'b" where
  "and_then r f = (case r of Inl e \<Rightarrow> Inl e | Inr x \<Rightarrow> f x)"

lemma and_then_simps [simp]: "and_then (Inl e) f = Inl e" "and_then (Inr x) f = f x"
  by (simp_all add: and_then_def)

lemma and_then_Inr_iff: "and_then r f = Inr y \<longleftrightarrow> (\<exists>x. r = Inr x \<and> f x = Inr y)"
  by (cases r) simp_all

lemma and_then_InrE [elim]:
  assumes "and_then r f = Inr y"
  obtains x where "r = Inr x" "f x = Inr y"
  using assms by (auto simp: and_then_Inr_iff)

definition ok_or :: "'a option \<Rightarrow> 'e \<Rightarrow> 'e + 'a" where
  "ok_or x e = (case x of None \<Rightarrow> Inl e | Some y \<Rightarrow> Inr y)"

lemma ok_or_simps [simp]: "ok_or None e = Inl e" "ok_or (Some y) e = Inr y"
  "ok_or x e = Inr z \<longleftrightarrow> x = Some z"
  by (simp_all add: ok_or_def split: option.split)

definition ensure :: "bool \<Rightarrow> 'e \<Rightarrow> 'e + unit" where
  "ensure b e = (if b then Inr () else Inl e)"

lemma ensure_simps [simp]: "ensure True e = Inr ()" "ensure False e = Inl e" "ensure b e = Inr u \<longleftrightarrow> b"
  by (simp_all add: ensure_def)

section \<open>Sums over the rows of a table\<close>

definition sum_rows :: "('r \<Rightarrow> bool) \<Rightarrow> ('r \<Rightarrow> int) \<Rightarrow> 'r list \<Rightarrow> int" where
  "sum_rows p f rows = sum_list (map f (filter p rows))"

lemma sum_rows_simps [simp]:
  "sum_rows p f [] = 0"
  "sum_rows p f (r # rows) = (if p r then f r else 0) + sum_rows p f rows"
  "sum_rows p f (rows @ rows') = sum_rows p f rows + sum_rows p f rows'"
  by (simp_all add: sum_rows_def)

lemma sum_rows_nonneg: "(\<And>r. r \<in> set rows \<Longrightarrow> p r \<Longrightarrow> 0 \<le> f r) \<Longrightarrow> 0 \<le> sum_rows p f rows"
  by (induction rows) auto

lemma sum_rows_member_le:
  "(\<And>r. r \<in> set rows \<Longrightarrow> p r \<Longrightarrow> 0 \<le> f r) \<Longrightarrow> r \<in> set rows \<Longrightarrow> p r \<Longrightarrow> f r \<le> sum_rows p f rows"
proof (induction rows)
  case (Cons x rows)
  then have "0 \<le> sum_rows p f rows" by (intro sum_rows_nonneg) simp
  moreover have "p x \<Longrightarrow> 0 \<le> f x" using Cons.prems(1) by simp
  ultimately show ?case using Cons by (cases "x = r") force+
qed simp

lemma sum_rows_cong:
  "(\<And>r. r \<in> set rows \<Longrightarrow> p r = q r) \<Longrightarrow> (\<And>r. r \<in> set rows \<Longrightarrow> q r \<Longrightarrow> f r = g r)
     \<Longrightarrow> sum_rows p f rows = sum_rows q g rows"
  by (induction rows) auto

lemma sum_rows_split: "sum_rows p f rows = sum_rows (\<lambda>r. p r \<and> q r) f rows + sum_rows (\<lambda>r. p r \<and> \<not> q r) f rows"
  by (induction rows) auto

lemma sum_rows_none: "(\<And>r. r \<in> set rows \<Longrightarrow> \<not> p r) \<Longrightarrow> sum_rows p f rows = 0"
  by (induction rows) auto

text \<open>Replacing the row of one key in a table with unique keys changes a sum by that row only.\<close>

lemma sum_rows_update:
  assumes "distinct (map key rows)" "r \<in> set rows" "key r = k"
  shows "sum_rows p f (map (\<lambda>x. if key x = k then g x else x) rows)
    = sum_rows p f rows - (if p r then f r else 0) + (if p (g r) then f (g r) else 0)"
  using assms
proof (induction rows)
  case (Cons x rows)
  show ?case
  proof (cases "x = r")
    case True
    then have "k \<notin> key ` set rows" using Cons.prems by simp
    then have "map (\<lambda>x. if key x = k then g x else x) rows = rows" by (intro map_idI) auto
    with True Cons.prems show ?thesis by simp
  next
    case False
    with Cons.prems have *: "r \<in> set rows" "distinct (map key rows)" by simp_all
    then have "key r \<in> key ` set rows" by simp
    with Cons.prems have "key x \<noteq> k" by auto
    with Cons.IH [OF *(2,1) Cons.prems(3)] show ?thesis by simp
  qed
qed simp

section \<open>Rows\<close>

lemma find_append: "List.find P (xs @ ys) = (case List.find P xs of None \<Rightarrow> List.find P ys | Some x \<Rightarrow> Some x)"
  by (induction xs) auto

lemma first_row_eq: "(case rows of [] \<Rightarrow> None | r # _ \<Rightarrow> Some r) = (if rows = [] then None else Some (hd rows))"
  by (cases rows) simp_all

lemma distinct_sort_filter:
  assumes "distinct (map f xs)"
  shows "distinct (map f (sort_key g (filter P xs)))"
  using assms by (simp add: distinct_map inj_on_def)

lemma distinct_map_filter_unique:
  assumes "distinct (List.map_filter f xs)" "x \<in> set xs" "f x = Some l"
  shows "filter (\<lambda>y. f y = Some l) xs = [x]"
  using assms
proof (induction xs)
  case (Cons y ys)
  have none: "filter (\<lambda>y. f y = Some l) ys = []" if "l \<notin> set (List.map_filter f ys)"
    using that by (force simp: List.map_filter_def filter_empty_conv)
  show ?case
  proof (cases "f y")
    case None
    with Cons show ?thesis by (auto simp: List.map_filter_def)
  next
    case (Some l')
    then have d: "l' \<notin> set (List.map_filter f ys)" "distinct (List.map_filter f ys)" using Cons.prems(1) by (simp_all add: List.map_filter_def)
    show ?thesis
    proof (cases "x = y")
      case True
      with Some Cons.prems(3) d none show ?thesis by simp
    next
      case False
      with Cons.prems have "x \<in> set ys" by simp
      moreover have "l' \<noteq> l" using d(1) calculation Cons.prems(3) by (force simp: List.map_filter_def)
      ultimately show ?thesis using Cons.IH [OF d(2)] Cons.prems(3) Some by simp
    qed
  qed
qed simp

lemma find_of_filter: "filter P xs = x # ys \<Longrightarrow> List.find P xs = Some x"
  by (induction xs) (auto split: if_splits)

lemma sorted_wrt_lex:
  fixes f :: "'a \<Rightarrow> 'b :: linorder"
  assumes "sorted (map f xs)" "\<And>k. sorted_wrt R (filter (\<lambda>x. f x = k) xs)"
  shows "sorted_wrt (\<lambda>x y. f x < f y \<or> f x = f y \<and> R x y) xs"
  using assms
proof (induction xs)
  case (Cons x xs)
  have "sorted_wrt R (filter (\<lambda>x. f x = k) xs)" for k using Cons.prems(2) [of k] by (simp split: if_splits)
  then have "sorted_wrt (\<lambda>x y. f x < f y \<or> f x = f y \<and> R x y) xs" using Cons by simp
  moreover have "f x < f y \<or> f x = f y \<and> R x y" if "y \<in> set xs" for y
  proof (cases "f y = f x")
    case True
    then show ?thesis using Cons.prems(2) [of "f x"] that by auto
  next
    case False
    then show ?thesis using Cons.prems(1) that by auto
  qed
  ultimately show ?case by simp
qed simp

end
