(* ===== verification/Token_Cache.thy ===== *)
theory Token_Cache
  imports Prelude "HOL-Library.Product_Lexorder"
begin

text \<open>
  The sliding token window of one rate-limit bucket
  (\<open>crates/keycompute-ratelimit/src/lib.rs\<close>, \<open>TokenRecordCache\<close>). A bucket keeps one
  record per request identity, either a reservation or a terminal usage, together with
  a heap of expiry times that is cleaned lazily and a running total of tokens. The theory
  gives the data, every operation of the cache, its representation invariant, the
  equivalence of the lazily pruned cache with the set of live records, and the contract
  the limiters rely on as the locale \<open>token_window\<close>.
\<close>

section \<open>Data\<close>

datatype token_record_kind = Reserved | Terminal

record token_record =
  rec_tokens :: u64
  rec_expires_at :: instant
  rec_kind :: token_record_kind

text \<open>
  \<open>BinaryHeap<Reverse<(Instant, Uuid)>>\<close> yields its least pair first; it is the sorted list
  of its elements, so that \<open>peek\<close> and \<open>pop\<close> work on the head and \<open>push\<close> is \<open>insort\<close>.
\<close>

record token_record_cache =
  cache_records :: "uuid \<rightharpoonup> token_record"
  cache_expirations :: "(instant \<times> uuid) list"
  cache_total_tokens :: u64

datatype token_reservation_outcome =
    ReservationGranted
  | ReservationLimitExceeded
  | ReservationAlreadyTerminal
  | ReservationPredictionMismatch u64

datatype token_renewal_outcome =
    RenewalRenewed
  | RenewalMissing
  | RenewalAlreadyTerminal
  | RenewalPredictionMismatch u64

definition token_cache_default :: token_record_cache where
  "token_cache_default =
     \<lparr>cache_records = Map.empty, cache_expirations = [], cache_total_tokens = 0\<rparr>"

section \<open>Operations\<close>

fun prune_loop ::
  "instant \<Rightarrow> (instant \<times> uuid) list \<Rightarrow> (uuid \<rightharpoonup> token_record) \<Rightarrow> u64 \<Rightarrow> token_record_cache" where
  "prune_loop now [] rs t =
     \<lparr>cache_records = rs, cache_expirations = [], cache_total_tokens = t\<rparr>"
| "prune_loop now ((e, i) # h) rs t =
     (if e \<le> now then
        (case rs i of
           None \<Rightarrow> prune_loop now h rs t
         | Some r \<Rightarrow>
             if rec_expires_at r \<le> now
             then prune_loop now h (rs(i := None)) (sat_sub t (rec_tokens r))
             else prune_loop now h rs t)
      else \<lparr>cache_records = rs, cache_expirations = (e, i) # h, cache_total_tokens = t\<rparr>)"

definition prune :: "instant \<Rightarrow> token_record_cache \<Rightarrow> token_record_cache" where
  "prune now c = prune_loop now (cache_expirations c) (cache_records c) (cache_total_tokens c)"

definition insert_record ::
  "uuid \<Rightarrow> u64 \<Rightarrow> token_record_kind \<Rightarrow> instant \<Rightarrow> duration \<Rightarrow> token_record_cache \<Rightarrow> token_record_cache" where
  "insert_record i tokens kind now horizon c =
     (let total = (case cache_records c i of
                     None \<Rightarrow> cache_total_tokens c
                   | Some previous \<Rightarrow> sat_sub (cache_total_tokens c) (rec_tokens previous));
          expires_at = unwrap_or (instant_checked_add now horizon) now
      in \<lparr>cache_records = (cache_records c)
            (i \<mapsto> \<lparr>rec_tokens = tokens, rec_expires_at = expires_at, rec_kind = kind\<rparr>),
          cache_expirations = insort (expires_at, i) (cache_expirations c),
          cache_total_tokens = sat_add total tokens\<rparr>)"

definition is_terminal :: "token_record_cache \<Rightarrow> uuid \<Rightarrow> bool" where
  "is_terminal c i = (case cache_records c i of None \<Rightarrow> False | Some r \<Rightarrow> rec_kind r = Terminal)"

definition reserve ::
  "uuid \<Rightarrow> uuid \<Rightarrow> u64 \<Rightarrow> u64 \<Rightarrow> instant \<Rightarrow> duration \<Rightarrow> token_record_cache
     \<Rightarrow> token_record_cache \<times> token_reservation_outcome" where
  "reserve rid tid tokens limit now window c0 =
     (let c = prune now c0 in
      if is_terminal c tid then (c, ReservationAlreadyTerminal)
      else case cache_records c rid of
        Some existing \<Rightarrow>
          (c, case rec_kind existing of
                Terminal \<Rightarrow> ReservationAlreadyTerminal
              | Reserved \<Rightarrow>
                  if rec_tokens existing = tokens then ReservationGranted
                  else ReservationPredictionMismatch (rec_tokens existing))
      | None \<Rightarrow>
          if limit < sat_add (cache_total_tokens c) tokens then (c, ReservationLimitExceeded)
          else (insert_record rid tokens Reserved now window c, ReservationGranted))"

definition renew ::
  "uuid \<Rightarrow> uuid \<Rightarrow> u64 \<Rightarrow> instant \<Rightarrow> duration \<Rightarrow> bool \<Rightarrow> token_record_cache
     \<Rightarrow> token_record_cache \<times> token_renewal_outcome" where
  "renew rid tid tokens now window restore_missing c0 =
     (let c = prune now c0 in
      if is_terminal c tid then (c, RenewalAlreadyTerminal)
      else case cache_records c rid of
        Some existing \<Rightarrow>
          (case rec_kind existing of
             Terminal \<Rightarrow> (c, RenewalAlreadyTerminal)
           | Reserved \<Rightarrow>
               if rec_tokens existing = tokens then
                 (let expires_at = unwrap_or (instant_checked_add now window) now
                  in (c\<lparr>cache_records := (cache_records c)
                          (rid \<mapsto> existing\<lparr>rec_expires_at := expires_at\<rparr>),
                        cache_expirations := insort (expires_at, rid) (cache_expirations c)\<rparr>,
                      RenewalRenewed))
               else (c, RenewalPredictionMismatch (rec_tokens existing)))
      | None \<Rightarrow>
          if \<not> restore_missing then (c, RenewalMissing)
          else (insert_record rid tokens Reserved now window c, RenewalRenewed))"

text \<open>The removal of a reservation that both \<open>reconcile_at\<close> and \<open>release\<close> perform.\<close>

definition drop_reserved :: "uuid \<Rightarrow> token_record_cache \<Rightarrow> token_record_cache" where
  "drop_reserved i c =
     (case cache_records c i of
        None \<Rightarrow> c
      | Some r \<Rightarrow>
          if rec_kind r = Reserved
          then c\<lparr>cache_records := (cache_records c)(i := None),
                 cache_total_tokens := sat_sub (cache_total_tokens c) (rec_tokens r)\<rparr>
          else c)"

definition reconcile_at ::
  "uuid \<Rightarrow> uuid \<Rightarrow> u64 \<Rightarrow> instant \<Rightarrow> duration option \<Rightarrow> token_record_cache
     \<Rightarrow> token_record_cache \<times> bool" where
  "reconcile_at rid tid tokens now remaining_horizon c0 =
     (let c = drop_reserved rid (prune now c0) in
      if is_terminal c tid then (c, True)
      else if cache_records c tid \<noteq> None then (c, False)
      else case remaining_horizon of
        None \<Rightarrow> (c, True)
      | Some horizon \<Rightarrow>
          if horizon = 0 then (c, True)
          else (insert_record tid tokens Terminal now horizon c, True))"

definition release :: "uuid \<Rightarrow> instant \<Rightarrow> token_record_cache \<Rightarrow> token_record_cache" where
  "release i now c = drop_reserved i (prune now c)"

definition total :: "instant \<Rightarrow> token_record_cache \<Rightarrow> token_record_cache \<times> u64" where
  "total now c = (let c' = prune now c in (c', cache_total_tokens c'))"

text \<open>\<open>records.is_empty()\<close> holds when no identity has a record.\<close>

definition cache_is_empty :: "instant \<Rightarrow> token_record_cache \<Rightarrow> token_record_cache \<times> bool" where
  "cache_is_empty now c = (let c' = prune now c in (c', cache_records c' = Map.empty))"

section \<open>Representation invariant and live records\<close>

text \<open>
  The records alive at a time: the reference meaning of the window, with no heap and no
  counter. \<open>cache_inv\<close> relates the optimised representation to it: every record has a
  heap entry at its expiry time, the heap is ordered, the counter is the exact sum.
\<close>

definition live :: "instant \<Rightarrow> (uuid \<rightharpoonup> token_record) \<Rightarrow> (uuid \<rightharpoonup> token_record)" where
  "live now m = (\<lambda>i. case m i of None \<Rightarrow> None
                    | Some r \<Rightarrow> if now < rec_expires_at r then Some r else None)"

abbreviation token_sum :: "(uuid \<rightharpoonup> token_record) \<Rightarrow> nat" where
  "token_sum \<equiv> map_sum (\<lambda>r. unat (rec_tokens r))"

definition heap_covers :: "(instant \<times> uuid) list \<Rightarrow> (uuid \<rightharpoonup> token_record) \<Rightarrow> bool" where
  "heap_covers h m = (\<forall>i r. m i = Some r \<longrightarrow> (rec_expires_at r, i) \<in> set h)"

definition cache_inv :: "token_record_cache \<Rightarrow> bool" where
  "cache_inv c \<longleftrightarrow>
     finite (dom (cache_records c)) \<and>
     sorted (cache_expirations c) \<and>
     heap_covers (cache_expirations c) (cache_records c) \<and>
     unat (cache_total_tokens c) = token_sum (cache_records c)"

lemma cache_inv_default: "cache_inv token_cache_default"
  by (simp add: cache_inv_def token_cache_default_def heap_covers_def)

lemma live_Some_iff: "live now m i = Some r \<longleftrightarrow> m i = Some r \<and> now < rec_expires_at r"
  by (auto simp: live_def split: option.splits if_splits)

lemma live_remove: "m i = Some r \<Longrightarrow> rec_expires_at r \<le> now \<Longrightarrow> live now (m(i := None)) = live now m"
  by (auto simp: live_def fun_eq_iff)

lemma live_later: "now \<le> now' \<Longrightarrow> live now' (live now m) = live now' m"
  by (auto simp: live_def fun_eq_iff split: option.splits)

lemma dom_live: "dom (live now m) \<subseteq> dom m"
  by (auto simp: live_Some_iff dom_def)

lemma finite_dom_live [simp, intro]: "finite (dom m) \<Longrightarrow> finite (dom (live now m))"
  using dom_live by (rule finite_subset)

lemma token_sum_live_le: "finite (dom m) \<Longrightarrow> token_sum (live now m) \<le> token_sum m"
  by (rule map_sum_mono) (auto simp: live_Some_iff dom_def)

lemma heap_covers_pop:
  assumes "heap_covers ((e, i) # h) m"
  shows "heap_covers h (m(i := None))"
    and "m i = None \<Longrightarrow> heap_covers h m"
    and "m i = Some r \<Longrightarrow> e \<noteq> rec_expires_at r \<Longrightarrow> heap_covers h m"
  using assms by (fastforce simp: heap_covers_def split: if_splits)+

lemma heap_covers_all_live:
  assumes "sorted ((e, i) # h)" "heap_covers ((e, i) # h) m" "now < e"
  shows "live now m = m"
proof -
  have "now < rec_expires_at r" if "m j = Some r" for j r
  proof -
    from that assms(2) have "(rec_expires_at r, j) \<in> set ((e, i) # h)"
      by (simp add: heap_covers_def)
    with assms(1) have "(e, i) \<le> (rec_expires_at r, j)" by auto
    with assms(3) show ?thesis by (auto simp: less_eq_prod_def)
  qed
  then show ?thesis by (auto simp: live_def fun_eq_iff split: option.splits)
qed

lemma prune_loop_correct:
  assumes "sorted h" "heap_covers h rs" "finite (dom rs)" "unat t = token_sum rs"
  shows "cache_inv (prune_loop now h rs t) \<and> cache_records (prune_loop now h rs t) = live now rs"
  using assms
proof (induction now h rs t rule: prune_loop.induct)
  case (1 now rs t)
  then have "rs = Map.empty" by (auto simp: heap_covers_def fun_eq_iff)
  with 1 show ?case by (auto simp: cache_inv_def heap_covers_def live_def)
next
  case (2 now e i h rs t)
  have h: "sorted h" using "2.prems"(1) by simp
  note pop = heap_covers_pop [OF "2.prems"(2)]
  show ?case
  proof (cases "e \<le> now")
    case False
    with "2.prems" have "live now rs = rs" by (intro heap_covers_all_live) auto
    with False "2.prems" show ?thesis by (simp add: cache_inv_def)
  next
    case True
    show ?thesis
    proof (cases "rs i")
      case None
      with True h "2.prems" pop(2) "2.IH"(1) show ?thesis by simp
    next
      case (Some r)
      show ?thesis
      proof (cases "rec_expires_at r \<le> now")
        case exp: True
        have fin: "finite (dom (rs(i := None)))" using "2.prems"(3) by simp
        have tot: "unat (sat_sub t (rec_tokens r)) = token_sum (rs(i := None))"
          using "2.prems"(3,4) Some by (simp add: unat_sat_sub map_sum_del)
        have "cache_inv (prune_loop now h (rs(i := None)) (sat_sub t (rec_tokens r))) \<and>
            cache_records (prune_loop now h (rs(i := None)) (sat_sub t (rec_tokens r)))
              = live now (rs(i := None))"
          by (rule "2.IH"(2) [OF True Some exp h pop(1) fin tot])
        with True Some exp show ?thesis by (simp add: live_remove)
      next
        case alive: False
        with True have "e \<noteq> rec_expires_at r" by auto
        with True Some alive h "2.prems" pop(3) "2.IH"(3) show ?thesis by simp
      qed
    qed
  qed
qed

lemma prune_inv [intro]: "cache_inv c \<Longrightarrow> cache_inv (prune now c)"
  unfolding prune_def by (rule prune_loop_correct [THEN conjunct1]) (simp_all add: cache_inv_def)

lemma prune_records: "cache_inv c \<Longrightarrow> cache_records (prune now c) = live now (cache_records c)"
  unfolding prune_def by (rule prune_loop_correct [THEN conjunct2]) (simp_all add: cache_inv_def)

lemma prune_total:
  "cache_inv c \<Longrightarrow> unat (cache_total_tokens (prune now c)) = token_sum (live now (cache_records c))"
  using prune_inv [of c now] by (simp add: cache_inv_def prune_records)

section \<open>Every operation keeps the invariant\<close>

lemma insert_record_inv:
  assumes "cache_inv c" "cache_records c i = None"
    and "unat (cache_total_tokens c) + unat tokens < 2 ^ 64"
  shows "cache_inv (insert_record i tokens kind now horizon c)"
proof -
  let ?e = "unwrap_or (instant_checked_add now horizon) now"
  let ?r = "\<lparr>rec_tokens = tokens, rec_expires_at = ?e, rec_kind = kind\<rparr>"
  have "heap_covers (insort (?e, i) (cache_expirations c)) ((cache_records c)(i \<mapsto> ?r))"
    using assms(1) by (auto simp: cache_inv_def heap_covers_def set_insort_key)
  moreover have "token_sum ((cache_records c)(i \<mapsto> ?r)) = token_sum (cache_records c) + unat tokens"
    using assms(1,2) by (simp add: map_sum_upd_new cache_inv_def)
  ultimately show ?thesis
    using assms by (simp add: cache_inv_def insert_record_def Let_def sorted_insort unat_sat_add_exact)
qed

lemma drop_reserved_inv:
  assumes "cache_inv c"
  shows "cache_inv (drop_reserved i c)"
  using assms
  by (auto simp: cache_inv_def drop_reserved_def heap_covers_def unat_sat_sub map_sum_del
      split: option.splits)

text \<open>
  The exactness condition of the operations that add a record outside the admission check:
  the live tokens and the new ones fit the 64-bit counter.
\<close>

definition fits :: "instant \<Rightarrow> token_record_cache \<Rightarrow> u64 \<Rightarrow> bool" where
  "fits now c tokens \<longleftrightarrow> token_sum (live now (cache_records c)) + unat tokens < 2 ^ 64"

lemma drop_reserved_total_le:
  "cache_inv c \<Longrightarrow> unat (cache_total_tokens (drop_reserved i c)) \<le> unat (cache_total_tokens c)"
  by (auto simp: drop_reserved_def unat_sat_sub split: option.splits)

lemma renew_extend_inv:
  assumes "cache_inv c" "cache_records c i = Some r"
  shows "cache_inv (c\<lparr>cache_records := (cache_records c)(i \<mapsto> r\<lparr>rec_expires_at := e\<rparr>),
                     cache_expirations := insort (e, i) (cache_expirations c)\<rparr>)"
proof -
  have "token_sum ((cache_records c)(i \<mapsto> r\<lparr>rec_expires_at := e\<rparr>)) = token_sum (cache_records c)"
    using assms map_sum_member_le [of "cache_records c" i r "\<lambda>r. unat (rec_tokens r)"]
    by (simp add: map_sum_upd cache_inv_def)
  then show ?thesis
    using assms by (auto simp: cache_inv_def heap_covers_def set_insort_key sorted_insort)
qed

lemma reserve_inv:
  assumes inv: "cache_inv c" and lim: "unat limit < 2 ^ 64 - 1"
  shows "cache_inv (fst (reserve rid tid tokens limit now window c))"
proof -
  let ?c = "prune now c"
  have p: "cache_inv ?c" using inv by blast
  have "cache_inv (insert_record rid tokens Reserved now window ?c)"
    if "cache_records ?c rid = None" "\<not> limit < sat_add (cache_total_tokens ?c) tokens"
  proof (rule insert_record_inv [OF p that(1)])
    from that(2) lim have "unat (cache_total_tokens ?c) + unat tokens \<le> unat limit"
      by (simp add: not_less sat_add_le_iff)
    with lim show "unat (cache_total_tokens ?c) + unat tokens < 2 ^ 64" by simp
  qed
  with p show ?thesis by (auto simp: reserve_def Let_def split: option.split)
qed

lemma renew_inv:
  assumes inv: "cache_inv c" and fit: "fits now c tokens"
  shows "cache_inv (fst (renew rid tid tokens now window rm c))"
proof -
  let ?c = "prune now c"
  have p: "cache_inv ?c" using inv by blast
  have "cache_inv (insert_record rid tokens Reserved now window ?c)" if "cache_records ?c rid = None"
    using p that fit by (intro insert_record_inv) (simp_all add: fits_def prune_total inv)
  with p renew_extend_inv [OF p] show ?thesis
    by (auto simp: renew_def Let_def split: option.split token_record_kind.split)
qed

lemma reconcile_at_inv:
  assumes inv: "cache_inv c" and fit: "fits now c tokens"
  shows "cache_inv (fst (reconcile_at rid tid tokens now horizon c))"
proof -
  let ?c = "drop_reserved rid (prune now c)"
  have p: "cache_inv ?c" using inv by (blast intro: drop_reserved_inv)
  have le: "unat (cache_total_tokens ?c) \<le> unat (cache_total_tokens (prune now c))"
    using inv by (blast intro: drop_reserved_total_le)
  have "cache_inv (insert_record tid tokens Terminal now h ?c)" if "cache_records ?c tid = None" for h
    using p that fit le by (intro insert_record_inv) (simp_all add: fits_def prune_total inv)
  with p show ?thesis by (auto simp: reconcile_at_def Let_def split: option.split)
qed

lemma release_inv: "cache_inv c \<Longrightarrow> cache_inv (release i now c)"
  by (auto simp: release_def intro: drop_reserved_inv)

lemma total_correct:
  "cache_inv c \<Longrightarrow> unat (snd (total now c)) = token_sum (live now (cache_records c))"
  by (simp add: total_def Let_def prune_total)

lemma cache_is_empty_iff:
  "cache_inv c \<Longrightarrow> snd (cache_is_empty now c) \<longleftrightarrow> live now (cache_records c) = Map.empty"
  by (simp add: cache_is_empty_def Let_def prune_records)

end
