(* ===== verification/Token_Window.thy ===== *)
theory Token_Window
  imports Token_Cache
begin

text \<open>
  What a token window promises, independently of how a backend stores it: each operation
  as a function on the map of records, with no heap and no counter. The locale
  \<open>token_window\<close> states that a backend simulates this specification; the facts the
  limiter relies on (terminal usage is immutable, is counted once, and reservations stay
  within the limit) are proved once from the specification. The in-memory cache of
  \<open>Token_Cache\<close> is an instance.
\<close>

section \<open>The specification\<close>

definition spec_terminal :: "(uuid \<rightharpoonup> token_record) \<Rightarrow> uuid \<Rightarrow> bool" where
  "spec_terminal m i = (case m i of None \<Rightarrow> False | Some r \<Rightarrow> rec_kind r = Terminal)"

definition new_record :: "u64 \<Rightarrow> token_record_kind \<Rightarrow> instant \<Rightarrow> duration \<Rightarrow> token_record" where
  "new_record tokens kind now horizon =
     \<lparr>rec_tokens = tokens,
      rec_expires_at = unwrap_or (instant_checked_add now horizon) now, rec_kind = kind\<rparr>"

definition spec_reserve ::
  "uuid \<Rightarrow> uuid \<Rightarrow> u64 \<Rightarrow> u64 \<Rightarrow> instant \<Rightarrow> duration \<Rightarrow> (uuid \<rightharpoonup> token_record)
     \<Rightarrow> (uuid \<rightharpoonup> token_record) \<times> token_reservation_outcome" where
  "spec_reserve rid tid tokens limit now window m0 =
     (let m = live now m0 in
      if spec_terminal m tid then (m, ReservationAlreadyTerminal)
      else case m rid of
        Some existing \<Rightarrow>
          (m, if rec_kind existing = Terminal then ReservationAlreadyTerminal
              else if rec_tokens existing = tokens then ReservationGranted
              else ReservationPredictionMismatch (rec_tokens existing))
      | None \<Rightarrow>
          if unat limit < token_sum m + unat tokens then (m, ReservationLimitExceeded)
          else (m(rid \<mapsto> new_record tokens Reserved now window), ReservationGranted))"

definition spec_renew ::
  "uuid \<Rightarrow> uuid \<Rightarrow> u64 \<Rightarrow> instant \<Rightarrow> duration \<Rightarrow> bool \<Rightarrow> (uuid \<rightharpoonup> token_record)
     \<Rightarrow> (uuid \<rightharpoonup> token_record) \<times> token_renewal_outcome" where
  "spec_renew rid tid tokens now window restore_missing m0 =
     (let m = live now m0 in
      if spec_terminal m tid then (m, RenewalAlreadyTerminal)
      else case m rid of
        Some existing \<Rightarrow>
          if rec_kind existing = Terminal then (m, RenewalAlreadyTerminal)
          else if rec_tokens existing = tokens
          then (m(rid \<mapsto> new_record tokens Reserved now window), RenewalRenewed)
          else (m, RenewalPredictionMismatch (rec_tokens existing))
      | None \<Rightarrow>
          if restore_missing
          then (m(rid \<mapsto> new_record tokens Reserved now window), RenewalRenewed)
          else (m, RenewalMissing))"

definition spec_drop :: "uuid \<Rightarrow> (uuid \<rightharpoonup> token_record) \<Rightarrow> (uuid \<rightharpoonup> token_record)" where
  "spec_drop i m = (if spec_terminal m i then m else m(i := None))"

definition spec_reconcile ::
  "uuid \<Rightarrow> uuid \<Rightarrow> u64 \<Rightarrow> instant \<Rightarrow> duration option \<Rightarrow> (uuid \<rightharpoonup> token_record)
     \<Rightarrow> (uuid \<rightharpoonup> token_record) \<times> bool" where
  "spec_reconcile rid tid tokens now horizon m0 =
     (let m = spec_drop rid (live now m0) in
      if spec_terminal m tid then (m, True)
      else if m tid \<noteq> None then (m, False)
      else case horizon of
        None \<Rightarrow> (m, True)
      | Some h \<Rightarrow> if h = 0 then (m, True) else (m(tid \<mapsto> new_record tokens Terminal now h), True))"

section \<open>The in-memory cache refines the specification\<close>

lemma is_terminal_spec: "is_terminal c i = spec_terminal (cache_records c) i"
  by (simp add: is_terminal_def spec_terminal_def)

lemma drop_reserved_spec: "cache_records (drop_reserved i c) = spec_drop i (cache_records c)"
  by (cases "cache_records c i")
    (auto simp: drop_reserved_def spec_drop_def spec_terminal_def fun_eq_iff
      intro: token_record_kind.exhaust)

lemma insert_record_spec:
  "cache_records (insert_record i tokens kind now horizon c)
     = (cache_records c)(i \<mapsto> new_record tokens kind now horizon)"
  by (simp add: insert_record_def new_record_def Let_def)

lemma limit_check_spec:
  assumes "cache_inv c" "unat limit < 2 ^ 64 - 1"
  shows "limit < sat_add (cache_total_tokens (prune now c)) tokens
           \<longleftrightarrow> unat limit < token_sum (live now (cache_records c)) + unat tokens"
  using assms by (simp add: not_le [symmetric] sat_add_le_iff prune_total)

lemma reserve_refines:
  assumes "cache_inv c" "unat limit < 2 ^ 64 - 1"
  shows "map_prod cache_records id (reserve rid tid tokens limit now window c)
           = spec_reserve rid tid tokens limit now window (cache_records c)"
  by (auto simp: reserve_def spec_reserve_def Let_def is_terminal_spec insert_record_spec
      prune_records [OF assms(1)] limit_check_spec [OF assms] split: option.split token_record_kind.split)

lemma renew_refines:
  assumes "cache_inv c"
  shows "map_prod cache_records id (renew rid tid tokens now window rm c)
           = spec_renew rid tid tokens now window rm (cache_records c)"
  by (auto simp: renew_def spec_renew_def Let_def is_terminal_spec insert_record_spec new_record_def
      prune_records [OF assms] split: option.split token_record_kind.split)

lemma reconcile_refines:
  assumes "cache_inv c"
  shows "map_prod cache_records id (reconcile_at rid tid tokens now horizon c)
           = spec_reconcile rid tid tokens now horizon (cache_records c)"
  by (auto simp: reconcile_at_def spec_reconcile_def Let_def is_terminal_spec insert_record_spec
      drop_reserved_spec prune_records [OF assms] split: option.split)

lemma release_refines:
  assumes "cache_inv c"
  shows "cache_records (release i now c) = spec_drop i (live now (cache_records c))"
  using assms by (simp add: release_def drop_reserved_spec prune_records)

section \<open>Operations as steps\<close>

datatype window_op =
    Op_Reserve uuid uuid u64 u64
  | Op_Renew uuid uuid u64 bool
  | Op_Reconcile uuid uuid u64 "duration option"
  | Op_Release uuid
  | Op_Total

fun cache_step :: "instant \<Rightarrow> duration \<Rightarrow> window_op \<Rightarrow> token_record_cache \<Rightarrow> token_record_cache" where
  "cache_step now w (Op_Reserve rid tid tokens limit) c = fst (reserve rid tid tokens limit now w c)"
| "cache_step now w (Op_Renew rid tid tokens rm) c = fst (renew rid tid tokens now w rm c)"
| "cache_step now w (Op_Reconcile rid tid tokens h) c = fst (reconcile_at rid tid tokens now h c)"
| "cache_step now w (Op_Release i) c = release i now c"
| "cache_step now w Op_Total c = fst (total now c)"

fun spec_step :: "instant \<Rightarrow> duration \<Rightarrow> window_op \<Rightarrow> (uuid \<rightharpoonup> token_record) \<Rightarrow> (uuid \<rightharpoonup> token_record)" where
  "spec_step now w (Op_Reserve rid tid tokens limit) m = fst (spec_reserve rid tid tokens limit now w m)"
| "spec_step now w (Op_Renew rid tid tokens rm) m = fst (spec_renew rid tid tokens now w rm m)"
| "spec_step now w (Op_Reconcile rid tid tokens h) m = fst (spec_reconcile rid tid tokens now h m)"
| "spec_step now w (Op_Release i) m = spec_drop i (live now m)"
| "spec_step now w Op_Total m = live now m"

text \<open>
  The side condition of an operation: a reservation limit is below the counter's maximum
  (limits are 32-bit), and an unconditional insertion does not overflow the counter.
\<close>

fun op_ok :: "instant \<Rightarrow> window_op \<Rightarrow> (uuid \<rightharpoonup> token_record) \<Rightarrow> bool" where
  "op_ok now (Op_Reserve rid tid tokens limit) m = (unat limit < 2 ^ 64 - 1)"
| "op_ok now (Op_Renew rid tid tokens rm) m = (token_sum (live now m) + unat tokens < 2 ^ 64)"
| "op_ok now (Op_Reconcile rid tid tokens h) m = (token_sum (live now m) + unat tokens < 2 ^ 64)"
| "op_ok now (Op_Release i) m = True"
| "op_ok now Op_Total m = True"

fun run_ops :: "(instant \<Rightarrow> duration \<Rightarrow> window_op \<Rightarrow> 's \<Rightarrow> 's) \<Rightarrow> duration
    \<Rightarrow> (instant \<times> window_op) list \<Rightarrow> 's \<Rightarrow> 's" where
  "run_ops step w [] s = s"
| "run_ops step w ((now, op) # ops) s = run_ops step w ops (step now w op s)"

fun ok_run :: "duration \<Rightarrow> (instant \<times> window_op) list \<Rightarrow> (uuid \<rightharpoonup> token_record) \<Rightarrow> bool" where
  "ok_run w [] m = True"
| "ok_run w ((now, op) # ops) m = (op_ok now op m \<and> ok_run w ops (spec_step now w op m))"

section \<open>Facts of the specification\<close>

lemma spec_step_terminal:
  assumes "m t = Some r" "rec_kind r = Terminal" "now < rec_expires_at r"
  shows "spec_step now w op m t = Some r"
proof -
  have l: "live now m t = Some r" using assms by (simp add: live_Some_iff)
  then have s: "spec_terminal (live now m) t" using assms(2) by (simp add: spec_terminal_def)
  have d: "spec_drop i (live now m) t = Some r" for i using l s by (auto simp: spec_drop_def)
  then have sd: "spec_terminal (spec_drop i (live now m)) t" for i
    using assms(2) by (simp add: spec_terminal_def)
  show ?thesis
  proof (cases op)
    case (Op_Reserve rid tid tokens limit)
    with l show ?thesis by (auto simp: spec_reserve_def Let_def split: option.split)
  next
    case (Op_Renew rid tid tokens rm)
    with l assms(2) show ?thesis by (auto simp: spec_renew_def Let_def split: option.split)
  next
    case (Op_Reconcile rid tid tokens h)
    with d sd show ?thesis by (auto simp: spec_reconcile_def Let_def split: option.split)
  qed (use d l in auto)
qed

text \<open>Operations that cannot raise the bucket above the limit \<open>L\<close> they are checked against.\<close>

fun op_limited :: "nat \<Rightarrow> window_op \<Rightarrow> bool" where
  "op_limited L (Op_Reserve rid tid tokens limit) = (unat limit \<le> L)"
| "op_limited L (Op_Renew rid tid tokens rm) = (\<not> rm)"
| "op_limited L (Op_Reconcile rid tid tokens h) = False"
| "op_limited L (Op_Release i) = True"
| "op_limited L Op_Total = True"

lemma spec_step_finite: "finite (dom m) \<Longrightarrow> finite (dom (spec_step now w op m))"
  by (cases op) (auto simp: spec_reserve_def spec_renew_def spec_reconcile_def spec_drop_def Let_def
      split: option.split)

lemma token_sum_drop_le: "finite (dom m) \<Longrightarrow> token_sum (spec_drop i m) \<le> token_sum m"
  by (rule map_sum_mono) (auto simp: spec_drop_def split: if_splits)

lemma spec_step_limited:
  assumes fin: "finite (dom m)" and le: "token_sum m \<le> L" and lim: "op_limited L op"
  shows "token_sum (spec_step now w op m) \<le> L"
proof -
  let ?m = "live now m"
  have f: "finite (dom ?m)" and l: "token_sum ?m \<le> L"
    using fin le token_sum_live_le [of m now] by auto
  show ?thesis
  proof (cases op)
    case (Op_Reserve rid tid tokens limit)
    have "token_sum (?m(rid \<mapsto> new_record tokens Reserved now w)) = token_sum ?m + unat tokens"
      if "?m rid = None"
      using f that by (simp add: map_sum_upd_new new_record_def)
    with Op_Reserve lim l show ?thesis
      by (auto simp: spec_reserve_def Let_def split: option.split)
  next
    case (Op_Renew rid tid tokens rm)
    have "token_sum (?m(rid \<mapsto> new_record tokens Reserved now w)) = token_sum ?m"
      if "?m rid = Some r" "rec_tokens r = tokens" for r
      using f that map_sum_member_le [OF f that(1), of "\<lambda>r. unat (rec_tokens r)"]
      by (simp add: map_sum_upd new_record_def)
    with Op_Renew lim l show ?thesis
      by (auto simp: spec_renew_def Let_def split: option.split)
  next
    case (Op_Release i)
    with token_sum_drop_le [OF f, of i] l show ?thesis by simp
  qed (use lim l in auto)
qed

section \<open>The contract of a backend\<close>

locale token_window =
  fixes inv :: "'c \<Rightarrow> bool"
    and records :: "'c \<Rightarrow> uuid \<rightharpoonup> token_record"
    and step :: "instant \<Rightarrow> duration \<Rightarrow> window_op \<Rightarrow> 'c \<Rightarrow> 'c"
  assumes inv_finite: "inv c \<Longrightarrow> finite (dom (records c))"
    and step_inv: "inv c \<Longrightarrow> op_ok now op (records c) \<Longrightarrow> inv (step now w op c)"
    and step_refines: "inv c \<Longrightarrow> op_ok now op (records c)
           \<Longrightarrow> records (step now w op c) = spec_step now w op (records c)"
begin

lemma run_refines:
  "inv c \<Longrightarrow> ok_run w ops (records c) \<Longrightarrow>
     inv (run_ops step w ops c) \<and> records (run_ops step w ops c) = run_ops spec_step w ops (records c)"
proof (induction ops arbitrary: c)
  case (Cons x ops)
  obtain now op where x: "x = (now, op)" by force
  from Cons.prems x have ok: "op_ok now op (records c)" by simp
  have "inv (step now w op c)" using Cons.prems(1) ok by (rule step_inv)
  moreover have "ok_run w ops (records (step now w op c))"
    using Cons.prems ok x by (simp add: step_refines)
  ultimately have "inv (run_ops step w ops (step now w op c)) \<and>
      records (run_ops step w ops (step now w op c)) = run_ops spec_step w ops (records (step now w op c))"
    by (rule Cons.IH)
  with Cons.prems(1) ok x show ?case by (simp add: step_refines)
qed simp

lemma terminal_immutable:
  assumes "inv c" "ok_run w ops (records c)"
    and "records c t = Some r" "rec_kind r = Terminal"
    and "\<forall>(now, op) \<in> set ops. now < rec_expires_at r"
  shows "records (run_ops step w ops c) t = Some r"
proof -
  have "m t = Some r \<Longrightarrow> \<forall>(now, op) \<in> set ops. now < rec_expires_at r \<Longrightarrow>
          run_ops spec_step w ops m t = Some r" for m
    by (induction ops arbitrary: m) (auto simp: spec_step_terminal assms(4))
  with assms run_refines show ?thesis by simp
qed

lemma reservations_within_limit:
  assumes "inv c" "ok_run w ops (records c)"
    and "token_sum (records c) \<le> L" "\<forall>(now, op) \<in> set ops. op_limited L op"
  shows "token_sum (records (run_ops step w ops c)) \<le> L"
proof -
  have "finite (dom m) \<Longrightarrow> token_sum m \<le> L \<Longrightarrow> \<forall>(now, op) \<in> set ops. op_limited L op \<Longrightarrow>
          token_sum (run_ops spec_step w ops m) \<le> L" for m
    by (induction ops arbitrary: m) (auto simp: spec_step_limited spec_step_finite)
  with assms run_refines inv_finite show ?thesis by simp
qed

end

lemma fst_map_prod_eq: "map_prod f id p = q \<Longrightarrow> f (fst p) = fst q"
  by (cases p) auto

interpretation memory_window: token_window cache_inv cache_records cache_step
proof unfold_locales
  fix c :: token_record_cache and now w op
  assume inv: "cache_inv c"
  show "finite (dom (cache_records c))" using inv by (simp add: cache_inv_def)
  assume ok: "op_ok now op (cache_records c)"
  show "cache_inv (cache_step now w op c)"
    using inv ok by (cases op)
      (auto simp: total_def Let_def fits_def intro!: reserve_inv renew_inv reconcile_at_inv release_inv)
  show "cache_records (cache_step now w op c) = spec_step now w op (cache_records c)"
    using inv ok by (cases op)
      (auto simp: total_def Let_def prune_records release_refines
        intro!: fst_map_prod_eq reserve_refines renew_refines reconcile_refines)
qed

section \<open>Properties of the in-memory token window\<close>

text \<open>Two small caches for the witnesses: one terminal record, one reservation.\<close>

lemma example_terminal:
  "fst (reconcile_at 7 7 25 0 (Some 60) token_cache_default)
     = \<lparr>cache_records = [7 \<mapsto> \<lparr>rec_tokens = 25, rec_expires_at = 60, rec_kind = Terminal\<rparr>],
        cache_expirations = [(60, 7)], cache_total_tokens = 25\<rparr>"
  by (simp add: reconcile_at_def token_cache_default_def prune_def drop_reserved_def is_terminal_def
      insert_record_def instant_checked_add_def instant_limit_def sat_add_def)

lemma example_reserved:
  "fst (reserve 8 2 40 100 0 60 token_cache_default)
     = \<lparr>cache_records = [8 \<mapsto> \<lparr>rec_tokens = 40, rec_expires_at = 60, rec_kind = Reserved\<rparr>],
        cache_expirations = [(60, 8)], cache_total_tokens = 40\<rparr>"
  by (simp add: reserve_def token_cache_default_def prune_def is_terminal_def insert_record_def
      instant_checked_add_def instant_limit_def sat_add_def)

lemma example_inv:
  "cache_inv (fst (reconcile_at 7 7 25 0 (Some 60) token_cache_default))"
  "cache_inv (fst (reserve 8 2 40 100 0 60 token_cache_default))"
  by (simp_all add: example_terminal example_reserved cache_inv_def heap_covers_def map_sum_upd_new)

text \<open>
  C2: over any sequence of reservations, renewals, reconciliations, releases and reads, the
  lazily pruned cache holds exactly the records the specification holds, and the number of
  tokens it reports at any time is the exact sum over the records alive at that time.
\<close>

theorem token_cache_simulates_window:
  assumes "ok_run w ops Map.empty"
  shows "cache_records (run_ops cache_step w ops token_cache_default) = run_ops spec_step w ops Map.empty
     \<and> unat (snd (total now (run_ops cache_step w ops token_cache_default)))
         = token_sum (live now (run_ops spec_step w ops Map.empty))"
proof -
  have e: "cache_records token_cache_default = Map.empty" by (simp add: token_cache_default_def)
  from memory_window.run_refines [OF cache_inv_default, of w ops] assms
  show ?thesis by (simp add: e total_correct)
qed

theorem token_cache_simulates_window_witness:
  "cache_records (run_ops cache_step 60 [(0, Op_Reserve 1 2 10 100), (5, Op_Release 1)] token_cache_default)
     = run_ops spec_step 60 [(0, Op_Reserve 1 2 10 100), (5, Op_Release 1)] Map.empty"
proof -
  have "ok_run 60 [(0, Op_Reserve 1 2 10 100), (5, Op_Release 1)] Map.empty" by simp
  from token_cache_simulates_window [OF this, of 7] show ?thesis by blast
qed

text \<open>
  C13: a terminal usage record is immutable while it is alive: no sequence of operations that
  runs before its expiry changes or removes it.
\<close>

theorem terminal_usage_immutable:
  assumes "cache_inv c" "ok_run w ops (cache_records c)"
    and "cache_records c t = Some r" "rec_kind r = Terminal"
    and "\<forall>(now, op) \<in> set ops. now < rec_expires_at r"
  shows "cache_records (run_ops cache_step w ops c) t = Some r"
  using assms by (rule memory_window.terminal_immutable)

theorem terminal_usage_immutable_witness:
  "cache_records
     (run_ops cache_step 60 [(3, Op_Reserve 7 7 10 100), (5, Op_Release 7)]
       (fst (reconcile_at 7 7 25 0 (Some 60) token_cache_default))) 7
     = Some \<lparr>rec_tokens = 25, rec_expires_at = 60, rec_kind = Terminal\<rparr>"
  by (rule terminal_usage_immutable [OF example_inv(1)]) (simp_all add: example_terminal)

text \<open>
  C6: admission is safe: starting within the limit, a sequence of reservations checked
  against limits of at most \<open>L\<close>, renewals, releases and reads never takes the bucket
  above \<open>L\<close> tokens.
\<close>

theorem reservations_never_exceed_limit:
  assumes "cache_inv c" "ok_run w ops (cache_records c)"
    and "token_sum (cache_records c) \<le> L" "\<forall>(now, op) \<in> set ops. op_limited L op"
  shows "unat (snd (total now (run_ops cache_step w ops c))) \<le> L"
proof -
  have "cache_inv (run_ops cache_step w ops c)"
    using memory_window.run_refines [OF assms(1,2)] by blast
  moreover have "token_sum (cache_records (run_ops cache_step w ops c)) \<le> L"
    using assms by (rule memory_window.reservations_within_limit)
  ultimately show ?thesis
    using token_sum_live_le [of "cache_records (run_ops cache_step w ops c)" now]
    by (simp add: total_correct cache_inv_def)
qed

theorem reservations_never_exceed_limit_witness:
  "unat (snd (total 4 (run_ops cache_step 60
     [(0, Op_Reserve 1 1 70 100), (1, Op_Reserve 2 2 40 100), (2, Op_Reserve 3 3 30 100)]
     token_cache_default))) \<le> 100"
proof -
  let ?ops = "[(0, Op_Reserve 1 1 70 100), (1, Op_Reserve 2 2 40 100), (2, Op_Reserve 3 3 30 100)]"
  have "ok_run 60 ?ops (cache_records token_cache_default)" by simp
  moreover have "token_sum (cache_records token_cache_default) \<le> 100"
    by (simp add: token_cache_default_def)
  ultimately show ?thesis
    by (rule reservations_never_exceed_limit [OF cache_inv_default]) simp
qed

text \<open>
  Settlement replaces the prediction by the actual usage: reconciling a live reservation
  to a new terminal identity makes the reported total the previous live total minus the
  reserved tokens plus the tokens actually used.
\<close>

theorem reconcile_settles_prediction:
  assumes inv: "cache_inv c" and fit: "fits now c tokens"
    and res: "cache_records c rid = Some r" "rec_kind r = Reserved" "now < rec_expires_at r"
    and fresh: "live now (cache_records c) tid = None \<or> tid = rid" and h: "0 < h"
  shows "snd (reconcile_at rid tid tokens now (Some h) c)
     \<and> unat (cache_total_tokens (fst (reconcile_at rid tid tokens now (Some h) c)))
         = token_sum (live now (cache_records c)) - unat (rec_tokens r) + unat tokens"
proof -
  let ?m = "live now (cache_records c)"
  have l: "?m rid = Some r" using res by (simp add: live_Some_iff)
  have f: "finite (dom ?m)" using inv by (auto simp: cache_inv_def)
  have d: "spec_drop rid ?m = ?m(rid := None)" using l res(2) by (simp add: spec_drop_def spec_terminal_def)
  have n: "(?m(rid := None)) tid = None" using fresh by auto
  have spec: "spec_reconcile rid tid tokens now (Some h) (cache_records c)
      = (?m(rid := None, tid \<mapsto> new_record tokens Terminal now h), True)"
    using n h by (auto simp: spec_reconcile_def Let_def d spec_terminal_def split: option.split)
  have "cache_inv (fst (reconcile_at rid tid tokens now (Some h) c))"
    using inv fit by (rule reconcile_at_inv)
  moreover have "token_sum (?m(rid := None, tid \<mapsto> new_record tokens Terminal now h))
      = token_sum ?m - unat (rec_tokens r) + unat tokens"
    using f n l by (simp add: map_sum_upd_new map_sum_del new_record_def)
  ultimately show ?thesis
    using reconcile_refines [OF inv, of rid tid tokens now "Some h"] spec
    by (cases "reconcile_at rid tid tokens now (Some h) c") (simp add: cache_inv_def)
qed

theorem reconcile_settles_prediction_witness:
  "unat (cache_total_tokens (fst (reconcile_at 8 2 25 3 (Some 60)
      (fst (reserve 8 2 40 100 0 60 token_cache_default))))) = 25"
proof -
  let ?r = "\<lparr>rec_tokens = 40, rec_expires_at = 60, rec_kind = Reserved\<rparr>"
  let ?c = "fst (reserve 8 2 40 100 0 60 token_cache_default)"
  have l: "live 3 (cache_records ?c) = [8 \<mapsto> ?r]" by (auto simp: example_reserved live_def)
  have "fits 3 ?c 25" by (simp add: fits_def l map_sum_upd_new)
  from reconcile_settles_prediction [OF example_inv(2) this, of 8 ?r 2 60] show ?thesis
    by (simp add: l map_sum_upd_new) (simp add: example_reserved)
qed

text \<open>
  Terminal usage is counted once: a second reconciliation of a live terminal identity is
  acknowledged, leaves the recorded usage unchanged whatever amount it carries, and does
  not raise the live total.
\<close>

theorem reconcile_counts_once:
  assumes inv: "cache_inv c"
    and t: "cache_records c tid = Some r" "rec_kind r = Terminal" "now < rec_expires_at r"
  shows "snd (reconcile_at rid tid tokens now h c)
     \<and> cache_records (fst (reconcile_at rid tid tokens now h c)) tid = Some r
     \<and> token_sum (cache_records (fst (reconcile_at rid tid tokens now h c)))
         \<le> token_sum (live now (cache_records c))"
proof -
  let ?m = "live now (cache_records c)"
  have l: "?m tid = Some r" using t by (simp add: live_Some_iff)
  have f: "finite (dom ?m)" using inv by (auto simp: cache_inv_def)
  have "spec_drop rid ?m tid = Some r" using l t(2) by (auto simp: spec_drop_def spec_terminal_def)
  moreover from this have "spec_reconcile rid tid tokens now h (cache_records c) = (spec_drop rid ?m, True)"
    using t(2) by (simp add: spec_reconcile_def Let_def spec_terminal_def)
  ultimately show ?thesis
    using reconcile_refines [OF inv, of rid tid tokens now h] token_sum_drop_le [OF f, of rid]
    by (cases "reconcile_at rid tid tokens now h c") simp
qed

theorem reconcile_counts_once_witness:
  "snd (reconcile_at 9 7 1000 5 (Some 60) (fst (reconcile_at 7 7 25 0 (Some 60) token_cache_default)))
   \<and> cache_records (fst (reconcile_at 9 7 1000 5 (Some 60)
       (fst (reconcile_at 7 7 25 0 (Some 60) token_cache_default)))) 7
     = Some \<lparr>rec_tokens = 25, rec_expires_at = 60, rec_kind = Terminal\<rparr>"
  using reconcile_counts_once [OF example_inv(1), of 7
      "\<lparr>rec_tokens = 25, rec_expires_at = 60, rec_kind = Terminal\<rparr>" 5 9 1000 "Some 60"]
  by (simp add: example_terminal)

end
