(* ===== verification/Errors.thy ===== *)
theory Errors
  imports Prelude
begin

text \<open>
  The error values shared by the backend crates (\<open>crates/keycompute-types/src/error.rs\<close>):
  the passthrough-binding failures with their wire codes and statuses, the unified error
  type with its retry policy and its category. Fallible operations return \<open>'a kc_result\<close>,
  with \<open>Inl\<close> for the error. An error's text is kept up to its first interpolated value.
\<close>

section \<open>Passthrough binding failures\<close>

datatype passthrough_binding_error =
    PB_NotFound | PB_ModelNotSupported | PB_Unavailable | PB_Changed | PB_HealthUnknown
  | PB_ModelUnhealthy | PB_CapacityExhausted | PB_DependencyUnavailable | PB_InvalidPlan | PB_Ambiguous

fun pb_code :: "passthrough_binding_error \<Rightarrow> string" where
  "pb_code PB_NotFound = ''passthrough_binding_not_found''"
| "pb_code PB_ModelNotSupported = ''passthrough_binding_model_not_supported''"
| "pb_code PB_Unavailable = ''passthrough_binding_unavailable''"
| "pb_code PB_Changed = ''passthrough_binding_changed''"
| "pb_code PB_HealthUnknown = ''passthrough_binding_health_unknown''"
| "pb_code PB_ModelUnhealthy = ''passthrough_binding_model_unhealthy''"
| "pb_code PB_CapacityExhausted = ''passthrough_binding_capacity_exhausted''"
| "pb_code PB_DependencyUnavailable = ''passthrough_binding_dependency_unavailable''"
| "pb_code PB_InvalidPlan = ''passthrough_binding_plan_invalid''"
| "pb_code PB_Ambiguous = ''passthrough_binding_ambiguous''"

definition pb_from_code :: "string \<Rightarrow> passthrough_binding_error option" where
  "pb_from_code v =
     find (\<lambda>candidate. pb_code candidate = v)
       [PB_NotFound, PB_ModelNotSupported, PB_Unavailable, PB_Changed, PB_HealthUnknown,
        PB_ModelUnhealthy, PB_CapacityExhausted, PB_DependencyUnavailable, PB_InvalidPlan, PB_Ambiguous]"

fun pb_status :: "passthrough_binding_error \<Rightarrow> u16" where
  "pb_status PB_NotFound = 404"
| "pb_status PB_ModelNotSupported = 404"
| "pb_status PB_Ambiguous = 409"
| "pb_status _ = 503"

section \<open>The unified error type\<close>

datatype key_compute_error =
    AuthError string
  | PermissionDenied string
  | VerificationError string
  | RateLimitExceeded string
  | RoutingFailed string
  | NoReadyNode string
  | PassthroughBinding passthrough_binding_error
  | ProviderError string
  | ProviderTimeout u64 string
  | UpstreamFailure (uf_status: "u16 option") (uf_stable_code: string) (uf_retryable: bool)
      (uf_summary: string)
  | DatabaseError string
  | ConfigError string
  | ServiceUnavailable string
  | Internal string
  | SerializationError string
  | ValidationError string
  | NotFound string
  | InvalidRequest string
  | NetworkError string
  | Timeout string

type_synonym 'a kc_result = "key_compute_error + 'a"

fun is_retryable :: "key_compute_error \<Rightarrow> bool" where
  "is_retryable (ProviderError _) = True"
| "is_retryable (ProviderTimeout _ _) = True"
| "is_retryable (NetworkError _) = True"
| "is_retryable (Timeout _) = True"
| "is_retryable (ServiceUnavailable _) = True"
| "is_retryable (DatabaseError _) = True"
| "is_retryable (UpstreamFailure _ _ retryable _) = retryable"
| "is_retryable _ = False"

datatype error_category =
    Cat_Auth | Cat_Verification | Cat_RateLimit | Cat_Routing | Cat_Provider | Cat_Database
  | Cat_Config | Cat_ServiceUnavailable | Cat_Validation | Cat_NotFound | Cat_Network | Cat_Internal

fun category :: "key_compute_error \<Rightarrow> error_category" where
  "category (AuthError _) = Cat_Auth"
| "category (PermissionDenied _) = Cat_Auth"
| "category (VerificationError _) = Cat_Verification"
| "category (RateLimitExceeded _) = Cat_RateLimit"
| "category (RoutingFailed _) = Cat_Routing"
| "category (NoReadyNode _) = Cat_Routing"
| "category (PassthroughBinding _) = Cat_Routing"
| "category (ProviderError _) = Cat_Provider"
| "category (ProviderTimeout _ _) = Cat_Provider"
| "category (UpstreamFailure _ _ _ _) = Cat_Provider"
| "category (DatabaseError _) = Cat_Database"
| "category (ConfigError _) = Cat_Config"
| "category (ServiceUnavailable _) = Cat_ServiceUnavailable"
| "category (ValidationError _) = Cat_Validation"
| "category (InvalidRequest _) = Cat_Validation"
| "category (NotFound _) = Cat_NotFound"
| "category (NetworkError _) = Cat_Network"
| "category (Timeout _) = Cat_Network"
| "category (Internal _) = Cat_Internal"
| "category (SerializationError _) = Cat_Internal"

fun category_display :: "error_category \<Rightarrow> string" where
  "category_display Cat_Auth = ''authentication_error''"
| "category_display Cat_Verification = ''verification_error''"
| "category_display Cat_RateLimit = ''rate_limit_error''"
| "category_display Cat_Routing = ''routing_error''"
| "category_display Cat_Provider = ''provider_error''"
| "category_display Cat_Database = ''database_error''"
| "category_display Cat_Config = ''config_error''"
| "category_display Cat_ServiceUnavailable = ''service_unavailable_error''"
| "category_display Cat_Validation = ''validation_error''"
| "category_display Cat_NotFound = ''not_found_error''"
| "category_display Cat_Network = ''network_error''"
| "category_display Cat_Internal = ''internal_error''"

section \<open>Facts\<close>

lemma retryable_category:
  "is_retryable e \<Longrightarrow> category e \<in> {Cat_Provider, Cat_Network, Cat_ServiceUnavailable, Cat_Database}"
  by (cases e) auto

lemma passthrough_never_retryable [simp]: "\<not> is_retryable (PassthroughBinding e)"
  by simp

lemma pb_code_inj: "pb_code a = pb_code b \<longleftrightarrow> a = b"
  by (cases a; cases b) simp_all

text \<open>
  The wire codes of passthrough-binding failures round-trip: \<open>from_code\<close> returns an error
  exactly for that error's own code, so a code that crosses the executor channel is
  decoded to the error that was encoded, and no other text decodes.
\<close>

theorem pb_code_roundtrip: "pb_from_code s = Some e \<longleftrightarrow> s = pb_code e"
proof
  assume "pb_from_code s = Some e"
  then have "pb_code e = s" unfolding pb_from_code_def by (rule find_Some_mem [THEN conjunct2])
  then show "s = pb_code e" by simp
next
  assume "s = pb_code e"
  then show "pb_from_code s = Some e"
    by (cases e) (simp_all add: pb_from_code_def pb_code_inj del: pb_code.simps)
qed

end
