(* ===== verification/Rate_Limit.thy ===== *)
theory Rate_Limit
  imports Token_Window Errors
begin

text \<open>
  The in-memory rate limiter (\<open>crates/keycompute-ratelimit/src/lib.rs\<close>). A bucket
  (\<open>RateLimitEntry\<close>) has a fixed RPM window with a request counter and the sliding token
  window of \<open>Token_Cache\<close>; the limiter (\<open>MemoryRateLimiter\<close>) maps keys to buckets and
  creates them on demand; \<open>RateLimitService\<close> is its client. Every operation takes the
  clock readings its source takes, in the order it takes them.
\<close>

section \<open>Configuration and keys\<close>

definition default_rpm_limit :: u32 where "default_rpm_limit = 60"
definition default_tpm_limit :: u32 where "default_tpm_limit = 100000"
definition window_secs :: nat where "window_secs = 60"

record rate_limit_config =
  rpm_limit :: u32
  tpm_limit :: u32
  cfg_window_secs :: nat

definition config_default :: rate_limit_config where
  "config_default = \<lparr>rpm_limit = default_rpm_limit, tpm_limit = default_tpm_limit,
                     cfg_window_secs = window_secs\<rparr>"

definition config_new :: "u32 \<Rightarrow> u32 \<Rightarrow> rate_limit_config" where
  "config_new rpm tpm = \<lparr>rpm_limit = rpm, tpm_limit = tpm, cfg_window_secs = window_secs\<rparr>"

text \<open>\<open>rpm_limit.max(1) as u32\<close> on a signed 32-bit column value.\<close>

definition max1 :: "32 word \<Rightarrow> u32" where
  "max1 x = (if sint x < 1 then 1 else x)"

definition config_from_tenant :: "32 word \<Rightarrow> 32 word \<Rightarrow> rate_limit_config" where
  "config_from_tenant rpm tpm =
     \<lparr>rpm_limit = max1 rpm, tpm_limit = max1 tpm, cfg_window_secs = window_secs\<rparr>"

record rate_limit_key =
  tenant_id :: uuid
  user_id :: uuid
  api_key_id :: uuid

section \<open>One bucket\<close>

record rate_limit_entry =
  request_count :: u64
  token_records :: token_record_cache
  window_start :: instant
  window_size :: duration

definition entry_new :: "instant \<Rightarrow> duration \<Rightarrow> rate_limit_entry" where
  "entry_new now sz =
     \<lparr>request_count = 0, token_records = token_cache_default, window_start = now, window_size = sz\<rparr>"

definition entry_is_expired :: "instant \<Rightarrow> rate_limit_entry \<Rightarrow> rate_limit_entry \<times> bool" where
  "entry_is_expired now e =
     (if window_size e < now - window_start e
      then (let (c, empty) = cache_is_empty now (token_records e) in (e\<lparr>token_records := c\<rparr>, empty))
      else (e, False))"

definition reset_if_expired ::
  "instant \<Rightarrow> instant \<Rightarrow> rate_limit_entry \<Rightarrow> rate_limit_entry \<times> bool" where
  "reset_if_expired now now' e =
     (if window_size e < now - window_start e
      then (e\<lparr>request_count := 0, window_start := now'\<rparr>, True) else (e, False))"

definition increment_request :: "rate_limit_entry \<Rightarrow> rate_limit_entry \<times> u64" where
  "increment_request e = (e\<lparr>request_count := request_count e + 1\<rparr>, request_count e + 1)"

definition decrement_request :: "rate_limit_entry \<Rightarrow> rate_limit_entry" where
  "decrement_request e = e\<lparr>request_count := request_count e - 1\<rparr>"

definition entry_reconcile ::
  "instant \<Rightarrow> instant \<Rightarrow> uuid \<Rightarrow> uuid \<Rightarrow> u64 \<Rightarrow> instant \<Rightarrow> rate_limit_entry \<Rightarrow> rate_limit_entry \<times> bool" where
  "entry_reconcile wall_now now rid tid tokens occurred_at e =
     (let age = wall_now - occurred_at;
          (c, ok) = reconcile_at rid tid tokens now (checked_sub (window_size e) age) (token_records e)
      in (e\<lparr>token_records := c\<rparr>, ok))"

definition entry_reserve ::
  "instant \<Rightarrow> uuid \<Rightarrow> uuid \<Rightarrow> u64 \<Rightarrow> u64 \<Rightarrow> rate_limit_entry
     \<Rightarrow> rate_limit_entry \<times> token_reservation_outcome" where
  "entry_reserve now rid tid tokens limit e =
     (let (c, out) = reserve rid tid tokens limit now (window_size e) (token_records e)
      in (e\<lparr>token_records := c\<rparr>, out))"

definition entry_renew ::
  "instant \<Rightarrow> uuid \<Rightarrow> uuid \<Rightarrow> u64 \<Rightarrow> bool \<Rightarrow> rate_limit_entry
     \<Rightarrow> rate_limit_entry \<times> token_renewal_outcome" where
  "entry_renew now rid tid tokens restore_missing e =
     (let (c, out) = renew rid tid tokens now (window_size e) restore_missing (token_records e)
      in (e\<lparr>token_records := c\<rparr>, out))"

definition entry_release :: "instant \<Rightarrow> uuid \<Rightarrow> rate_limit_entry \<Rightarrow> rate_limit_entry" where
  "entry_release now i e = e\<lparr>token_records := release i now (token_records e)\<rparr>"

definition entry_token_count :: "instant \<Rightarrow> rate_limit_entry \<Rightarrow> rate_limit_entry \<times> u64" where
  "entry_token_count now e =
     (let (c, n) = total now (token_records e) in (e\<lparr>token_records := c\<rparr>, n))"

section \<open>The limiter\<close>

record memory_rate_limiter =
  entries :: "rate_limit_key \<rightharpoonup> rate_limit_entry"
  lim_window_size :: duration

definition limiter_new :: memory_rate_limiter where
  "limiter_new = \<lparr>entries = Map.empty, lim_window_size = window_secs * 1000000000\<rparr>"

definition get_or_create_entry ::
  "instant \<Rightarrow> rate_limit_key \<Rightarrow> memory_rate_limiter \<Rightarrow> rate_limit_entry" where
  "get_or_create_entry now key l =
     (case entries l key of None \<Rightarrow> entry_new now (lim_window_size l) | Some e \<Rightarrow> e)"

abbreviation put_entry :: "rate_limit_key \<Rightarrow> rate_limit_entry \<Rightarrow> memory_rate_limiter \<Rightarrow> memory_rate_limiter" where
  "put_entry key e l \<equiv> l\<lparr>entries := (entries l)(key \<mapsto> e)\<rparr>"

text \<open>\<open>DashMap::retain\<close> visits every bucket; the expiry test prunes the buckets it keeps.\<close>

definition limiter_cleanup :: "instant \<Rightarrow> memory_rate_limiter \<Rightarrow> memory_rate_limiter" where
  "limiter_cleanup now l =
     l\<lparr>entries := (\<lambda>k. case entries l k of None \<Rightarrow> None
                    | Some e \<Rightarrow> (let (e', expired) = entry_is_expired now e
                                in if expired then None else Some e'))\<rparr>"

definition check_with_config ::
  "instant \<Rightarrow> instant \<Rightarrow> rate_limit_key \<Rightarrow> rate_limit_config \<Rightarrow> memory_rate_limiter
     \<Rightarrow> memory_rate_limiter \<times> bool kc_result" where
  "check_with_config now now' key cfg l =
     (let e = fst (reset_if_expired now now' (get_or_create_entry now key l))
      in (put_entry key e l, Inr (request_count e < ucast (rpm_limit cfg))))"

definition check_default ::
  "instant \<Rightarrow> instant \<Rightarrow> rate_limit_key \<Rightarrow> memory_rate_limiter
     \<Rightarrow> memory_rate_limiter \<times> bool kc_result" where
  "check_default now now' key l = check_with_config now now' key config_default l"

definition record_request ::
  "instant \<Rightarrow> rate_limit_key \<Rightarrow> memory_rate_limiter \<Rightarrow> memory_rate_limiter \<times> unit kc_result" where
  "record_request now key l =
     (put_entry key (fst (increment_request (get_or_create_entry now key l))) l, Inr ())"

definition check_and_record_with_config ::
  "instant \<Rightarrow> instant \<Rightarrow> rate_limit_key \<Rightarrow> rate_limit_config \<Rightarrow> memory_rate_limiter
     \<Rightarrow> memory_rate_limiter \<times> unit kc_result" where
  "check_and_record_with_config now now' key cfg l =
     (let e = fst (reset_if_expired now now' (get_or_create_entry now key l));
          (e', new_count) = increment_request e
      in if ucast (rpm_limit cfg) < new_count
         then (put_entry key (decrement_request e') l, Inl (RateLimitExceeded ''RPM limit exceeded for tenant ''))
         else (put_entry key e' l, Inr ()))"

definition reconcile_tokens_once_at ::
  "instant \<Rightarrow> instant \<Rightarrow> rate_limit_key \<Rightarrow> uuid \<Rightarrow> uuid \<Rightarrow> u32 \<Rightarrow> instant \<Rightarrow> memory_rate_limiter
     \<Rightarrow> memory_rate_limiter \<times> unit kc_result" where
  "reconcile_tokens_once_at wall_now now key rid tid tokens occurred_at l =
     (let (e, ok) = entry_reconcile wall_now now rid tid (ucast tokens) occurred_at
                      (get_or_create_entry now key l)
      in (put_entry key e l, if ok then Inr () else Inl (Internal ''TPM terminal identity '')))"

text \<open>\<open>record_tokens\<close> draws a fresh identity \<open>request_id\<close> (\<open>Uuid::new_v4\<close>).\<close>

definition record_tokens ::
  "instant \<Rightarrow> instant \<Rightarrow> uuid \<Rightarrow> rate_limit_key \<Rightarrow> u32 \<Rightarrow> memory_rate_limiter
     \<Rightarrow> memory_rate_limiter \<times> unit kc_result" where
  "record_tokens wall_now now request_id key tokens l =
     (let (e, ok) = entry_reconcile wall_now now request_id request_id (ucast tokens) wall_now
                      (get_or_create_entry now key l)
      in (put_entry key e l,
          if ok then Inr ()
          else Inl (Internal ''TPM terminal identity conflicts with an active reservation'')))"

definition reserve_tokens ::
  "instant \<Rightarrow> rate_limit_key \<Rightarrow> uuid \<Rightarrow> uuid \<Rightarrow> u32 \<Rightarrow> u32 \<Rightarrow> memory_rate_limiter
     \<Rightarrow> memory_rate_limiter \<times> unit kc_result" where
  "reserve_tokens now key rid tid predicted limit l =
     (let (e, out) = entry_reserve now rid tid (ucast predicted) (ucast limit) (get_or_create_entry now key l)
      in (put_entry key e l,
          case out of
            ReservationGranted \<Rightarrow> Inr ()
          | ReservationLimitExceeded \<Rightarrow> Inl (RateLimitExceeded ''TPM limit exceeded for tenant '')
          | ReservationAlreadyTerminal \<Rightarrow> Inl (Internal ''TPM logical request '')
          | ReservationPredictionMismatch _ \<Rightarrow> Inl (Internal ''TPM reservation '')))"

definition renew_token_reservation ::
  "instant \<Rightarrow> rate_limit_key \<Rightarrow> uuid \<Rightarrow> uuid \<Rightarrow> u32 \<Rightarrow> memory_rate_limiter
     \<Rightarrow> memory_rate_limiter \<times> bool kc_result" where
  "renew_token_reservation now key rid tid predicted l =
     (let (e, out) = entry_renew now rid tid (ucast predicted) False (get_or_create_entry now key l)
      in (put_entry key e l,
          case out of
            RenewalRenewed \<Rightarrow> Inr True
          | RenewalMissing \<Rightarrow> Inr False
          | RenewalAlreadyTerminal \<Rightarrow> Inr False
          | RenewalPredictionMismatch _ \<Rightarrow> Inl (Internal ''TPM reservation '')))"

definition restore_token_reservation ::
  "instant \<Rightarrow> rate_limit_key \<Rightarrow> uuid \<Rightarrow> uuid \<Rightarrow> u32 \<Rightarrow> memory_rate_limiter
     \<Rightarrow> memory_rate_limiter \<times> bool kc_result" where
  "restore_token_reservation now key rid tid predicted l =
     (let (e, out) = entry_renew now rid tid (ucast predicted) True (get_or_create_entry now key l)
      in (put_entry key e l,
          case out of
            RenewalRenewed \<Rightarrow> Inr True
          | RenewalAlreadyTerminal \<Rightarrow> Inr False
          | RenewalMissing \<Rightarrow>
              Inl (Internal ''TPM durable reservation restore returned an impossible missing state'')
          | RenewalPredictionMismatch _ \<Rightarrow> Inl (Internal ''TPM reservation '')))"

definition release_token_reservation ::
  "instant \<Rightarrow> rate_limit_key \<Rightarrow> uuid \<Rightarrow> memory_rate_limiter \<Rightarrow> memory_rate_limiter \<times> unit kc_result" where
  "release_token_reservation now key request_id l =
     (put_entry key (entry_release now request_id (get_or_create_entry now key l)) l, Inr ())"

definition rpm_retry_after ::
  "instant \<Rightarrow> rate_limit_key \<Rightarrow> rate_limit_config \<Rightarrow> memory_rate_limiter \<Rightarrow> duration option kc_result" where
  "rpm_retry_after now key cfg l =
     (if rpm_limit cfg = 0 then Inl (Internal ''Invalid zero RPM policy'')
      else case entries l key of
        None \<Rightarrow> Inr None
      | Some e \<Rightarrow>
          (let remaining = window_size e - (now - window_start e)
           in Inr (if ucast (rpm_limit cfg) \<le> request_count e \<and> remaining \<noteq> 0 then Some remaining else None)))"

definition get_count ::
  "instant \<Rightarrow> instant \<Rightarrow> rate_limit_key \<Rightarrow> memory_rate_limiter \<Rightarrow> memory_rate_limiter \<times> u64 kc_result" where
  "get_count now now' key l =
     (let e = fst (reset_if_expired now now' (get_or_create_entry now key l))
      in (put_entry key e l, Inr (request_count e)))"

definition get_token_count ::
  "instant \<Rightarrow> rate_limit_key \<Rightarrow> memory_rate_limiter \<Rightarrow> memory_rate_limiter \<times> u64 kc_result" where
  "get_token_count now key l =
     (let (e, n) = entry_token_count now (get_or_create_entry now key l) in (put_entry key e l, Inr n))"

section \<open>The service\<close>

definition service_check_and_record ::
  "instant \<Rightarrow> instant \<Rightarrow> instant \<Rightarrow> rate_limit_key \<Rightarrow> memory_rate_limiter
     \<Rightarrow> memory_rate_limiter \<times> unit kc_result" where
  "service_check_and_record now now' now'' key l =
     (case check_default now now' key l of
        (l', Inl err) \<Rightarrow> (l', Inl err)
      | (l', Inr ok) \<Rightarrow>
          if \<not> ok then (l', Inl (RateLimitExceeded ''RPM limit exceeded for tenant ''))
          else record_request now'' key l')"

definition service_reserve_token_usage ::
  "instant \<Rightarrow> rate_limit_key \<Rightarrow> uuid \<Rightarrow> uuid \<Rightarrow> u32 \<Rightarrow> rate_limit_config \<Rightarrow> memory_rate_limiter
     \<Rightarrow> memory_rate_limiter \<times> unit kc_result" where
  "service_reserve_token_usage now key rid tid predicted cfg l =
     reserve_tokens now key rid tid predicted (tpm_limit cfg) l"

definition service_record_token_usage_once_at ::
  "instant \<Rightarrow> instant \<Rightarrow> rate_limit_key \<Rightarrow> uuid \<Rightarrow> u32 \<Rightarrow> instant \<Rightarrow> memory_rate_limiter
     \<Rightarrow> memory_rate_limiter \<times> unit kc_result" where
  "service_record_token_usage_once_at wall_now now key request_id tokens occurred_at l =
     reconcile_tokens_once_at wall_now now key request_id request_id tokens occurred_at l"

definition service_check_tpm ::
  "instant \<Rightarrow> rate_limit_key \<Rightarrow> rate_limit_config \<Rightarrow> memory_rate_limiter
     \<Rightarrow> memory_rate_limiter \<times> bool kc_result" where
  "service_check_tpm now key cfg l =
     (case get_token_count now key l of
        (l', Inl err) \<Rightarrow> (l', Inl err)
      | (l', Inr current) \<Rightarrow> (l', Inr (current < ucast (tpm_limit cfg))))"

section \<open>The RPM window\<close>

text \<open>
  The check of \<open>check_and_record_with_config\<close> on the bucket alone, without the increment that
  is rolled back; \<open>check_and_record_entry\<close> shows that the limiter's operation computes it.
\<close>

definition entry_check_and_record ::
  "instant \<Rightarrow> instant \<Rightarrow> u32 \<Rightarrow> rate_limit_entry \<Rightarrow> rate_limit_entry \<times> bool" where
  "entry_check_and_record now now' limit e =
     (let e0 = fst (reset_if_expired now now' e) in
      if request_count e0 + 1 \<le> ucast limit then (e0\<lparr>request_count := request_count e0 + 1\<rparr>, True)
      else (e0, False))"

lemma check_and_record_entry:
  "check_and_record_with_config now now' key cfg l =
     (let (e, ok) = entry_check_and_record now now' (rpm_limit cfg) (get_or_create_entry now key l)
      in (put_entry key e l,
          if ok then Inr () else Inl (RateLimitExceeded ''RPM limit exceeded for tenant '')))"
  by (simp add: check_and_record_with_config_def entry_check_and_record_def increment_request_def
      decrement_request_def Let_def not_le [symmetric])

lemma unat_u32_bound: "unat (x :: u32) < 2 ^ 32"
proof -
  have "unat x < 2 ^ LENGTH(32)" by (rule unsigned_less)
  then show ?thesis by simp
qed

lemma unat_ucast_u32 [simp]: "unat (ucast (x :: u32) :: u64) = unat x"
  using unat_u32_bound [of x] by (simp add: unsigned_ucast_eq take_bit_nat_eq_self_iff)

text \<open>Whether a bucket admits a call is decided on natural numbers: no wrap-around interferes.\<close>

lemma admit_iff:
  assumes "unat (request_count e) \<le> unat (limit :: u32)"
  shows "request_count e + 1 \<le> ucast limit \<longleftrightarrow> unat (request_count e) < unat limit"
    and "unat (request_count e + 1) = unat (request_count e) + 1"
proof -
  have "unat (request_count e) + 1 < 2 ^ 64" using assms unat_u32_bound [of limit] by simp
  then show *: "unat (request_count e + 1) = unat (request_count e) + 1"
    by (simp add: unat_word_ariths)
  show "request_count e + 1 \<le> ucast limit \<longleftrightarrow> unat (request_count e) < unat limit"
    by (simp add: word_le_nat_alt * Suc_le_eq)
qed

text \<open>A burst of calls on one key, each with its two clock readings: the limiter and the answers.\<close>

fun rpm_calls ::
  "rate_limit_key \<Rightarrow> rate_limit_config \<Rightarrow> (instant \<times> instant) list \<Rightarrow> memory_rate_limiter
     \<Rightarrow> memory_rate_limiter \<times> unit kc_result list" where
  "rpm_calls key cfg [] l = (l, [])"
| "rpm_calls key cfg ((now, now') # ts) l =
     (let (l1, r) = check_and_record_with_config now now' key cfg l;
          (l2, rs) = rpm_calls key cfg ts l1
      in (l2, r # rs))"

abbreviation rpm_rejection :: "unit kc_result" where
  "rpm_rejection \<equiv> Inl (RateLimitExceeded ''RPM limit exceeded for tenant '')"

lemma rpm_call_in_window:
  assumes "entries l key = Some e" "unat (request_count e) \<le> unat (rpm_limit cfg)"
    and "now - window_start e \<le> window_size e"
  shows "check_and_record_with_config now now' key cfg l =
     (if unat (request_count e) < unat (rpm_limit cfg)
      then (put_entry key (e\<lparr>request_count := request_count e + 1\<rparr>) l, Inr ())
      else (l, rpm_rejection))"
proof -
  have r: "fst (reset_if_expired now now' e) = e" using assms(3) by (simp add: reset_if_expired_def)
  have u: "(entries l)(key \<mapsto> e) = entries l" using assms(1) by (simp add: map_upd_triv)
  show ?thesis
    using admit_iff(1) [OF assms(2)] assms(1)
    by (simp add: check_and_record_entry entry_check_and_record_def get_or_create_entry_def r u)
qed

lemma rpm_calls_full:
  assumes "entries l key = Some e" "request_count e = ucast (rpm_limit cfg)"
    and "\<forall>(now, now') \<in> set ts. now - window_start e \<le> window_size e"
  shows "rpm_calls key cfg ts l = (l, replicate (length ts) rpm_rejection)"
  using assms(3) by (induction ts) (auto simp: rpm_call_in_window [OF assms(1)] assms(2))

lemma rpm_calls_in_window:
  assumes "entries l key = Some e" "unat (request_count e) \<le> unat (rpm_limit cfg)"
    and "\<forall>(now, now') \<in> set ts. now - window_start e \<le> window_size e"
    and "k = min (length ts) (unat (rpm_limit cfg) - unat (request_count e))"
  shows "rpm_calls key cfg ts l =
     (put_entry key (e\<lparr>request_count := request_count e + of_nat k\<rparr>) l,
      replicate k (Inr ()) @ replicate (length ts - k) rpm_rejection)"
  using assms
proof (induction ts arbitrary: e l k)
  case Nil
  then show ?case by (simp add: map_upd_triv)
next
  case (Cons t ts)
  obtain now now' where t: "t = (now, now')" by force
  have w: "now - window_start e \<le> window_size e" using Cons.prems(3) t by auto
  show ?case
  proof (cases "unat (request_count e) < unat (rpm_limit cfg)")
    case True
    let ?e = "e\<lparr>request_count := request_count e + 1\<rparr>"
    let ?k = "min (length ts) (unat (rpm_limit cfg) - unat (request_count ?e))"
    have c: "unat (request_count ?e) = unat (request_count e) + 1"
      using admit_iff(2) [OF Cons.prems(2)] by simp
    have k: "k = Suc ?k" using True c Cons.prems(4) by auto
    have "rpm_calls key cfg ts (put_entry key ?e l) =
       (put_entry key (?e\<lparr>request_count := request_count ?e + of_nat ?k\<rparr>) (put_entry key ?e l),
        replicate ?k (Inr ()) @ replicate (length ts - ?k) rpm_rejection)"
      by (rule Cons.IH) (use True c Cons.prems(3) in auto)
    then show ?thesis
      using rpm_call_in_window [OF Cons.prems(1,2) w, of now'] True t
      unfolding k by (simp add: add.assoc fun_upd_def cong: if_cong)
  next
    case False
    then have full: "request_count e = ucast (rpm_limit cfg)" and k: "k = 0"
      using Cons.prems(2,4) by (auto simp: word_unat_eq_iff)
    have "rpm_calls key cfg (t # ts) l = (l, replicate (length (t # ts)) rpm_rejection)"
      by (rule rpm_calls_full [OF Cons.prems(1) full Cons.prems(3)])
    then show ?thesis using Cons.prems(1) k by (simp add: map_upd_triv)
  qed
qed

text \<open>
  C14: within one RPM window a bucket admits exactly the first calls up to its limit. Of a burst of
  \<open>check_and_record_with_config\<close> calls on one key whose clock readings fall in the window, the
  first \<open>k\<close> are admitted and all the others are refused with the rate-limit error, where \<open>k\<close>
  is the smaller of the burst's length and the capacity left. The burst leaves the counter at the
  old count plus \<open>k\<close> (a refused call takes its increment back) and changes nothing else.
\<close>

theorem rpm_window_exact:
  assumes "entries l key = Some e"
    and "unat (request_count e) \<le> unat (rpm_limit cfg)"
    and "\<forall>(now, now') \<in> set ts. now - window_start e \<le> window_size e"
    and "k = min (length ts) (unat (rpm_limit cfg) - unat (request_count e))"
  shows "rpm_calls key cfg ts l =
     (put_entry key (e\<lparr>request_count := request_count e + of_nat k\<rparr>) l,
      replicate k (Inr ())
        @ replicate (length ts - k) (Inl (RateLimitExceeded ''RPM limit exceeded for tenant '')))"
  using assms by (rule rpm_calls_in_window)

theorem rpm_window_exact_witness:
  "rpm_calls \<lparr>tenant_id = 1, user_id = 2, api_key_id = 3\<rparr> (config_new 2 5) [(1, 1), (2, 2), (3, 3), (4, 4)]
     (put_entry \<lparr>tenant_id = 1, user_id = 2, api_key_id = 3\<rparr> (entry_new 0 60) limiter_new)
   = (put_entry \<lparr>tenant_id = 1, user_id = 2, api_key_id = 3\<rparr> ((entry_new 0 60)\<lparr>request_count := 2\<rparr>)
        limiter_new,
      [Inr (), Inr (), Inl (RateLimitExceeded ''RPM limit exceeded for tenant ''),
       Inl (RateLimitExceeded ''RPM limit exceeded for tenant '')])"
proof -
  have "2 = min (length [(1, 1), (2, 2), (3, 3), (4, 4 :: nat)])
              (unat (rpm_limit (config_new 2 5)) - unat (request_count (entry_new 0 60)))"
    by (simp add: entry_new_def config_new_def)
  from rpm_window_exact [OF _ _ _ this] show ?thesis
    by (simp add: entry_new_def config_new_def eval_nat_numeral)
qed

text \<open>
  C15: the advertised recovery time of a saturated RPM bucket is sharp: a call made exactly
  that long later is still rejected, and every later call is admitted (the window reset is a
  strict comparison).
\<close>

theorem rpm_retry_after_sharp:
  assumes "rpm_retry_after now key cfg l = Inr (Some d)"
    and "entries l key = Some e" "window_start e \<le> now"
    and "unat (request_count e) \<le> unat (rpm_limit cfg)" "d < d'"
  shows "(\<exists>err. snd (check_and_record_with_config (now + d) t key cfg l) = Inl err)
     \<and> snd (check_and_record_with_config (now + d') t key cfg l) = Inr ()"
proof -
  have full: "unat (rpm_limit cfg) = unat (request_count e)" and lim: "rpm_limit cfg \<noteq> 0"
    and d: "d = window_size e - (now - window_start e)" and pos: "d \<noteq> 0"
    using assms by (auto simp: rpm_retry_after_def Let_def word_le_nat_alt split: if_splits)
  have g: "get_or_create_entry x key l = e" for x using assms(2) by (simp add: get_or_create_entry_def)
  have stay: "now + d - window_start e = window_size e"
    using d pos assms(3) by simp
  have "\<not> request_count e + 1 \<le> ucast (rpm_limit cfg)" using admit_iff(1) [OF assms(4)] full by simp
  then have "\<not> snd (entry_check_and_record (now + d) t (rpm_limit cfg) e)"
    using stay by (simp add: entry_check_and_record_def reset_if_expired_def)
  then have "\<exists>err. snd (check_and_record_with_config (now + d) t key cfg l) = Inl err"
    by (cases "entry_check_and_record (now + d) t (rpm_limit cfg) e") (simp add: check_and_record_entry g)
  moreover have "snd (check_and_record_with_config (now + d') t key cfg l) = Inr ()"
  proof -
    have r: "fst (reset_if_expired (now + d') t e) = e\<lparr>request_count := 0, window_start := t\<rparr>"
      using assms(5) stay assms(3) by (simp add: reset_if_expired_def)
    have "(0 :: u64) + 1 \<le> ucast (rpm_limit cfg)"
      using lim by (simp add: word_le_nat_alt unat_gt_0 Suc_le_eq)
    then have "snd (entry_check_and_record (now + d') t (rpm_limit cfg) e)"
      by (simp add: entry_check_and_record_def r)
    then show ?thesis
      by (cases "entry_check_and_record (now + d') t (rpm_limit cfg) e") (simp add: check_and_record_entry g)
  qed
  ultimately show ?thesis by blast
qed

definition example_key :: rate_limit_key where
  "example_key = \<lparr>tenant_id = 1, user_id = 2, api_key_id = 3\<rparr>"

definition example_full_bucket :: rate_limit_entry where
  "example_full_bucket = (entry_new 0 60)\<lparr>request_count := 2\<rparr>"

theorem rpm_retry_after_sharp_witness:
  "(\<exists>err. snd (check_and_record_with_config (10 + 50) 60 example_key (config_new 2 9)
      (put_entry example_key example_full_bucket limiter_new)) = Inl err)
   \<and> snd (check_and_record_with_config (10 + 51) 60 example_key (config_new 2 9)
      (put_entry example_key example_full_bucket limiter_new)) = Inr ()"
  by (rule rpm_retry_after_sharp [where e = example_full_bucket])
    (simp_all add: rpm_retry_after_def example_full_bucket_def entry_new_def config_new_def)

section \<open>Bucket isolation and the limiter invariant\<close>

text \<open>The operations of the limiter on one key, as steps.\<close>

datatype limiter_op =
    L_Check instant instant rate_limit_config
  | L_Record instant
  | L_CheckAndRecord instant instant rate_limit_config
  | L_RecordTokens instant instant uuid u32
  | L_Reserve instant uuid uuid u32 u32
  | L_Renew instant uuid uuid u32
  | L_Restore instant uuid uuid u32
  | L_Release instant uuid
  | L_Reconcile instant instant uuid uuid u32 instant
  | L_Count instant instant
  | L_TokenCount instant

fun limiter_step :: "rate_limit_key \<Rightarrow> limiter_op \<Rightarrow> memory_rate_limiter \<Rightarrow> memory_rate_limiter" where
  "limiter_step key (L_Check n n' cfg) l = fst (check_with_config n n' key cfg l)"
| "limiter_step key (L_Record n) l = fst (record_request n key l)"
| "limiter_step key (L_CheckAndRecord n n' cfg) l = fst (check_and_record_with_config n n' key cfg l)"
| "limiter_step key (L_RecordTokens w n i t) l = fst (record_tokens w n i key t l)"
| "limiter_step key (L_Reserve n r t p lim) l = fst (reserve_tokens n key r t p lim l)"
| "limiter_step key (L_Renew n r t p) l = fst (renew_token_reservation n key r t p l)"
| "limiter_step key (L_Restore n r t p) l = fst (restore_token_reservation n key r t p l)"
| "limiter_step key (L_Release n i) l = fst (release_token_reservation n key i l)"
| "limiter_step key (L_Reconcile w n r t tok occ) l = fst (reconcile_tokens_once_at w n key r t tok occ l)"
| "limiter_step key (L_Count n n') l = fst (get_count n n' key l)"
| "limiter_step key (L_TokenCount n) l = fst (get_token_count n key l)"

lemmas limiter_defs =
  check_with_config_def record_request_def check_and_record_with_config_def record_tokens_def
  reserve_tokens_def renew_token_reservation_def restore_token_reservation_def
  release_token_reservation_def reconcile_tokens_once_at_def get_count_def get_token_count_def

lemmas entry_defs =
  reset_if_expired_def increment_request_def decrement_request_def entry_reconcile_def
  entry_reserve_def entry_renew_def entry_release_def entry_token_count_def

lemma limiter_step_frame:
  "key' \<noteq> key \<Longrightarrow> entries (limiter_step key op l) key' = entries l key'"
  by (cases op) (auto simp: limiter_defs Let_def split: prod.split)

text \<open>Every bucket's token window is well formed and has the limiter's window length.\<close>

definition entry_inv :: "duration \<Rightarrow> rate_limit_entry \<Rightarrow> bool" where
  "entry_inv w e \<longleftrightarrow> cache_inv (token_records e) \<and> window_size e = w"

definition limiter_inv :: "memory_rate_limiter \<Rightarrow> bool" where
  "limiter_inv l \<longleftrightarrow> (\<forall>k e. entries l k = Some e \<longrightarrow> entry_inv (lim_window_size l) e)"

lemma entry_inv_new [simp]: "entry_inv w (entry_new now w)"
  by (simp add: entry_inv_def entry_new_def cache_inv_default)

lemma get_or_create_inv: "limiter_inv l \<Longrightarrow> entry_inv (lim_window_size l) (get_or_create_entry now key l)"
  by (auto simp: limiter_inv_def get_or_create_entry_def split: option.split)

lemma limiter_inv_put:
  "limiter_inv l \<Longrightarrow> entry_inv (lim_window_size l) e \<Longrightarrow> limiter_inv (put_entry key e l)"
  by (auto simp: limiter_inv_def)

text \<open>The live tokens of a bucket leave room for one more 32-bit amount in the counter.\<close>

definition roomy :: "instant \<Rightarrow> rate_limit_entry \<Rightarrow> bool" where
  "roomy now e \<longleftrightarrow> token_sum (live now (cache_records (token_records e))) + 2 ^ 32 \<le> 2 ^ 64"

fun l_op_ok :: "rate_limit_key \<Rightarrow> limiter_op \<Rightarrow> memory_rate_limiter \<Rightarrow> bool" where
  "l_op_ok key (L_RecordTokens w n i t) l = roomy n (get_or_create_entry n key l)"
| "l_op_ok key (L_Renew n r t p) l = roomy n (get_or_create_entry n key l)"
| "l_op_ok key (L_Restore n r t p) l = roomy n (get_or_create_entry n key l)"
| "l_op_ok key (L_Reconcile w n r t tok occ) l = roomy n (get_or_create_entry n key l)"
| "l_op_ok key _ l = True"

lemma roomy_fits: "roomy now e \<Longrightarrow> fits now (token_records e) (ucast (t :: u32))"
  using unat_u32_bound [of t] by (simp add: roomy_def fits_def)

lemma u32_limit_ok: "unat (ucast (lim :: u32) :: u64) < 2 ^ 64 - 1"
  using unat_u32_bound [of lim] by simp

lemma entry_ops_inv:
  assumes "entry_inv w e"
  shows "entry_inv w (fst (reset_if_expired n n' e))"
    and "entry_inv w (fst (increment_request e))"
    and "entry_inv w (decrement_request e)"
    and "entry_inv w (fst (entry_reserve n r t tok (ucast (lim :: u32)) e))"
    and "entry_inv w (entry_release n i e)"
    and "entry_inv w (fst (entry_token_count n e))"
    and "fits n (token_records e) tok \<Longrightarrow> entry_inv w (fst (entry_renew n r t tok rm e))"
    and "fits n (token_records e) tok \<Longrightarrow> entry_inv w (fst (entry_reconcile wn n r t tok occ e))"
  using assms reserve_inv [of "token_records e" "ucast lim" r t tok n w, OF _ u32_limit_ok]
    renew_inv [of "token_records e" n tok r t w rm]
    reconcile_at_inv [of "token_records e" n tok r t "checked_sub w (wn - occ)"]
  by (auto simp: entry_inv_def entry_defs total_def Let_def release_inv split: prod.split)

lemma limiter_step_inv:
  assumes inv: "limiter_inv l" and ok: "l_op_ok key op l"
  shows "limiter_inv (limiter_step key op l)"
proof -
  note e = get_or_create_inv [OF inv]
  note [intro!] = limiter_inv_put [OF inv] entry_ops_inv e roomy_fits
  show ?thesis
    using ok by (cases op) (auto simp: limiter_defs Let_def fst_conv case_prod_beta)
qed

text \<open>
  Buckets are isolated: an operation on one (tenant, user, key) bucket leaves the bucket of
  every other key untouched, keeps every bucket well formed, and creates no bucket but its own.
\<close>

theorem limiter_bucket_isolation:
  assumes "limiter_inv l" "l_op_ok key op l"
  shows "limiter_inv (limiter_step key op l)
     \<and> (\<forall>key'. key' \<noteq> key \<longrightarrow> entries (limiter_step key op l) key' = entries l key')
     \<and> dom (entries (limiter_step key op l)) \<subseteq> insert key (dom (entries l))"
proof (intro conjI allI impI)
  show "limiter_inv (limiter_step key op l)" using assms by (rule limiter_step_inv)
  show f: "entries (limiter_step key op l) key' = entries l key'" if "key' \<noteq> key" for key'
    using that by (rule limiter_step_frame)
  show "dom (entries (limiter_step key op l)) \<subseteq> insert key (dom (entries l))"
    using limiter_step_frame [of _ key op l] by (fastforce simp: dom_def)
qed

theorem limiter_bucket_isolation_witness:
  "limiter_inv (limiter_step example_key (L_Reserve 5 1 2 30 100) limiter_new)
     \<and> dom (entries (limiter_step example_key (L_Reserve 5 1 2 30 100) limiter_new)) \<subseteq> {example_key}"
proof -
  have "limiter_inv limiter_new" by (simp add: limiter_inv_def limiter_new_def)
  from limiter_bucket_isolation [OF this, of example_key "L_Reserve 5 1 2 30 100"]
  show ?thesis by (simp add: limiter_new_def)
qed

section \<open>Cleanup is transparent\<close>

text \<open>
  A schedule of the limiter: calls on any keys, with cleanup passes between them. What a call
  answers to its client is compared for the calls on the token window.
\<close>

datatype limiter_event = Call rate_limit_key limiter_op | Cleanup instant

fun op_time :: "limiter_op \<Rightarrow> instant" where
  "op_time (L_Check n n' cfg) = n"
| "op_time (L_Record n) = n"
| "op_time (L_CheckAndRecord n n' cfg) = n"
| "op_time (L_RecordTokens w n i t) = n"
| "op_time (L_Reserve n r t p lim) = n"
| "op_time (L_Renew n r t p) = n"
| "op_time (L_Restore n r t p) = n"
| "op_time (L_Release n i) = n"
| "op_time (L_Reconcile w n r t tok occ) = n"
| "op_time (L_Count n n') = n"
| "op_time (L_TokenCount n) = n"

fun event_time :: "limiter_event \<Rightarrow> instant" where
  "event_time (Call key op) = op_time op"
| "event_time (Cleanup now) = now"

fun is_call :: "limiter_event \<Rightarrow> bool" where
  "is_call (Call key op) = True"
| "is_call (Cleanup now) = False"

datatype token_answer =
    Unit_Answer "unit kc_result"
  | Bool_Answer "bool kc_result"
  | Count_Answer "u64 kc_result"

fun token_answers :: "rate_limit_key \<Rightarrow> limiter_op \<Rightarrow> memory_rate_limiter \<Rightarrow> token_answer list" where
  "token_answers key (L_RecordTokens w n i t) l = [Unit_Answer (snd (record_tokens w n i key t l))]"
| "token_answers key (L_Reserve n r t p lim) l = [Unit_Answer (snd (reserve_tokens n key r t p lim l))]"
| "token_answers key (L_Renew n r t p) l = [Bool_Answer (snd (renew_token_reservation n key r t p l))]"
| "token_answers key (L_Restore n r t p) l = [Bool_Answer (snd (restore_token_reservation n key r t p l))]"
| "token_answers key (L_Release n i) l = [Unit_Answer (snd (release_token_reservation n key i l))]"
| "token_answers key (L_Reconcile w n r t tok occ) l =
     [Unit_Answer (snd (reconcile_tokens_once_at w n key r t tok occ l))]"
| "token_answers key (L_TokenCount n) l = [Count_Answer (snd (get_token_count n key l))]"
| "token_answers key _ l = []"

fun run_answers :: "limiter_event list \<Rightarrow> memory_rate_limiter \<Rightarrow> token_answer list" where
  "run_answers [] l = []"
| "run_answers (Call key op # es) l = token_answers key op l @ run_answers es (limiter_step key op l)"
| "run_answers (Cleanup now # es) l = run_answers es (limiter_cleanup now l)"

fun run_roomy :: "limiter_event list \<Rightarrow> memory_rate_limiter \<Rightarrow> bool" where
  "run_roomy [] l = True"
| "run_roomy (Call key op # es) l = (l_op_ok key op l \<and> run_roomy es (limiter_step key op l))"
| "run_roomy (Cleanup now # es) l = run_roomy es (limiter_cleanup now l)"

text \<open>Each operation on the token window, as a step of its specification.\<close>

fun token_op :: "duration \<Rightarrow> limiter_op \<Rightarrow> window_op option" where
  "token_op sz (L_RecordTokens w n i t) = Some (Op_Reconcile i i (ucast t) (checked_sub sz (w - w)))"
| "token_op sz (L_Reserve n r t p lim) = Some (Op_Reserve r t (ucast p) (ucast lim))"
| "token_op sz (L_Renew n r t p) = Some (Op_Renew r t (ucast p) False)"
| "token_op sz (L_Restore n r t p) = Some (Op_Renew r t (ucast p) True)"
| "token_op sz (L_Release n i) = Some (Op_Release i)"
| "token_op sz (L_Reconcile w n r t tok occ) = Some (Op_Reconcile r t (ucast tok) (checked_sub sz (w - occ)))"
| "token_op sz (L_TokenCount n) = Some Op_Total"
| "token_op sz _ = None"

definition bucket_records :: "rate_limit_key \<Rightarrow> memory_rate_limiter \<Rightarrow> (uuid \<rightharpoonup> token_record)" where
  "bucket_records key l =
     (case entries l key of None \<Rightarrow> Map.empty | Some e \<Rightarrow> cache_records (token_records e))"

lemma bucket_records_entry: "cache_records (token_records (get_or_create_entry n key l)) = bucket_records key l"
  by (auto simp: get_or_create_entry_def bucket_records_def entry_new_def token_cache_default_def
      split: option.split)

lemma limiter_step_records:
  assumes inv: "limiter_inv l" and ok: "l_op_ok key op l"
  shows "bucket_records key (limiter_step key op l) =
     (case token_op (lim_window_size l) op of None \<Rightarrow> bucket_records key l
      | Some wop \<Rightarrow> spec_step (op_time op) (lim_window_size l) wop (bucket_records key l))"
proof -
  let ?c = "token_records (get_or_create_entry (op_time op) key l)" and ?w = "lim_window_size l"
  have c: "cache_inv ?c" and w: "window_size (get_or_create_entry (op_time op) key l) = ?w"
    using get_or_create_inv [OF inv, of "op_time op" key] by (simp_all add: entry_inv_def)
  have step: "cache_records (cache_step (op_time op) ?w wop ?c)
      = spec_step (op_time op) ?w wop (bucket_records key l)"
    if "token_op ?w op = Some wop" for wop
  proof -
    have "unat (x :: u32) < 2 ^ 64 - 1" for x using unat_u32_bound [of x] by simp
    then have "op_ok (op_time op) wop (cache_records ?c)"
      using that ok by (cases op) (auto dest!: roomy_fits simp: fits_def)
    from memory_window.step_refines [OF c this] show ?thesis by (simp add: bucket_records_entry)
  qed
  have "bucket_records key (limiter_step key op l) =
     (case token_op ?w op of None \<Rightarrow> cache_records ?c
      | Some wop \<Rightarrow> cache_records (cache_step (op_time op) ?w wop ?c))"
    using w by (cases op)
      (simp_all add: limiter_defs entry_defs bucket_records_def Let_def case_prod_beta)
  with step show ?thesis by (auto simp: bucket_records_entry split: option.split)
qed

lemma spec_step_live:
  "live n m = live n m' \<Longrightarrow> spec_step n w op m = spec_step n w op m'"
  by (cases op) (simp_all add: spec_reserve_def spec_renew_def spec_reconcile_def)

text \<open>Two limiters are alike from a time on when their buckets have the same live records.\<close>

definition alike :: "instant \<Rightarrow> memory_rate_limiter \<Rightarrow> memory_rate_limiter \<Rightarrow> bool" where
  "alike n l l' \<longleftrightarrow> limiter_inv l \<and> limiter_inv l' \<and> lim_window_size l = lim_window_size l' \<and>
     (\<forall>key. live n (bucket_records key l) = live n (bucket_records key l'))"

lemma alike_later:
  assumes "alike n l l'" "n \<le> n'"
  shows "alike n' l l'"
proof -
  have "live n' (bucket_records key l) = live n' (bucket_records key l')" for key
    using assms(1) live_later [OF assms(2), of "bucket_records key l"]
      live_later [OF assms(2), of "bucket_records key l'"] by (simp add: alike_def)
  then show ?thesis using assms(1) by (simp add: alike_def)
qed

lemma limiter_cleanup_inv: "limiter_inv l \<Longrightarrow> limiter_inv (limiter_cleanup now l)"
  by (auto simp: limiter_inv_def limiter_cleanup_def entry_is_expired_def cache_is_empty_def entry_inv_def
      prune_inv Let_def case_prod_beta split: option.splits if_splits)

lemma limiter_cleanup_records:
  assumes "limiter_inv l"
  shows "live now (bucket_records key (limiter_cleanup now l)) = live now (bucket_records key l)"
proof (cases "entries l key")
  case (Some e)
  then have "cache_inv (token_records e)" using assms by (auto simp: limiter_inv_def entry_inv_def)
  then have "cache_records (prune now (token_records e)) = live now (cache_records (token_records e))"
    by (rule prune_records)
  with Some show ?thesis
    using live_later [of now now "cache_records (token_records e)"]
    by (auto simp: limiter_cleanup_def entry_is_expired_def cache_is_empty_def bucket_records_def)
qed (simp add: limiter_cleanup_def bucket_records_def)

lemma alike_cleanup: "alike now l l' \<Longrightarrow> alike now (limiter_cleanup now l) l'"
  by (simp add: alike_def limiter_cleanup_inv limiter_cleanup_records) (simp add: limiter_cleanup_def)

lemma alike_op_ok: "alike (op_time op) l l' \<Longrightarrow> l_op_ok key op l = l_op_ok key op l'"
  by (cases op) (simp_all add: alike_def roomy_def bucket_records_entry)

lemma limiter_step_window [simp]: "lim_window_size (limiter_step key op l) = lim_window_size l"
  by (cases op) (simp_all add: limiter_defs Let_def case_prod_beta)

lemma alike_step:
  assumes "alike (op_time op) l l'" "l_op_ok key op l"
  shows "alike (op_time op) (limiter_step key op l) (limiter_step key op l')"
proof -
  have ok: "l_op_ok key op l'" using alike_op_ok assms by blast
  have inv: "limiter_inv l" "limiter_inv l'" and w: "lim_window_size l = lim_window_size l'"
    and live: "live (op_time op) (bucket_records k l) = live (op_time op) (bucket_records k l')" for k
    using assms(1) by (auto simp: alike_def)
  have "live (op_time op) (bucket_records k (limiter_step key op l))
      = live (op_time op) (bucket_records k (limiter_step key op l'))" for k
  proof (cases "k = key")
    case True
    then show ?thesis
      using spec_step_live [OF live [of key]] live [of key] w
      by (auto simp: limiter_step_records [OF inv(1) assms(2)] limiter_step_records [OF inv(2) ok]
          split: option.split)
  next
    case False
    then show ?thesis using live [of k] by (simp add: bucket_records_def limiter_step_frame)
  qed
  then show ?thesis
    using limiter_step_inv [OF inv(1) assms(2)] limiter_step_inv [OF inv(2) ok] w by (simp add: alike_def)
qed

lemma snd_map_prod_eq: "map_prod f id p = q \<Longrightarrow> snd p = snd q"
  by (cases p) auto

lemma outcomes_live:
  assumes inv: "cache_inv c" "cache_inv c'" and live: "live n (cache_records c) = live n (cache_records c')"
  shows "snd (reserve r t tok (ucast (lim :: u32)) n w c) = snd (reserve r t tok (ucast lim) n w c')"
    and "snd (renew r t tok n w rm c) = snd (renew r t tok n w rm c')"
    and "snd (reconcile_at r t tok n h c) = snd (reconcile_at r t tok n h c')"
    and "snd (total n c) = snd (total n c')"
proof -
  note s = snd_map_prod_eq
  show "snd (reserve r t tok (ucast (lim :: u32)) n w c) = snd (reserve r t tok (ucast lim) n w c')"
    using s [OF reserve_refines [OF inv(1) u32_limit_ok]] s [OF reserve_refines [OF inv(2) u32_limit_ok]] live
    by (simp add: spec_reserve_def)
  show "snd (renew r t tok n w rm c) = snd (renew r t tok n w rm c')"
    using s [OF renew_refines [OF inv(1)]] s [OF renew_refines [OF inv(2)]] live by (simp add: spec_renew_def)
  show "snd (reconcile_at r t tok n h c) = snd (reconcile_at r t tok n h c')"
    using s [OF reconcile_refines [OF inv(1)]] s [OF reconcile_refines [OF inv(2)]] live
    by (simp add: spec_reconcile_def)
  have "unat (snd (total n c)) = unat (snd (total n c'))" using inv live by (simp add: total_correct)
  then show "snd (total n c) = snd (total n c')" by (simp add: word_unat_eq_iff)
qed

lemma alike_answers:
  assumes "alike (op_time op) l l'"
  shows "token_answers key op l = token_answers key op l'"
proof -
  let ?e = "get_or_create_entry (op_time op) key l" and ?e' = "get_or_create_entry (op_time op) key l'"
  have i: "entry_inv (lim_window_size l) ?e" "entry_inv (lim_window_size l) ?e'"
    using assms get_or_create_inv [of l "op_time op" key] get_or_create_inv [of l' "op_time op" key]
    by (auto simp: alike_def)
  then have w: "window_size ?e = window_size ?e'"
    and c: "cache_inv (token_records ?e)" "cache_inv (token_records ?e')"
    by (simp_all add: entry_inv_def)
  have "live (op_time op) (cache_records (token_records ?e)) = live (op_time op) (cache_records (token_records ?e'))"
    using assms by (simp add: alike_def bucket_records_entry)
  note o = outcomes_live [OF c this]
  show ?thesis
    using o w by (cases op) (simp_all add: limiter_defs entry_defs Let_def case_prod_beta)
qed

lemma cleanup_invisible:
  assumes "alike n l l'" "sorted (n # map event_time es)" "run_roomy es l"
  shows "run_answers es l = run_answers (filter is_call es) l'"
  using assms
proof (induction es arbitrary: n l l')
  case (Cons ev es)
  have a: "alike (event_time ev) l l'" using alike_later [OF Cons.prems(1)] Cons.prems(2) by simp
  have s: "sorted (event_time ev # map event_time es)" using Cons.prems(2) by simp
  show ?case
  proof (cases ev)
    case (Call key op)
    then have "alike (event_time ev) (limiter_step key op l) (limiter_step key op l')"
      using a Cons.prems(3) by (simp add: alike_step)
    from Cons.IH [OF this s] Call a Cons.prems(3) show ?thesis by (simp add: alike_answers)
  next
    case (Cleanup now)
    then have "alike (event_time ev) (limiter_cleanup now l) l'" using a by (simp add: alike_cleanup)
    from Cons.IH [OF this s] Cleanup Cons.prems(3) show ?thesis by simp
  qed
qed simp

text \<open>
  C16: the periodic cleanup is unobservable to the token window. Take any schedule of limiter calls on
  any keys with cleanup passes anywhere between them, in clock order and with token counts that
  leave room for one more amount: every reservation, renewal, restoration, release, reconciliation
  and token count of the schedule answers exactly what it answers when all cleanup passes are left
  out, although they drop and prune buckets. (RPM calls may be part of the schedule but their
  answers are not compared: the bucket re-created after a cleanup starts its RPM window at that
  moment, see \<open>cleanup_moves_rpm_window\<close>.)
\<close>

theorem limiter_cleanup_transparent:
  assumes "limiter_inv l" "sorted (map event_time es)" "run_roomy es l"
  shows "run_answers es l = run_answers (filter is_call es) l"
proof -
  have "alike 0 l l" using assms(1) by (simp add: alike_def)
  from cleanup_invisible [OF this _ assms(3)] assms(2) show ?thesis by simp
qed

text \<open>A limiter with a window of 60 ticks whose bucket is dropped by the cleanup at tick 100.\<close>

definition example_limiter :: memory_rate_limiter where
  "example_limiter = \<lparr>entries = [example_key \<mapsto> entry_new 0 60], lim_window_size = 60\<rparr>"

definition example_schedule :: "limiter_event list" where
  "example_schedule =
     [Call example_key (L_Reserve 10 1 2 30 40), Cleanup 100, Call example_key (L_Reserve 100 3 4 30 40),
      Call example_key (L_Reserve 150 5 6 30 40), Cleanup 165, Call example_key (L_TokenCount 170)]"

lemmas limiter_eval =
  example_limiter_def limiter_defs entry_defs get_or_create_entry_def entry_new_def token_cache_default_def
  limiter_cleanup_def entry_is_expired_def cache_is_empty_def reserve_def total_def prune_def is_terminal_def
  insert_record_def instant_checked_add_def instant_limit_def sat_add_def sat_sub_def config_new_def Let_def

lemma example_limiter_inv: "limiter_inv example_limiter"
  by (simp add: example_limiter_def limiter_inv_def)

lemma example_cleanup_drops:
  "entries (limiter_cleanup 100 (limiter_step example_key (L_Reserve 10 1 2 30 40) example_limiter)) example_key
     = None"
  by (simp add: limiter_eval)

theorem limiter_cleanup_transparent_witness:
  "run_answers example_schedule example_limiter
     = [Unit_Answer (Inr ()), Unit_Answer (Inr ()),
        Unit_Answer (Inl (RateLimitExceeded ''TPM limit exceeded for tenant '')), Count_Answer (Inr 0)]"
proof -
  have "sorted (map event_time example_schedule)" "run_roomy example_schedule example_limiter"
    by (simp_all add: example_schedule_def)
  from limiter_cleanup_transparent [OF example_limiter_inv this] show ?thesis
    by (simp add: example_schedule_def limiter_eval)
qed

text \<open>
  The boundary of C16: the RPM window is not transparent to cleanup. A bucket that is dropped and
  re-created at tick 100 still has its RPM window open at 150 and closed at 170, whereas without
  the cleanup the window is reopened by the check at 150 and still open at 170.
\<close>

lemma cleanup_moves_rpm_window:
  "snd (rpm_calls example_key (config_new 1 40) [(150, 150), (170, 170)]
      (limiter_step example_key (L_Reserve 100 3 4 30 40) (limiter_cleanup 100 example_limiter))) = [Inr (), Inr ()]"
  "snd (rpm_calls example_key (config_new 1 40) [(150, 150), (170, 170)]
      (limiter_step example_key (L_Reserve 100 3 4 30 40) example_limiter)) = [Inr (), rpm_rejection]"
  by (simp_all add: limiter_eval)

end
