(* ===== verification/Rpm_Interleaving.thy ===== *)
theory Rpm_Interleaving
  imports Rate_Limit
begin

text \<open>
  \<open>MemoryRateLimiter::check_and_record_with_config\<close> holds only a shared reference to its bucket,
  so concurrent calls interleave between their atomic actions: the window reset (under the
  window lock), the \<open>fetch_add\<close> of the request counter, and the \<open>fetch_sub\<close> that rolls an
  over-limit increment back. This theory is the step relation of that interleaving on one
  bucket. Calls are anonymous, so the state counts how many of them stand between two
  actions; \<open>admitted\<close> is a history variable, the calls admitted since the last reset.
\<close>

record rpm_sys =
  rs_count :: u64
  rs_start :: instant
  rs_clock :: instant
  rs_ready :: nat
  rs_rollback :: nat
  rs_admitted :: nat

definition rpm_init :: "instant \<Rightarrow> rpm_sys" where
  "rpm_init now = \<lparr>rs_count = 0, rs_start = now, rs_clock = now, rs_ready = 0, rs_rollback = 0,
                   rs_admitted = 0\<rparr>"

text \<open>
  At most \<open>calls\<close> calls are in flight at once. With \<open>quiet\<close> set, only the interleavings are kept in which no over-limit call is still
  between its increment and its rollback when a window is reset.
\<close>

inductive rpm_step :: "bool \<Rightarrow> nat \<Rightarrow> u32 \<Rightarrow> duration \<Rightarrow> rpm_sys \<Rightarrow> rpm_sys \<Rightarrow> bool"
  for quiet calls limit window where
  tick: "rs_clock s \<le> t \<Longrightarrow> rpm_step quiet calls limit window s (s\<lparr>rs_clock := t\<rparr>)"
| enter_reset: "rs_ready s + rs_rollback s < calls \<Longrightarrow> window < rs_clock s - rs_start s \<Longrightarrow> quiet \<longrightarrow> rs_rollback s = 0 \<Longrightarrow>
    rpm_step quiet calls limit window s
      (s\<lparr>rs_count := 0, rs_start := rs_clock s, rs_ready := Suc (rs_ready s), rs_admitted := 0\<rparr>)"
| enter_keep: "rs_ready s + rs_rollback s < calls \<Longrightarrow> \<not> window < rs_clock s - rs_start s \<Longrightarrow>
    rpm_step quiet calls limit window s (s\<lparr>rs_ready := Suc (rs_ready s)\<rparr>)"
| increment_ok: "rs_ready s = Suc n \<Longrightarrow> \<not> ucast limit < rs_count s + 1 \<Longrightarrow>
    rpm_step quiet calls limit window s
      (s\<lparr>rs_count := rs_count s + 1, rs_ready := n, rs_admitted := Suc (rs_admitted s)\<rparr>)"
| increment_over: "rs_ready s = Suc n \<Longrightarrow> ucast limit < rs_count s + 1 \<Longrightarrow>
    rpm_step quiet calls limit window s
      (s\<lparr>rs_count := rs_count s + 1, rs_ready := n, rs_rollback := Suc (rs_rollback s)\<rparr>)"
| rollback: "rs_rollback s = Suc n \<Longrightarrow>
    rpm_step quiet calls limit window s (s\<lparr>rs_count := rs_count s - 1, rs_rollback := n\<rparr>)"

inductive rpm_reach :: "bool \<Rightarrow> nat \<Rightarrow> u32 \<Rightarrow> duration \<Rightarrow> rpm_sys \<Rightarrow> bool" for quiet calls limit window where
  start: "rpm_reach quiet calls limit window (rpm_init now)"
| step: "rpm_reach quiet calls limit window s \<Longrightarrow> rpm_step quiet calls limit window s s' \<Longrightarrow>
    rpm_reach quiet calls limit window s'"

text \<open>
  The counter is exactly the admitted calls plus the over-limit calls not yet rolled back,
  and the calls in flight are bounded.
\<close>

definition rpm_inv :: "nat \<Rightarrow> u32 \<Rightarrow> rpm_sys \<Rightarrow> bool" where
  "rpm_inv calls limit s \<longleftrightarrow>
     unat (rs_count s) = rs_admitted s + rs_rollback s \<and> rs_admitted s \<le> unat limit \<and>
     rs_ready s + rs_rollback s \<le> calls"

lemma unat_inc: "unat (c :: u64) + 1 < 2 ^ 64 \<Longrightarrow> unat (c + 1) = unat c + 1"
  by (simp add: unat_word_ariths)

lemma unat_dec: "unat (c :: u64) = Suc n \<Longrightarrow> unat (c - 1) = n"
  by (simp add: unat_sub word_le_nat_alt)

lemma rpm_inv_room:
  assumes "rpm_inv calls limit s" "calls \<le> 2 ^ 32"
  shows "unat (rs_count s + 1) = unat (rs_count s) + 1"
  using assms unat_u32_bound [of limit] by (intro unat_inc) (simp add: rpm_inv_def)

lemma rpm_step_inv:
  assumes "rpm_step True calls limit window s s'" "rpm_inv calls limit s" "calls \<le> 2 ^ 32"
  shows "rpm_inv calls limit s'"
  using assms
proof (induction rule: rpm_step.induct)
  case (increment_ok s n)
  then show ?case using rpm_inv_room [of calls limit s]
    by (simp add: rpm_inv_def word_less_nat_alt not_less)
next
  case (increment_over s n)
  then show ?case using rpm_inv_room [of calls limit s] by (simp add: rpm_inv_def)
next
  case (rollback s n)
  then show ?case using unat_dec [of "rs_count s" "rs_admitted s + n"] by (simp add: rpm_inv_def)
qed (simp_all add: rpm_inv_def)

lemma rpm_reach_inv:
  assumes "rpm_reach True calls limit window s" "calls \<le> 2 ^ 32"
  shows "rpm_inv calls limit s"
  using assms
proof (induction rule: rpm_reach.induct)
  case (start now)
  then show ?case by (simp add: rpm_init_def rpm_inv_def)
next
  case (step s s')
  then show ?case by (blast intro: rpm_step_inv)
qed

text \<open>
  C17: the increment-then-rollback admission is safe under every interleaving in which no
  over-limit call straddles a window reset: at most the limit is admitted per window, and
  the counter never loses or gains a call.
\<close>

theorem rpm_interleaving_safe:
  assumes "rpm_reach True calls limit window s" "calls \<le> 2 ^ 32"
  shows "rs_admitted s \<le> unat limit \<and> unat (rs_count s) = rs_admitted s + rs_rollback s"
  using rpm_reach_inv [OF assms] by (simp add: rpm_inv_def)

lemma rpm_reach_one:
  "rpm_reach q 4 1 60 \<lparr>rs_count = 1, rs_start = 0, rs_clock = 0, rs_ready = 0, rs_rollback = 0,
     rs_admitted = 1\<rparr>"
proof -
  have "rpm_reach q 4 1 60 ((rpm_init 0)\<lparr>rs_ready := Suc 0\<rparr>)"
    using rpm_reach.step [OF rpm_reach.start rpm_step.enter_keep] by (simp add: rpm_init_def)
  from rpm_reach.step [OF this rpm_step.increment_ok [where n = 0]] show ?thesis
    by (simp add: rpm_init_def)
qed

theorem rpm_interleaving_safe_witness:
  "rs_admitted \<lparr>rs_count = 1, rs_start = 0, rs_clock = 0, rs_ready = 0, rs_rollback = 0, rs_admitted = 1\<rparr>
     \<le> unat (1 :: u32)"
  using rpm_interleaving_safe [OF rpm_reach_one] by simp


end
