(* ===== verification/Admission.thy ===== *)
theory Admission
  imports Prelude "HOL-Library.Multiset"
begin

text \<open>
  Process-local resource admission (\<open>crates/keycompute-runtime/src/admission.rs\<close>): a total and a
  per-key bound on active work, a bounded queue of waiting callers, and permits and tickets
  whose destructors give capacity back. The critical sections of \<open>acquire\<close>, of the two
  destructors and of \<open>close\<close> are functions on the state under the lock; a step relation
  interleaves them, and its invariant is the bound the module promises. Counters are
  \<open>usize\<close> that the invariant keeps far below their range; a missing key, where the
  source panics, and a subtraction below zero, which would corrupt the counter, are \<open>None\<close>.
\<close>

section \<open>Data\<close>

record admission_limits =
  lim_total :: nat
  lim_per_key :: nat
  lim_queue :: nat
  lim_queue_per_key :: nat
  lim_wait :: duration

datatype admission_error = Closed | Full | AdmissionTimeout

record counts =
  c_active :: nat
  c_queued :: nat

record admission_state =
  st_closed :: bool
  st_active :: nat
  st_keys :: "uuid \<rightharpoonup> counts"
  st_queue :: "(uuid \<times> uuid) list"

definition state_default :: admission_state where
  "state_default = \<lparr>st_closed = False, st_active = 0, st_keys = Map.empty, st_queue = []\<rparr>"

definition counts_default :: counts where
  "counts_default = \<lparr>c_active = 0, c_queued = 0\<rparr>"

section \<open>Operations\<close>

definition admission_new :: "admission_limits \<Rightarrow> string + admission_state" where
  "admission_new l =
     (if lim_total l = 0 \<or> lim_per_key l = 0 \<or> 65536 < lim_total l \<or> lim_total l < lim_per_key l
         \<or> 65536 < lim_queue l \<or> lim_queue l < lim_queue_per_key l
         \<or> lim_wait l = 0 \<or> 60 * 1000000000 < lim_wait l
      then Inl ''invalid resource admission capacity or deadline''
      else Inr state_default)"

definition eligible :: "admission_limits \<Rightarrow> admission_state \<Rightarrow> uuid \<Rightarrow> bool" where
  "eligible l s key \<longleftrightarrow>
     st_active s < lim_total l
     \<and> (case st_keys s key of None \<Rightarrow> True | Some c \<Rightarrow> c_active c < lim_per_key l)"

definition key_counts :: "(uuid \<rightharpoonup> counts) \<Rightarrow> uuid \<Rightarrow> counts" where
  "key_counts m key = (case m key of None \<Rightarrow> counts_default | Some c \<Rightarrow> c)"

definition grant :: "uuid \<Rightarrow> admission_state \<Rightarrow> admission_state" where
  "grant key s =
     (let c = key_counts (st_keys s) key
      in s\<lparr>st_active := st_active s + 1, st_keys := (st_keys s)(key \<mapsto> c\<lparr>c_active := c_active c + 1\<rparr>)\<rparr>)"

definition eligible_ticket :: "admission_limits \<Rightarrow> admission_state \<Rightarrow> uuid option" where
  "eligible_ticket l s = map_option fst (find (\<lambda>(ticket, scope). eligible l s scope) (st_queue s))"

text \<open>The removal of a key whose last active or queued call is gone.\<close>

definition trim_key :: "uuid \<Rightarrow> counts \<Rightarrow> (uuid \<rightharpoonup> counts) \<Rightarrow> (uuid \<rightharpoonup> counts)" where
  "trim_key key c m = (if c_active c = 0 \<and> c_queued c = 0 then m(key := None) else m(key \<mapsto> c))"

definition lease_drop :: "uuid \<Rightarrow> admission_state \<Rightarrow> admission_state option" where
  "lease_drop key s =
     (case (checked_sub (st_active s) 1, st_keys s key) of
        (Some active, Some c) \<Rightarrow>
          (case checked_sub (c_active c) 1 of
             None \<Rightarrow> None
           | Some n \<Rightarrow> Some (s\<lparr>st_active := active, st_keys := trim_key key (c\<lparr>c_active := n\<rparr>) (st_keys s)\<rparr>))
      | _ \<Rightarrow> None)"

text \<open>\<open>queue.iter().position(|(id, _)| *id == ticket)\<close> and \<open>queue.remove(pos)\<close>.\<close>

definition queue_remove :: "uuid \<Rightarrow> (uuid \<times> uuid) list \<Rightarrow> ((uuid \<times> uuid) \<times> (uuid \<times> uuid) list) option" where
  "queue_remove ticket q =
     (case find (\<lambda>(t, k). t = ticket) q of None \<Rightarrow> None | Some x \<Rightarrow> Some (x, remove1 x q))"

definition ticket_drop :: "uuid \<Rightarrow> bool \<Rightarrow> admission_state \<Rightarrow> admission_state option" where
  "ticket_drop ticket queued s =
     (if \<not> queued then Some s
      else case queue_remove ticket (st_queue s) of
        None \<Rightarrow> Some s
      | Some ((_, key), q) \<Rightarrow>
          (case st_keys s key of
             None \<Rightarrow> None
           | Some c \<Rightarrow>
               (case checked_sub (c_queued c) 1 of
                  None \<Rightarrow> None
                | Some n \<Rightarrow>
                    Some (s\<lparr>st_queue := q, st_keys := trim_key key (c\<lparr>c_queued := n\<rparr>) (st_keys s)\<rparr>))))"

datatype acquire_outcome = Granted | Refused admission_error | Wait

text \<open>
  One pass of the \<open>acquire\<close> loop under the lock, for a caller with the given ticket. The
  Boolean \<open>queued\<close> is \<open>ticket.queued\<close>, \<open>late\<close> is \<open>Instant::now() >= deadline\<close>. The result is
  the state, the ticket's new flag and the outcome; \<open>None\<close> is a panic.
\<close>

definition acquire_pass ::
  "admission_limits \<Rightarrow> uuid \<Rightarrow> bool \<Rightarrow> uuid \<Rightarrow> bool \<Rightarrow> admission_state
     \<Rightarrow> (admission_state \<times> bool \<times> acquire_outcome) option" where
  "acquire_pass l ticket queued key late s =
     (if st_closed s then Some (s, queued, Refused Closed)
      else if eligible l s key \<and>
              (if queued then eligible_ticket l s = Some ticket else eligible_ticket l s = None)
      then
        (if queued then
           (if late then Some (s, queued, Refused AdmissionTimeout)
            else case (queue_remove ticket (st_queue s), st_keys s key) of
              (Some (_, q), Some c) \<Rightarrow>
                (case checked_sub (c_queued c) 1 of
                   None \<Rightarrow> None
                 | Some n \<Rightarrow>
                     Some (grant key (s\<lparr>st_queue := q, st_keys := (st_keys s)(key \<mapsto> c\<lparr>c_queued := n\<rparr>)\<rparr>),
                           False, Granted))
            | _ \<Rightarrow> None)
         else Some (grant key s, False, Granted))
      else if \<not> queued then
        (if lim_queue l \<le> length (st_queue s) \<or> lim_queue_per_key l \<le> c_queued (key_counts (st_keys s) key)
         then Some (s, queued, Refused Full)
         else Some (s\<lparr>st_queue := st_queue s @ [(ticket, key)],
                      st_keys := (st_keys s)(key \<mapsto> (key_counts (st_keys s) key)
                        \<lparr>c_queued := c_queued (key_counts (st_keys s) key) + 1\<rparr>)\<rparr>, True, Wait))
      else Some (s, queued, Wait))"

text \<open>
  A pass followed by the destructor of the ticket when the call returns: a refused call
  leaves the queue, a granted one has left it already, a waiting one stays.
\<close>

definition acquire_step ::
  "admission_limits \<Rightarrow> uuid \<Rightarrow> bool \<Rightarrow> uuid \<Rightarrow> bool \<Rightarrow> admission_state
     \<Rightarrow> (admission_state \<times> acquire_outcome) option" where
  "acquire_step l ticket queued key late s =
     (case acquire_pass l ticket queued key late s of
        None \<Rightarrow> None
      | Some (s', queued', out) \<Rightarrow>
          (case out of
             Wait \<Rightarrow> Some (s', Wait)
           | _ \<Rightarrow> map_option (\<lambda>s''. (s'', out)) (ticket_drop ticket queued' s')))"

definition close :: "admission_state \<Rightarrow> admission_state" where
  "close s = s\<lparr>st_closed := True\<rparr>"

record admission_status =
  stat_active :: nat
  stat_queued :: nat
  stat_keys :: nat

definition status :: "admission_state \<Rightarrow> admission_status" where
  "status s = \<lparr>stat_active = st_active s, stat_queued = length (st_queue s),
               stat_keys = card (dom (st_keys s))\<rparr>"

definition active_for :: "admission_state \<Rightarrow> uuid \<Rightarrow> nat" where
  "active_for s key = (case st_keys s key of None \<Rightarrow> 0 | Some c \<Rightarrow> c_active c)"

section \<open>Invariant\<close>

definition queued_in :: "(uuid \<times> uuid) list \<Rightarrow> uuid \<Rightarrow> nat" where
  "queued_in q key = length (filter (\<lambda>(t, k). k = key) q)"

text \<open>
  The key map against the multiset of keys of the permits that are alive and the queue:
  every counter is exact (\<open>keys_exact\<close>) and no key is kept without a call (\<open>keys_tight\<close>).
\<close>

definition keys_exact :: "uuid multiset \<Rightarrow> (uuid \<times> uuid) list \<Rightarrow> (uuid \<rightharpoonup> counts) \<Rightarrow> bool" where
  "keys_exact leases q m \<longleftrightarrow>
     (\<forall>k. c_active (key_counts m k) = count leases k \<and> c_queued (key_counts m k) = queued_in q k)"

definition keys_tight :: "(uuid \<rightharpoonup> counts) \<Rightarrow> bool" where
  "keys_tight m \<longleftrightarrow> (\<forall>k c. m k = Some c \<longrightarrow> 0 < c_active c + c_queued c)"

definition within_bounds :: "admission_limits \<Rightarrow> uuid multiset \<Rightarrow> (uuid \<times> uuid) list \<Rightarrow> bool" where
  "within_bounds l leases q \<longleftrightarrow>
     size leases \<le> lim_total l \<and> length q \<le> lim_queue l \<and>
     (\<forall>k. count leases k \<le> lim_per_key l \<and> queued_in q k \<le> lim_queue_per_key l)"

definition adm_inv :: "admission_limits \<Rightarrow> uuid multiset \<Rightarrow> admission_state \<Rightarrow> bool" where
  "adm_inv l leases s \<longleftrightarrow>
     0 < lim_per_key l \<and> st_active s = size leases \<and> distinct (map fst (st_queue s)) \<and>
     within_bounds l leases (st_queue s) \<and>
     keys_exact leases (st_queue s) (st_keys s) \<and> keys_tight (st_keys s)"

lemma key_counts_upd [simp]:
  "key_counts (m(k \<mapsto> c)) k' = (if k' = k then c else key_counts m k')"
  by (simp add: key_counts_def)

lemma key_counts_trim [simp]:
  "key_counts (trim_key k c m) k' = (if k' = k then c else key_counts m k')"
  by (cases c) (auto simp: key_counts_def trim_key_def counts_default_def)

lemma key_counts_Some: "m k = Some c \<Longrightarrow> key_counts m k = c"
  by (simp add: key_counts_def)

lemma key_counts_pos:
  "0 < c_active (key_counts m k) + c_queued (key_counts m k) \<Longrightarrow> m k = Some (key_counts m k)"
  by (auto simp: key_counts_def counts_default_def split: option.splits)

lemma keys_tight_trim: "keys_tight m \<Longrightarrow> keys_tight (trim_key k c m)"
  by (auto simp: keys_tight_def trim_key_def)

lemma keys_tight_upd: "keys_tight m \<Longrightarrow> 0 < c_active c + c_queued c \<Longrightarrow> keys_tight (m(k \<mapsto> c))"
  by (auto simp: keys_tight_def)

lemma queued_in_append [simp]: "queued_in (q @ [(t, k)]) k' = queued_in q k' + (if k' = k then 1 else 0)"
  by (simp add: queued_in_def)

lemma queued_in_remove1:
  "(t, k) \<in> set q \<Longrightarrow> queued_in (remove1 (t, k) q) k' = queued_in q k' - (if k' = k then 1 else 0)"
  by (simp add: queued_in_def length_filter_remove1)

lemma queued_in_pos: "(t, k) \<in> set q \<Longrightarrow> 0 < queued_in q k"
  by (auto simp: queued_in_def filter_empty_conv)

lemma queue_remove_mem:
  assumes "distinct (map fst q)" "(t, k) \<in> set q"
  shows "queue_remove t q = Some ((t, k), remove1 (t, k) q)"
proof -
  have "find (\<lambda>(t', k'). t' = t) q \<noteq> None"
    using assms(2) by (auto simp: find_None_iff)
  then obtain x where x: "find (\<lambda>(t', k'). t' = t) q = Some x" by blast
  then have "x \<in> set q" "fst x = t" by (auto dest!: find_Some_mem simp: case_prod_beta)
  then have "x = (t, k)" using assms by (metis eq_key_imp_eq_value prod.collapse)
  with x show ?thesis by (simp add: queue_remove_def)
qed

lemma queue_remove_fresh: "t \<notin> fst ` set q \<Longrightarrow> queue_remove t q = None"
  by (auto simp: queue_remove_def find_None_iff image_iff split: option.split)
    (metis (mono_tags, lifting) case_prodE find_Some_mem fst_conv)

lemma distinct_map_remove1: "distinct (map f q) \<Longrightarrow> distinct (map f (remove1 x q))"
  by (induction q) (auto dest!: set_mp [OF set_remove1_subset])

lemma within_bounds_dequeue:
  "within_bounds l leases q \<Longrightarrow> (t, k) \<in> set q \<Longrightarrow> within_bounds l leases (remove1 (t, k) q)"
  by (auto simp: within_bounds_def queued_in_remove1 length_remove1 intro: le_trans [OF diff_le_self])

lemma eligible_bounds:
  assumes "adm_inv l leases s" "eligible l s key"
  shows "within_bounds l (add_mset key leases) (st_queue s)"
proof -
  have "count leases key = c_active (key_counts (st_keys s) key)"
    using assms(1) by (simp add: adm_inv_def keys_exact_def)
  then have "count leases key < lim_per_key l"
    using assms by (auto simp: adm_inv_def eligible_def key_counts_def counts_default_def
        split: option.splits)
  with assms show ?thesis by (auto simp: adm_inv_def within_bounds_def eligible_def)
qed

section \<open>The critical sections keep the invariant and do not panic\<close>

lemma grant_inv:
  assumes "adm_inv l leases s" "eligible l s key"
  shows "adm_inv l (add_mset key leases) (grant key s)"
  using assms eligible_bounds [OF assms]
  by (auto simp: adm_inv_def grant_def Let_def keys_exact_def keys_tight_upd)

lemma lease_drop_correct:
  assumes inv: "adm_inv l leases s" and key: "key \<in># leases"
  shows "\<exists>s'. lease_drop key s = Some s' \<and> adm_inv l (leases - {#key#}) s'"
proof -
  let ?c = "key_counts (st_keys s) key"
  have a: "c_active ?c = count leases key" using inv by (simp add: adm_inv_def keys_exact_def)
  then have k: "st_keys s key = Some ?c" using key by (intro key_counts_pos) simp
  have pos: "0 < count leases key" "0 < size leases" using key by (auto simp: nonempty_has_size [symmetric])
  define s' where "s' = s\<lparr>st_active := st_active s - 1,
      st_keys := trim_key key (?c\<lparr>c_active := c_active ?c - 1\<rparr>) (st_keys s)\<rparr>"
  have "lease_drop key s = Some s'"
    using inv k a pos by (auto simp: lease_drop_def checked_sub_def s'_def adm_inv_def)
  moreover have "adm_inv l (leases - {#key#}) s'"
    using inv key by (auto simp: adm_inv_def s'_def keys_exact_def keys_tight_trim within_bounds_def
        size_Diff_singleton intro: le_trans [OF diff_le_self])
  ultimately show ?thesis by blast
qed

lemma ticket_drop_correct:
  assumes inv: "adm_inv l leases s" and mem: "(t, key) \<in> set (st_queue s)"
  shows "\<exists>s'. ticket_drop t True s = Some s' \<and> adm_inv l leases s'
           \<and> st_queue s' = remove1 (t, key) (st_queue s)"
proof -
  let ?c = "key_counts (st_keys s) key" and ?q = "remove1 (t, key) (st_queue s)"
  have a: "c_queued ?c = queued_in (st_queue s) key" using inv by (simp add: adm_inv_def keys_exact_def)
  have pos: "0 < queued_in (st_queue s) key" using mem by (rule queued_in_pos)
  with a have k: "st_keys s key = Some ?c" by (intro key_counts_pos) simp
  define s' where "s' = s\<lparr>st_queue := ?q,
      st_keys := trim_key key (?c\<lparr>c_queued := c_queued ?c - 1\<rparr>) (st_keys s)\<rparr>"
  have "ticket_drop t True s = Some s'"
    using inv mem k a pos by (simp add: ticket_drop_def queue_remove_mem adm_inv_def checked_sub_def s'_def)
  moreover have "adm_inv l leases s'"
    using inv mem by (auto simp: adm_inv_def s'_def keys_exact_def keys_tight_trim queued_in_remove1
        within_bounds_dequeue distinct_map_remove1)
  ultimately show ?thesis by (auto simp: s'_def)
qed

lemma enqueue_inv:
  assumes "adm_inv l leases s" "t \<notin> fst ` set (st_queue s)"
    and "length (st_queue s) < lim_queue l"
    and "c_queued (key_counts (st_keys s) key) < lim_queue_per_key l"
  shows "adm_inv l leases (s\<lparr>st_queue := st_queue s @ [(t, key)],
           st_keys := (st_keys s)(key \<mapsto> (key_counts (st_keys s) key)
             \<lparr>c_queued := c_queued (key_counts (st_keys s) key) + 1\<rparr>)\<rparr>)"
  using assms by (auto simp: adm_inv_def keys_exact_def keys_tight_upd within_bounds_def)

lemma dequeue_grant_inv:
  assumes inv: "adm_inv l leases s" and mem: "(t, key) \<in> set (st_queue s)" and el: "eligible l s key"
  shows "adm_inv l (add_mset key leases)
     (grant key (s\<lparr>st_queue := remove1 (t, key) (st_queue s),
        st_keys := (st_keys s)(key \<mapsto> (key_counts (st_keys s) key)
          \<lparr>c_queued := c_queued (key_counts (st_keys s) key) - 1\<rparr>)\<rparr>))"
  using inv mem within_bounds_dequeue [OF eligible_bounds [OF inv el] mem]
  by (auto simp: adm_inv_def grant_def Let_def keys_exact_def keys_tight_upd queued_in_remove1
      distinct_map_remove1)

text \<open>A pass of \<open>acquire\<close> and its ticket destructor, for a new caller and for a waiting one.\<close>

definition leases_after :: "uuid \<Rightarrow> acquire_outcome \<Rightarrow> uuid multiset \<Rightarrow> uuid multiset" where
  "leases_after key out leases = (if out = Granted then add_mset key leases else leases)"

lemma acquire_new_correct:
  assumes inv: "adm_inv l leases s" and fresh: "t \<notin> fst ` set (st_queue s)"
  shows "\<exists>s' out. acquire_step l t False key late s = Some (s', out)
           \<and> adm_inv l (leases_after key out leases) s'"
  using inv grant_inv [OF inv] enqueue_inv [OF inv fresh]
  by (auto simp: acquire_step_def acquire_pass_def ticket_drop_def leases_after_def not_le)

lemma acquire_waiting_correct:
  assumes inv: "adm_inv l leases s" and mem: "(t, key) \<in> set (st_queue s)"
  shows "\<exists>s' out. acquire_step l t True key late s = Some (s', out)
           \<and> adm_inv l (leases_after key out leases) s'"
proof -
  let ?c = "key_counts (st_keys s) key"
  have q: "c_queued ?c = queued_in (st_queue s) key" using inv by (simp add: adm_inv_def keys_exact_def)
  have pos: "0 < c_queued ?c" using q queued_in_pos [OF mem] by simp
  then have k: "st_keys s key = Some ?c" by (intro key_counts_pos) simp
  have rm: "queue_remove t (st_queue s) = Some ((t, key), remove1 (t, key) (st_queue s))"
    using inv mem by (simp add: adm_inv_def queue_remove_mem)
  show ?thesis
    using inv pos k rm ticket_drop_correct [OF inv mem] dequeue_grant_inv [OF inv mem]
    by (auto simp: acquire_step_def acquire_pass_def checked_sub_def leases_after_def ticket_drop_def
        split: option.splits)
qed

section \<open>The interleaving of callers\<close>

text \<open>
  One step is one critical section of one caller: a new call, a waiting call that is woken, a
  waiting call that is cancelled or times out outside the lock, a permit that is dropped,
  or \<open>close\<close>. New tickets are fresh (\<open>Uuid::new_v4\<close>).
\<close>

inductive adm_step ::
  "admission_limits \<Rightarrow> admission_state \<times> uuid multiset \<Rightarrow> admission_state \<times> uuid multiset \<Rightarrow> bool"
  for l where
  arrive: "t \<notin> fst ` set (st_queue s) \<Longrightarrow> acquire_step l t False key late s = Some (s', out) \<Longrightarrow>
    adm_step l (s, leases) (s', leases_after key out leases)"
| woken: "(t, key) \<in> set (st_queue s) \<Longrightarrow> acquire_step l t True key late s = Some (s', out) \<Longrightarrow>
    adm_step l (s, leases) (s', leases_after key out leases)"
| cancel: "(t, key) \<in> set (st_queue s) \<Longrightarrow> ticket_drop t True s = Some s' \<Longrightarrow>
    adm_step l (s, leases) (s', leases)"
| drop: "key \<in># leases \<Longrightarrow> lease_drop key s = Some s' \<Longrightarrow>
    adm_step l (s, leases) (s', leases - {#key#})"
| shut: "adm_step l (s, leases) (close s, leases)"

inductive adm_reach :: "admission_limits \<Rightarrow> admission_state \<Rightarrow> uuid multiset \<Rightarrow> bool" for l where
  start: "admission_new l = Inr s \<Longrightarrow> adm_reach l s {#}"
| step: "adm_reach l s leases \<Longrightarrow> adm_step l (s, leases) (s', leases') \<Longrightarrow> adm_reach l s' leases'"

lemma adm_step_inv:
  assumes "adm_step l (s, leases) (s', leases')" "adm_inv l leases s"
  shows "adm_inv l leases' s'"
  using assms
proof (cases rule: adm_step.cases)
  case (arrive t key late out)
  then show ?thesis using acquire_new_correct [OF assms(2), of t key late] by auto
next
  case (woken t key late out)
  then show ?thesis using acquire_waiting_correct [OF assms(2), of t key late] by auto
next
  case (cancel t key)
  then show ?thesis using ticket_drop_correct [OF assms(2), of t key] by auto
next
  case (drop key)
  then show ?thesis using lease_drop_correct [OF assms(2), of key] by auto
next
  case shut
  then show ?thesis using assms(2) by (simp add: adm_inv_def close_def)
qed

lemma adm_new_inv: "admission_new l = Inr s \<Longrightarrow> adm_inv l {#} s"
  by (auto simp: admission_new_def adm_inv_def state_default_def within_bounds_def queued_in_def
      keys_exact_def keys_tight_def key_counts_def counts_default_def split: if_splits)

lemma adm_reach_inv: "adm_reach l s leases \<Longrightarrow> adm_inv l leases s"
  by (induction rule: adm_reach.induct) (auto intro: adm_new_inv adm_step_inv)

lemma adm_keys_dom:
  assumes "adm_inv l leases s"
  shows "dom (st_keys s) = set_mset leases \<union> snd ` set (st_queue s)"
proof (intro set_eqI iffI)
  fix k assume "k \<in> dom (st_keys s)"
  then obtain c where "st_keys s k = Some c" by blast
  with assms have "0 < count leases k + queued_in (st_queue s) k"
    by (metis adm_inv_def keys_exact_def keys_tight_def key_counts_Some)
  then show "k \<in> set_mset leases \<union> snd ` set (st_queue s)"
    by (force simp: queued_in_def filter_empty_conv count_greater_zero_iff)
next
  fix k assume "k \<in> set_mset leases \<union> snd ` set (st_queue s)"
  then have "0 < count leases k + queued_in (st_queue s) k"
    by (auto simp: queued_in_def filter_empty_conv)
  with assms have "st_keys s k = Some (key_counts (st_keys s) k)"
    by (intro key_counts_pos) (simp add: adm_inv_def keys_exact_def)
  then show "k \<in> dom (st_keys s)" by blast
qed

section \<open>Properties\<close>

lemma active_for_key_counts: "active_for s k = c_active (key_counts (st_keys s) k)"
  by (simp add: active_for_def key_counts_def counts_default_def split: option.split)

lemma card_set_mset_le: "card (set_mset M) \<le> size M"
proof (induction M)
  case (add x M)
  then show ?case by (simp add: card_insert_if le_SucI)
qed simp

text \<open>
  C7: in every reachable state of the admission gate the number of live permits equals the active
  counter and respects the total bound, each key respects its own bound, the queue is
  bounded globally and per key, and the key map holds no more entries than permits and
  waiting calls, so that every piece of shared state is bounded by the limits.
\<close>

theorem admission_bounds:
  assumes "adm_reach l s leases"
  shows "st_active s = size leases \<and> size leases \<le> lim_total l
     \<and> (\<forall>k. active_for s k = count leases k \<and> count leases k \<le> lim_per_key l)
     \<and> length (st_queue s) \<le> lim_queue l
     \<and> (\<forall>k. queued_in (st_queue s) k \<le> lim_queue_per_key l)
     \<and> card (dom (st_keys s)) \<le> lim_total l + lim_queue l"
proof -
  have inv: "adm_inv l leases s" using assms by (rule adm_reach_inv)
  have "card (dom (st_keys s)) \<le> card (set_mset leases) + card (snd ` set (st_queue s))"
    unfolding adm_keys_dom [OF inv] by (rule card_Un_le)
  also have "\<dots> \<le> size leases + length (st_queue s)"
    by (intro add_mono card_set_mset_le le_trans [OF card_image_le card_length]) simp
  finally have "card (dom (st_keys s)) \<le> lim_total l + lim_queue l"
    using inv by (auto simp: adm_inv_def within_bounds_def)
  moreover have "active_for s k = count leases k" for k
    using inv by (simp add: adm_inv_def keys_exact_def active_for_key_counts)
  ultimately show ?thesis using inv by (simp add: adm_inv_def within_bounds_def)
qed

definition example_limits :: admission_limits where
  "example_limits = \<lparr>lim_total = 2, lim_per_key = 1, lim_queue = 3, lim_queue_per_key = 2, lim_wait = 100\<rparr>"

lemma example_new: "admission_new example_limits = Inr state_default"
  by (simp add: admission_new_def example_limits_def)

text \<open>A permit for key 7 has been granted.\<close>

lemma example_granted:
  "acquire_step example_limits 1 False 7 False state_default = Some (grant 7 state_default, Granted)"
  by (simp add: acquire_step_def acquire_pass_def state_default_def eligible_def eligible_ticket_def
      example_limits_def ticket_drop_def)

lemma example_reach: "adm_reach example_limits (grant 7 state_default) {#7#}"
proof -
  have "adm_step example_limits (state_default, {#}) (grant 7 state_default, leases_after 7 Granted {#})"
    by (rule adm_step.arrive [OF _ example_granted]) (simp add: state_default_def)
  then show ?thesis
    using adm_reach.step [OF adm_reach.start [OF example_new]] by (simp add: leases_after_def)
qed

theorem admission_bounds_witness:
  "st_active (grant 7 state_default) = size {#7 :: uuid#} \<and> active_for (grant 7 state_default) 7 = 1"
  using admission_bounds [OF example_reach] by simp

text \<open>
  C19: no critical section panics: in every reachable state dropping a live permit, dropping a
  queued ticket, and a pass of \<open>acquire\<close> by a new or a waiting caller all return (no
  counter is decremented below zero, no key the source expects is missing).
\<close>

theorem admission_no_panic:
  assumes "adm_reach l s leases"
  shows "(key \<in># leases \<longrightarrow> lease_drop key s \<noteq> None)
     \<and> ((t, key) \<in> set (st_queue s) \<longrightarrow> ticket_drop t True s \<noteq> None \<and> acquire_step l t True key late s \<noteq> None)
     \<and> (t \<notin> fst ` set (st_queue s) \<longrightarrow> acquire_step l t False key late s \<noteq> None)"
proof -
  have inv: "adm_inv l leases s" using assms by (rule adm_reach_inv)
  show ?thesis
    using lease_drop_correct [OF inv] ticket_drop_correct [OF inv, of t key]
      acquire_waiting_correct [OF inv, of t key late] acquire_new_correct [OF inv, of t key late]
    by auto
qed

theorem admission_no_panic_witness: "lease_drop 7 (grant 7 state_default) \<noteq> None"
  using admission_no_panic [OF example_reach, of 7 0 False] by simp

text \<open>
  C20: permits are granted fairly: a waiting caller that is granted a permit was the first eligible
  ticket in the queue, and a new caller is granted one only when no queued ticket is
  eligible, so new calls never overtake an eligible waiting one.
\<close>

theorem admission_grant_fair:
  assumes "acquire_pass l t queued key late s = Some (s', queued', Granted)"
  shows "\<not> st_closed s \<and> eligible l s key
     \<and> (if queued
        then \<exists>p k q. st_queue s = p @ (t, k) # q \<and> (\<forall>x \<in> set p. \<not> eligible l s (snd x))
        else \<forall>x \<in> set (st_queue s). \<not> eligible l s (snd x))"
proof -
  have open_el: "\<not> st_closed s" "eligible l s key"
    using assms by (auto simp: acquire_pass_def split: if_splits)
  show ?thesis
  proof (cases queued)
    case True
    then have "eligible_ticket l s = Some t"
      using assms by (auto simp: acquire_pass_def split: if_splits)
    then obtain k where "find (\<lambda>(ticket, scope). eligible l s scope) (st_queue s) = Some (t, k)"
      by (auto simp: eligible_ticket_def)
    then obtain i where "i < length (st_queue s)" "st_queue s ! i = (t, k)"
      and before: "\<forall>j<i. \<not> (case st_queue s ! j of (ticket, scope) \<Rightarrow> eligible l s scope)"
      by (auto simp: find_Some_iff)
    then have "st_queue s = take i (st_queue s) @ (t, k) # drop (Suc i) (st_queue s)"
      by (metis id_take_nth_drop)
    moreover have "\<forall>x \<in> set (take i (st_queue s)). \<not> eligible l s (snd x)"
      using before by (force simp: in_set_conv_nth case_prod_beta)
    ultimately show ?thesis using True open_el by auto
  next
    case False
    then have "eligible_ticket l s = None"
      using assms by (auto simp: acquire_pass_def split: if_splits)
    then show ?thesis using False open_el by (auto simp: eligible_ticket_def find_None_iff)
  qed
qed

text \<open>Key 7 has its one permit and a waiting call, and a call of key 8 waits behind it.\<close>

definition example_contended :: admission_state where
  "example_contended =
     \<lparr>st_closed = False, st_active = 1,
      st_keys = [7 \<mapsto> \<lparr>c_active = 1, c_queued = 1\<rparr>, 8 \<mapsto> \<lparr>c_active = 0, c_queued = 1\<rparr>], st_queue = [(1, 7), (2, 8)]\<rparr>"

theorem admission_grant_fair_witness:
  "eligible example_limits example_contended 8
     \<and> (\<exists>p k q. st_queue example_contended = p @ (2, k) # q
          \<and> (\<forall>x \<in> set p. \<not> eligible example_limits example_contended (snd x)))"
proof -
  have "\<exists>s'. acquire_pass example_limits 2 True 8 False example_contended = Some (s', False, Granted)"
    by (simp add: acquire_pass_def example_contended_def eligible_def eligible_ticket_def example_limits_def
        queue_remove_def checked_sub_def)
  then obtain s' where "acquire_pass example_limits 2 True 8 False example_contended = Some (s', False, Granted)" ..
  from admission_grant_fair [OF this] show ?thesis by simp
qed

text \<open>
  C21: waiting calls make progress: while the gate is open and some queued ticket is eligible, the
  pass of the first eligible ticket, made before its deadline, is granted.
\<close>

theorem admission_progress:
  assumes reach: "adm_reach l s leases" and "\<not> st_closed s"
    and "(t', k') \<in> set (st_queue s)" "eligible l s k'"
  shows "\<exists>t key. (t, key) \<in> set (st_queue s) \<and> (\<exists>s'. acquire_step l t True key False s = Some (s', Granted))"
proof -
  have inv: "adm_inv l leases s" using reach by (rule adm_reach_inv)
  have "find (\<lambda>(ticket, scope). eligible l s scope) (st_queue s) \<noteq> None"
    using assms(3,4) by (auto simp: find_None_iff)
  then obtain t key where f: "find (\<lambda>(ticket, scope). eligible l s scope) (st_queue s) = Some (t, key)"
    by auto
  then have mem: "(t, key) \<in> set (st_queue s)" and el: "eligible l s key"
    by (auto dest: find_Some_mem)
  obtain s' out where step: "acquire_step l t True key False s = Some (s', out)"
    using acquire_waiting_correct [OF inv mem, of False] by blast
  moreover have "out = Granted"
    using step f el assms(2)
    by (auto simp: acquire_step_def acquire_pass_def eligible_ticket_def ticket_drop_def
        split: option.splits if_splits prod.splits)
  ultimately show ?thesis using mem by blast
qed

text \<open>A second call for key 7 waits behind the first; the first permit is then dropped.\<close>

definition example_waiting :: admission_state where
  "example_waiting = \<lparr>st_closed = False, st_active = 1,
     st_keys = [7 \<mapsto> \<lparr>c_active = 1, c_queued = 1\<rparr>], st_queue = [(2, 7)]\<rparr>"

definition example_free :: admission_state where
  "example_free = \<lparr>st_closed = False, st_active = 0,
     st_keys = [7 \<mapsto> \<lparr>c_active = 0, c_queued = 1\<rparr>], st_queue = [(2, 7)]\<rparr>"

lemma example_free_reach: "adm_reach example_limits example_free {#}"
proof -
  have "acquire_step example_limits 2 False 7 False (grant 7 state_default) = Some (example_waiting, Wait)"
    by (simp add: acquire_step_def acquire_pass_def grant_def key_counts_def counts_default_def
        state_default_def eligible_def eligible_ticket_def example_limits_def example_waiting_def)
  then have "adm_reach example_limits example_waiting (leases_after 7 Wait {#7#})"
    using adm_reach.step [OF example_reach adm_step.arrive]
    by (simp add: grant_def Let_def state_default_def)
  then have "adm_reach example_limits example_waiting {#7#}" by (simp add: leases_after_def)
  moreover have "lease_drop 7 example_waiting = Some example_free"
    by (simp add: lease_drop_def example_waiting_def example_free_def checked_sub_def trim_key_def)
  ultimately show ?thesis using adm_reach.step [OF _ adm_step.drop] by fastforce
qed

theorem admission_progress_witness:
  "\<exists>t key. (t, key) \<in> set (st_queue example_free)
     \<and> (\<exists>s'. acquire_step example_limits t True key False example_free = Some (s', Granted))"
  by (rule admission_progress [OF example_free_reach, of 2 7])
    (simp_all add: example_free_def eligible_def example_limits_def)

end
