(* ===== verification/Account_Table.thy ===== *)
theory Account_Table
  imports Errors "HOL-Library.Signed_Division" "HOL-Library.Product_Lexorder"
begin

text \<open>
  The \<open>accounts\<close> table of the writer database (\<open>crates/keycompute-db/src/models/account.rs\<close> and
  \<open>upstream_access.rs\<close>): rows, and the statements the account model runs on them, as
  functions on the list of rows. \<open>INTEGER\<close> and \<open>BIGINT\<close> expressions that leave their range make a
  statement fail, as PostgreSQL does; timestamps are nanoseconds since the epoch, of which the
  database keeps whole microseconds.
\<close>

definition microsecond :: int where "microsecond = 1000"

datatype db_error = Db_Out_Of_Range | Db_Check_Violation | Db_Other string

record account =
  acc_id :: uuid
  acc_tenant_id :: "uuid option"
  acc_provider :: string
  acc_name :: string
  acc_endpoint :: string
  acc_upstream_api_key_encrypted :: string
  acc_upstream_api_key_preview :: string
  acc_rpm_limit :: int
  acc_tpm_limit :: int
  acc_priority :: int
  acc_enabled :: bool
  acc_pool_enabled :: bool
  acc_models_supported :: "string list"
  acc_api_capabilities :: "string list"
  acc_visibility :: string
  acc_health_status :: string
  acc_health_reason :: "string option"
  acc_health_penalty :: int
  acc_health_consecutive_failures :: int
  acc_health_success_count :: int
  acc_health_failure_count :: int
  acc_health_avg_latency_ms :: "int option"
  acc_health_last_success_at :: "datetime option"
  acc_health_last_failure_at :: "datetime option"
  acc_health_updated_at :: datetime
  acc_health_generation :: int
  acc_last_probe_at :: "datetime option"
  acc_last_probe_latency_ms :: "int option"
  acc_last_probe_status :: "string option"
  acc_last_probe_error_code :: "string option"
  acc_created_at :: datetime
  acc_updated_at :: datetime
  acc_upstream_config_version :: datetime


record create_account_request =
  car_tenant_id :: "uuid option"
  car_provider :: string
  car_name :: string
  car_endpoint :: string
  car_upstream_api_key_encrypted :: string
  car_upstream_api_key_preview :: string
  car_rpm_limit :: "int option"
  car_tpm_limit :: "int option"
  car_priority :: "int option"
  car_models_supported :: "string list"
  car_api_capabilities :: "string list"
  car_pool_enabled :: "bool option"

record update_account_request =
  uar_name :: "string option"
  uar_endpoint :: "string option"
  uar_upstream_api_key_encrypted :: "string option"
  uar_upstream_api_key_preview :: "string option"
  uar_rpm_limit :: "int option"
  uar_tpm_limit :: "int option"
  uar_priority :: "int option"
  uar_enabled :: "bool option"
  uar_models_supported :: "string list option"
  uar_api_capabilities :: "string list option"
  uar_pool_enabled :: "bool option"

type_synonym 'a db_result = "db_error + 'a"

section \<open>SQL expressions and statements\<close>

definition int4 :: "int \<Rightarrow> bool" where "int4 n \<longleftrightarrow> - (2 ^ 31) \<le> n \<and> n < 2 ^ 31"

definition int8 :: "int \<Rightarrow> bool" where "int8 n \<longleftrightarrow> - (2 ^ 63) \<le> n \<and> n < 2 ^ 63"

definition coalesce :: "'a option \<Rightarrow> 'a \<Rightarrow> 'a" where
  "coalesce x d = (case x of None \<Rightarrow> d | Some v \<Rightarrow> v)"

text \<open>The \<open>CHECK\<close> constraints of the table (\<open>migrations/001_init.sql\<close>).\<close>

definition account_checks :: "account \<Rightarrow> bool" where
  "account_checks a \<longleftrightarrow>
     acc_api_capabilities a \<noteq> []
     \<and> (acc_provider a = ''openai'' \<and> set (acc_api_capabilities a) \<subseteq> set [''chat_completions'', ''responses'']
        \<or> acc_provider a = ''anthropic'' \<and> set (acc_api_capabilities a) \<subseteq> set [''messages''])
     \<and> (acc_tenant_id a = None \<and> acc_visibility a = ''global''
        \<or> acc_tenant_id a \<noteq> None \<and> acc_visibility a = ''tenant'')
     \<and> (acc_last_probe_status a = None
        \<or> acc_last_probe_status a = Some ''succeeded'' \<or> acc_last_probe_status a = Some ''failed'')
     \<and> 0 \<le> acc_priority a \<and> acc_priority a \<le> 10
     \<and> acc_health_status a \<in> set [''unknown'', ''healthy'', ''degraded'', ''unhealthy'']
     \<and> 0 \<le> acc_health_penalty a \<and> acc_health_penalty a \<le> 100
     \<and> 0 \<le> acc_health_consecutive_failures a \<and> 0 \<le> acc_health_success_count a
     \<and> 0 \<le> acc_health_failure_count a"

definition checked_row :: "account \<Rightarrow> account db_result" where
  "checked_row a = (if account_checks a then Inr a else Inl Db_Check_Violation)"

text \<open>\<open>UPDATE ... SET f WHERE w RETURNING *\<close>: the new table and the updated rows.\<close>

fun sql_update ::
  "(account \<Rightarrow> bool) \<Rightarrow> (account \<Rightarrow> account db_result) \<Rightarrow> account list
     \<Rightarrow> (account list \<times> account list) db_result" where
  "sql_update w f [] = Inr ([], [])"
| "sql_update w f (a # t) =
     (case sql_update w f t of
        Inl e \<Rightarrow> Inl e
      | Inr (t', rs) \<Rightarrow>
          if w a then (case f a of Inl e \<Rightarrow> Inl e | Inr a' \<Rightarrow> Inr (a' # t', a' # rs))
          else Inr (a # t', rs))"

text \<open>\<open>rows_affected() == 1\<close>\<close>

definition one_row :: "(account list \<times> account list) db_result \<Rightarrow> (account list \<times> bool) db_result" where
  "one_row r = (case r of Inl e \<Rightarrow> Inl e | Inr (t, rs) \<Rightarrow> Inr (t, length rs = 1))"

section \<open>Validation, creation and lookup\<close>

definition account_priority_min :: int where "account_priority_min = 0"

definition account_priority_max :: int where "account_priority_max = 10"

definition account_rate_limit_min :: int where "account_rate_limit_min = 1"

definition validate_priority :: "int option \<Rightarrow> unit db_result" where
  "validate_priority priority =
     (case priority of
        Some p \<Rightarrow>
          if \<not> (account_priority_min \<le> p \<and> p \<le> account_priority_max)
          then Inl (Db_Other ''account priority must be between 0 and 10'') else Inr ()
      | None \<Rightarrow> Inr ())"

definition validate_rate_limits :: "int option \<Rightarrow> int option \<Rightarrow> unit db_result" where
  "validate_rate_limits rpm tpm =
     (if case rpm of Some r \<Rightarrow> r < account_rate_limit_min | None \<Rightarrow> False
      then Inl (Db_Other ''account rpm limit must be at least 1'')
      else if case tpm of Some r \<Rightarrow> r < account_rate_limit_min | None \<Rightarrow> False
      then Inl (Db_Other ''account tpm limit must be at least 1'')
      else Inr ())"

text \<open>
  \<open>new_id\<close> and \<open>now\<close> are the defaults \<open>gen_random_uuid()\<close> and \<open>NOW()\<close> of the columns the
  statement leaves out.
\<close>

definition account_create ::
  "uuid \<Rightarrow> datetime \<Rightarrow> create_account_request \<Rightarrow> account list \<Rightarrow> (account list \<times> account) db_result" where
  "account_create new_id now req t =
     (case validate_priority (car_priority req) of
        Inl e \<Rightarrow> Inl e
      | Inr () \<Rightarrow>
     (case validate_rate_limits (car_rpm_limit req) (car_tpm_limit req) of
        Inl e \<Rightarrow> Inl e
      | Inr () \<Rightarrow>
          (let a = \<lparr>acc_id = new_id, acc_tenant_id = car_tenant_id req, acc_provider = car_provider req,
               acc_name = car_name req, acc_endpoint = car_endpoint req,
               acc_upstream_api_key_encrypted = car_upstream_api_key_encrypted req,
               acc_upstream_api_key_preview = car_upstream_api_key_preview req,
               acc_rpm_limit = coalesce (car_rpm_limit req) 60,
               acc_tpm_limit = coalesce (car_tpm_limit req) 100000,
               acc_priority = coalesce (car_priority req) 0,
               acc_enabled = True, acc_pool_enabled = coalesce (car_pool_enabled req) True,
               acc_models_supported = car_models_supported req,
               acc_api_capabilities = car_api_capabilities req,
               acc_visibility = (if car_tenant_id req \<noteq> None then ''tenant'' else ''global''),
               acc_health_status = ''unknown'', acc_health_reason = None, acc_health_penalty = 0,
               acc_health_consecutive_failures = 0, acc_health_success_count = 0,
               acc_health_failure_count = 0, acc_health_avg_latency_ms = None,
               acc_health_last_success_at = None, acc_health_last_failure_at = None,
               acc_health_updated_at = now, acc_health_generation = 0, acc_last_probe_at = None,
               acc_last_probe_latency_ms = None, acc_last_probe_status = None,
               acc_last_probe_error_code = None, acc_created_at = now, acc_updated_at = now,
               acc_upstream_config_version = now\<rparr>
           in case checked_row a of Inl e \<Rightarrow> Inl e | Inr a' \<Rightarrow> Inr (a' # t, a'))))"

definition account_find_by_id :: "uuid \<Rightarrow> account list \<Rightarrow> account option" where
  "account_find_by_id i t = find (\<lambda>a. acc_id a = i) t"

text \<open>\<open>find_by_id_for_key_share_any_tenant\<close>; its row lock does not change the row it returns.\<close>

definition find_by_id_for_key_share_any_tenant :: "uuid \<Rightarrow> account list \<Rightarrow> account option" where
  "find_by_id_for_key_share_any_tenant i t = find (\<lambda>a. acc_id a = i) t"

text \<open>
  \<open>non_pt_predicate\<close>: the accounts a tenant may use outside passthrough. \<open>tenants\<close> gives the
  status of every tenant row.
\<close>

definition non_pt_predicate :: "(uuid \<rightharpoonup> string) \<Rightarrow> uuid \<Rightarrow> account \<Rightarrow> bool" where
  "non_pt_predicate tenants tenant a \<longleftrightarrow>
     acc_enabled a \<and> acc_pool_enabled a \<and> tenants tenant = Some ''active''
     \<and> (acc_tenant_id a = None
        \<or> acc_tenant_id a = Some tenant \<and> (case acc_tenant_id a of None \<Rightarrow> False | Some o' \<Rightarrow> tenants o' = Some ''active''))"

text \<open>\<open>ORDER BY a.priority DESC, a.id\<close>\<close>

definition order_by_priority :: "account list \<Rightarrow> account list" where
  "order_by_priority = sort_key (\<lambda>a. (- acc_priority a, acc_id a))"

definition find_enabled_by_tenant :: "(uuid \<rightharpoonup> string) \<Rightarrow> uuid \<Rightarrow> account list \<Rightarrow> account list" where
  "find_enabled_by_tenant tenants tenant t = order_by_priority (filter (non_pt_predicate tenants tenant) t)"

definition find_by_model ::
  "(uuid \<rightharpoonup> string) \<Rightarrow> uuid \<Rightarrow> string \<Rightarrow> string \<Rightarrow> account list \<Rightarrow> account list" where
  "find_by_model tenants tenant model capability t =
     order_by_priority
       (filter (\<lambda>a. non_pt_predicate tenants tenant a \<and> model \<in> set (acc_models_supported a)
                    \<and> capability \<in> set (acc_api_capabilities a)) t)"

definition authorize_non_pt :: "(uuid \<rightharpoonup> string) \<Rightarrow> uuid \<Rightarrow> uuid \<Rightarrow> account list \<Rightarrow> bool" where
  "authorize_non_pt tenants tenant i t = list_ex (\<lambda>a. acc_id a = i \<and> non_pt_predicate tenants tenant a) t"

section \<open>Health statements\<close>

text \<open>\<open>CASE WHEN c IS NULL OR c < v THEN v ELSE c END\<close>\<close>

definition latest :: "datetime option \<Rightarrow> datetime \<Rightarrow> datetime option" where
  "latest c v = (case c of None \<Rightarrow> Some v | Some c' \<Rightarrow> if c' < v then Some v else Some c')"

definition sql_avg_latency :: "int option \<Rightarrow> int \<Rightarrow> int option db_result" where
  "sql_avg_latency avg l =
     (case avg of
        None \<Rightarrow> Inr (Some l)
      | Some a \<Rightarrow>
          if int8 (a * 7) \<and> int8 (l * 3) \<and> int8 (a * 7 + l * 3)
          then Inr (Some ((a * 7 + l * 3) sdiv 10)) else Inl Db_Out_Of_Range)"

definition runtime_success_row :: "int \<Rightarrow> datetime \<Rightarrow> account \<Rightarrow> account db_result" where
  "runtime_success_row latency_ms occurred_at a =
     (case sql_avg_latency (acc_health_avg_latency_ms a) (max latency_ms 0) of
        Inl e \<Rightarrow> Inl e
      | Inr avg \<Rightarrow>
          if \<not> int8 (acc_health_success_count a + 1) then Inl Db_Out_Of_Range
          else checked_row (a\<lparr>acc_health_status := ''healthy'', acc_health_reason := None, acc_health_penalty := 0,
                  acc_health_consecutive_failures := 0,
                  acc_health_success_count := acc_health_success_count a + 1,
                  acc_health_avg_latency_ms := avg,
                  acc_health_last_success_at := latest (acc_health_last_success_at a) occurred_at,
                  acc_health_updated_at := max (acc_health_updated_at a) occurred_at + microsecond\<rparr>))"

definition record_runtime_success ::
  "uuid \<Rightarrow> int \<Rightarrow> int \<Rightarrow> datetime \<Rightarrow> account list \<Rightarrow> (account list \<times> bool) db_result" where
  "record_runtime_success i expected_generation latency_ms occurred_at t =
     one_row (sql_update (\<lambda>a. acc_id a = i \<and> acc_health_generation a = expected_generation)
       (runtime_success_row latency_ms occurred_at) t)"

definition runtime_failure_row :: "string \<Rightarrow> bool \<Rightarrow> datetime \<Rightarrow> account \<Rightarrow> account db_result" where
  "runtime_failure_row reason hard_failure occurred_at a =
     (let failures = acc_health_consecutive_failures a + 1;
          quarantine = (hard_failure \<or> failures \<ge> 3)
      in if \<not> int4 failures \<or> \<not> int8 (acc_health_failure_count a + 1)
            \<or> \<not> quarantine \<and> \<not> int4 (acc_health_penalty a + 35)
         then Inl Db_Out_Of_Range
         else checked_row (a\<lparr>acc_health_status := (if quarantine then ''unhealthy'' else ''degraded''),
                acc_health_reason := Some reason,
                acc_health_penalty := (if quarantine then 100 else min (acc_health_penalty a + 35) 99),
                acc_health_consecutive_failures := failures,
                acc_health_failure_count := acc_health_failure_count a + 1,
                acc_health_last_failure_at := latest (acc_health_last_failure_at a) occurred_at,
                acc_health_updated_at := max (acc_health_updated_at a) occurred_at + microsecond\<rparr>))"

definition record_runtime_failure ::
  "uuid \<Rightarrow> int \<Rightarrow> string \<Rightarrow> bool \<Rightarrow> datetime \<Rightarrow> account list \<Rightarrow> (account list \<times> bool) db_result" where
  "record_runtime_failure i expected_generation reason hard_failure occurred_at t =
     one_row (sql_update (\<lambda>a. acc_id a = i \<and> acc_health_generation a = expected_generation)
       (runtime_failure_row reason hard_failure occurred_at) t)"

text \<open>The columns \<open>$5\<close> to \<open>$13\<close> of the probe statement: one health snapshot.\<close>

record health_columns =
  hc_status :: string
  hc_reason :: "string option"
  hc_penalty :: int
  hc_consecutive_failures :: int
  hc_success_count :: int
  hc_failure_count :: int
  hc_avg_latency_ms :: "int option"
  hc_last_success_at :: "datetime option"
  hc_last_failure_at :: "datetime option"

definition probe_snapshot_row ::
  "datetime \<Rightarrow> int \<Rightarrow> string \<Rightarrow> string option \<Rightarrow> health_columns \<Rightarrow> account \<Rightarrow> account db_result" where
  "probe_snapshot_row probed_at latency_ms status error_code h a =
     (if \<not> int8 (acc_health_generation a + 1) then Inl Db_Out_Of_Range
      else checked_row (a\<lparr>acc_last_probe_at := Some probed_at, acc_last_probe_latency_ms := Some latency_ms,
             acc_last_probe_status := Some status, acc_last_probe_error_code := error_code,
             acc_health_status := hc_status h, acc_health_reason := hc_reason h,
             acc_health_penalty := hc_penalty h,
             acc_health_consecutive_failures := hc_consecutive_failures h,
             acc_health_success_count := hc_success_count h,
             acc_health_failure_count := hc_failure_count h,
             acc_health_avg_latency_ms := hc_avg_latency_ms h,
             acc_health_last_success_at := hc_last_success_at h,
             acc_health_last_failure_at := hc_last_failure_at h,
             acc_health_updated_at := max (acc_health_updated_at a) probed_at,
             acc_health_generation := acc_health_generation a + 1\<rparr>))"

definition record_probe_snapshot_if_config_current ::
  "uuid \<Rightarrow> datetime \<Rightarrow> datetime \<Rightarrow> int \<Rightarrow> datetime \<Rightarrow> int \<Rightarrow> string \<Rightarrow> string option \<Rightarrow> health_columns
     \<Rightarrow> account list \<Rightarrow> (account list \<times> bool) db_result" where
  "record_probe_snapshot_if_config_current i expected_updated_at expected_health_updated_at
     expected_health_generation probed_at latency_ms status error_code h t =
     one_row (sql_update
       (\<lambda>a. acc_id a = i \<and> acc_upstream_config_version a = expected_updated_at
            \<and> acc_health_updated_at a = expected_health_updated_at
            \<and> acc_health_generation a = expected_health_generation)
       (probe_snapshot_row probed_at latency_ms status error_code h) t)"

definition record_probe_telemetry_if_config_current ::
  "uuid \<Rightarrow> datetime \<Rightarrow> datetime \<Rightarrow> int \<Rightarrow> string \<Rightarrow> string option \<Rightarrow> account list
     \<Rightarrow> (account list \<times> bool) db_result" where
  "record_probe_telemetry_if_config_current i expected_updated_at probed_at latency_ms status error_code t =
     one_row (sql_update (\<lambda>a. acc_id a = i \<and> acc_upstream_config_version a = expected_updated_at)
       (\<lambda>a. checked_row (a\<lparr>acc_last_probe_at := Some probed_at, acc_last_probe_latency_ms := Some latency_ms,
              acc_last_probe_status := Some status, acc_last_probe_error_code := error_code\<rparr>)) t)"

definition reset_health_row :: "datetime \<Rightarrow> account \<Rightarrow> account db_result" where
  "reset_health_row now a =
     (if \<not> int8 (acc_health_generation a + 1) then Inl Db_Out_Of_Range
      else checked_row (a\<lparr>acc_health_status := ''unknown'', acc_health_reason := None, acc_health_penalty := 0,
             acc_health_consecutive_failures := 0, acc_health_success_count := 0,
             acc_health_failure_count := 0, acc_health_avg_latency_ms := None,
             acc_health_last_success_at := None, acc_health_last_failure_at := None,
             acc_health_updated_at := max (acc_health_updated_at a) now + microsecond,
             acc_health_generation := acc_health_generation a + 1\<rparr>))"

definition reset_health_snapshot ::
  "datetime \<Rightarrow> uuid \<Rightarrow> account list \<Rightarrow> (account list \<times> account option) db_result" where
  "reset_health_snapshot now i t =
     (case sql_update (\<lambda>a. acc_id a = i) (reset_health_row now) t of
        Inl e \<Rightarrow> Inl e
      | Inr (t', rs) \<Rightarrow> Inr (t', case rs of [] \<Rightarrow> None | r # _ \<Rightarrow> Some r))"

definition reset_all_health_snapshot ::
  "datetime \<Rightarrow> account list \<Rightarrow> (account list \<times> account list) db_result" where
  "reset_all_health_snapshot now t = sql_update (\<lambda>a. True) (reset_health_row now) t"

section \<open>Configuration update and deletion\<close>

text \<open>Whether the request changes the columns an upstream call depends on.\<close>

definition config_changed :: "update_account_request \<Rightarrow> account \<Rightarrow> bool" where
  "config_changed req a \<longleftrightarrow>
     coalesce (uar_endpoint req) (acc_endpoint a) \<noteq> acc_endpoint a
     \<or> coalesce (uar_upstream_api_key_encrypted req) (acc_upstream_api_key_encrypted a)
         \<noteq> acc_upstream_api_key_encrypted a
     \<or> coalesce (uar_models_supported req) (acc_models_supported a) \<noteq> acc_models_supported a
     \<or> coalesce (uar_api_capabilities req) (acc_api_capabilities a) \<noteq> acc_api_capabilities a"

definition update_row :: "datetime \<Rightarrow> update_account_request \<Rightarrow> account \<Rightarrow> account db_result" where
  "update_row now req a =
     (if config_changed req a \<and> \<not> int8 (acc_health_generation a + 1) then Inl Db_Out_Of_Range
      else checked_row (a\<lparr>acc_name := coalesce (uar_name req) (acc_name a),
             acc_endpoint := coalesce (uar_endpoint req) (acc_endpoint a),
             acc_upstream_api_key_encrypted :=
               coalesce (uar_upstream_api_key_encrypted req) (acc_upstream_api_key_encrypted a),
             acc_upstream_api_key_preview :=
               coalesce (uar_upstream_api_key_preview req) (acc_upstream_api_key_preview a),
             acc_rpm_limit := coalesce (uar_rpm_limit req) (acc_rpm_limit a),
             acc_tpm_limit := coalesce (uar_tpm_limit req) (acc_tpm_limit a),
             acc_priority := coalesce (uar_priority req) (acc_priority a),
             acc_enabled := coalesce (uar_enabled req) (acc_enabled a),
             acc_pool_enabled := coalesce (uar_pool_enabled req) (acc_pool_enabled a),
             acc_models_supported := coalesce (uar_models_supported req) (acc_models_supported a),
             acc_api_capabilities := coalesce (uar_api_capabilities req) (acc_api_capabilities a),
             acc_health_updated_at :=
               (if config_changed req a then max (acc_health_updated_at a) now + microsecond
                else acc_health_updated_at a),
             acc_health_generation := acc_health_generation a + (if config_changed req a then 1 else 0),
             acc_upstream_config_version :=
               (if config_changed req a then max (acc_upstream_config_version a) now + microsecond
                else acc_upstream_config_version a),
             acc_updated_at := max (acc_updated_at a) now + microsecond\<rparr>))"

definition account_update ::
  "datetime \<Rightarrow> uuid \<Rightarrow> update_account_request \<Rightarrow> account list \<Rightarrow> (account list \<times> account) db_result" where
  "account_update now i req t =
     (case validate_priority (uar_priority req) of
        Inl e \<Rightarrow> Inl e
      | Inr () \<Rightarrow>
     (case validate_rate_limits (uar_rpm_limit req) (uar_tpm_limit req) of
        Inl e \<Rightarrow> Inl e
      | Inr () \<Rightarrow>
     (case sql_update (\<lambda>a. acc_id a = i) (update_row now req) t of
        Inl e \<Rightarrow> Inl e
      | Inr (t', rs) \<Rightarrow>
          (case rs of [] \<Rightarrow> Inl (Db_Other ''update failed to return row'') | r # _ \<Rightarrow> Inr (t', r)))))"

definition account_delete :: "uuid \<Rightarrow> account list \<Rightarrow> account list" where
  "account_delete i t = filter (\<lambda>a. acc_id a \<noteq> i) t"

section \<open>One row of a keyed table\<close>

lemma sql_update_none: "(\<And>a. a \<in> set t \<Longrightarrow> \<not> w a) \<Longrightarrow> sql_update w f t = Inr (t, [])"
  by (induction t) auto

text \<open>
  A statement restricted to one identifier changes at most the row of that identifier, and
  affects one row exactly when that row satisfies the rest of its condition.
\<close>

lemma sql_update_keyed:
  assumes "distinct (map acc_id t)" "account_find_by_id i t = Some a"
  shows "sql_update (\<lambda>b. acc_id b = i \<and> w b) f t =
     (if w a then (case f a of Inl e \<Rightarrow> Inl e | Inr a' \<Rightarrow> Inr (map (\<lambda>b. if acc_id b = i then a' else b) t, [a']))
      else Inr (t, []))"
  using assms(1,2)
proof (induction t)
  case (Cons b t)
  show ?case
  proof (cases "acc_id b = i")
    case True
    have ne: "acc_id c \<noteq> i" if "c \<in> set t" for c
      using Cons.prems(1) True imageI [OF that, of acc_id] by auto
    then have "sql_update (\<lambda>b. acc_id b = i \<and> w b) f t = Inr (t, [])"
      by (intro sql_update_none) blast
    moreover have "map (\<lambda>b. if acc_id b = i then a' else b) t = t" for a'
      using ne by (intro map_idI) auto
    ultimately show ?thesis using Cons.prems True by (auto simp: account_find_by_id_def split: sum.splits)
  next
    case False
    then show ?thesis using Cons by (auto simp: account_find_by_id_def split: sum.splits)
  qed
qed (simp add: account_find_by_id_def)

end
