(* ===== verification/F64.thy ===== *)
theory F64
  imports Complex_Main "HOL-Library.Log_Nat"
begin

text \<open>
  The part of IEEE 754 double arithmetic the code uses for averages and rates: values are the
  rational numbers they denote, and every operation is the exact result rounded to the nearest
  number with a 53-bit significand, ties to even. Exponents are unbounded: the code only forms
  zero and numbers between \<open>2 ^ - 64\<close> and \<open>2 ^ 128\<close> this way, so that no overflow, subnormal
  or NaN arises.
\<close>

definition round_half_even :: "rat \<Rightarrow> int" where
  "round_half_even x =
     (let n = \<lfloor>x\<rfloor>; d = x - of_int n
      in if d < 1 / 2 then n else if 1 / 2 < d then n + 1 else if even n then n else n + 1)"

text \<open>The exponent \<open>e\<close> with \<open>2 ^ e \<le> x < 2 ^ (e + 1)\<close>, from the bit lengths of the fraction.\<close>

definition f64_exp :: "rat \<Rightarrow> int" where
  "f64_exp x =
     (let (n, d) = quotient_of x; e = bitlen n - bitlen d
      in if 2 powi e \<le> x then e else e - 1)"

definition f64_round :: "rat \<Rightarrow> rat" where
  "f64_round x =
     (if x = 0 then 0
      else let u = 2 powi (f64_exp \<bar>x\<bar> - 52) in of_int (round_half_even (x / u)) * u)"

definition f64_of_int :: "int \<Rightarrow> rat" where "f64_of_int n = f64_round (of_int n)"

definition f64_mul :: "rat \<Rightarrow> rat \<Rightarrow> rat" where "f64_mul x y = f64_round (x * y)"

definition f64_add :: "rat \<Rightarrow> rat \<Rightarrow> rat" where "f64_add x y = f64_round (x + y)"

definition f64_sub :: "rat \<Rightarrow> rat \<Rightarrow> rat" where "f64_sub x y = f64_round (x - y)"

definition f64_div :: "rat \<Rightarrow> rat \<Rightarrow> rat" where "f64_div x y = f64_round (x / y)"

text \<open>The casts \<open>as i64\<close> and \<open>as u64\<close>: towards zero, saturating.\<close>

definition f64_trunc :: "rat \<Rightarrow> int" where "f64_trunc x = (if 0 \<le> x then \<lfloor>x\<rfloor> else \<lceil>x\<rceil>)"

definition f64_as_i64 :: "rat \<Rightarrow> int" where
  "f64_as_i64 x = max (- (2 ^ 63)) (min (2 ^ 63 - 1) (f64_trunc x))"

definition f64_as_u64 :: "rat \<Rightarrow> int" where
  "f64_as_u64 x = max 0 (min (2 ^ 64 - 1) (f64_trunc x))"

lemmas f64_op_defs = f64_of_int_def f64_mul_def f64_add_def f64_sub_def f64_div_def

section \<open>Rounding error\<close>

lemma round_half_even_error: "\<bar>of_int (round_half_even x) - x\<bar> \<le> 1 / 2"
proof -
  have "of_int \<lfloor>x\<rfloor> \<le> x" "x < of_int \<lfloor>x\<rfloor> + 1" using floor_correct [of x] by auto
  then show ?thesis unfolding round_half_even_def Let_def abs_le_iff by (auto; linarith)
qed

lemma round_half_even_int [simp]: "round_half_even (of_int n) = n"
  by (simp add: round_half_even_def)

lemma bitlen_lower: "0 < n \<Longrightarrow> 2 powi (bitlen n - 1) \<le> (of_int n :: rat)"
proof -
  assume n: "0 < n"
  then have "2 ^ nat (bitlen n - 1) \<le> n" using bitlen_bounds [of n] by simp
  then have "(of_int (2 ^ nat (bitlen n - 1)) :: rat) \<le> of_int n" by (simp only: of_int_le_iff)
  moreover have "0 < bitlen n" using n bitlen_nonneg [of n] bitlen_eq_zero_iff [of n] by linarith
  ultimately show ?thesis by (simp add: power_int_def)
qed

lemma bitlen_upper: "0 < n \<Longrightarrow> (of_int n :: rat) < 2 powi bitlen n"
proof -
  assume "0 < n"
  then have "n < 2 ^ nat (bitlen n)" using bitlen_bounds [of n] by simp
  then have "(of_int n :: rat) < of_int (2 ^ nat (bitlen n))" by (simp only: of_int_less_iff)
  then show ?thesis by (simp add: power_int_def bitlen_nonneg)
qed

lemma f64_exp_lower:
  assumes "0 < x"
  shows "2 powi f64_exp x \<le> x"
proof -
  obtain n d where q: "quotient_of x = (n, d)" by fastforce
  then have x: "x = of_int n / of_int d" by (rule quotient_of_div)
  have d: "0 < d" using q by (rule quotient_of_denom_pos)
  have n: "0 < n" using assms d x by (simp add: zero_less_divide_iff)
  have "2 powi (bitlen n - 1) / 2 powi bitlen d \<le> x"
    unfolding x using bitlen_lower [OF n] bitlen_upper [OF d] d n
    by (intro frac_le) (auto simp: less_imp_le)
  then have "2 powi (bitlen n - bitlen d - 1) \<le> x"
    by (simp add: power_int_diff [symmetric] algebra_simps)
  then show ?thesis by (auto simp: f64_exp_def q Let_def)
qed

lemma f64_round_error: "\<bar>f64_round x - x\<bar> \<le> \<bar>x\<bar> / 2 ^ 53"
proof (cases "x = 0")
  case False
  define u :: rat where "u = 2 powi (f64_exp \<bar>x\<bar> - 52)"
  have u: "0 < u" by (simp add: u_def)
  have "f64_round x - x = (of_int (round_half_even (x / u)) - x / u) * u"
    using False u by (simp add: f64_round_def Let_def u_def [symmetric] algebra_simps)
  then have "\<bar>f64_round x - x\<bar> = \<bar>of_int (round_half_even (x / u)) - x / u\<bar> * u"
    using u by (simp add: abs_mult)
  also have "\<dots> \<le> 1 / 2 * u" using round_half_even_error u by (intro mult_right_mono) auto
  also have "1 / 2 * u = 2 powi f64_exp \<bar>x\<bar> / 2 ^ 53" by (simp add: u_def power_int_diff)
  also have "\<dots> \<le> \<bar>x\<bar> / 2 ^ 53" using False by (intro divide_right_mono f64_exp_lower) auto
  finally show ?thesis .
qed (simp add: f64_round_def)

lemma f64_round_0 [simp]: "f64_round 0 = 0" by (simp add: f64_round_def)

lemma f64_round_upper: "0 \<le> x \<Longrightarrow> f64_round x \<le> x * (1 + 1 / 2 ^ 53)"
proof -
  assume "0 \<le> x"
  then have "f64_round x - x \<le> x / 2 ^ 53" using f64_round_error [of x] unfolding abs_le_iff by simp
  then show ?thesis by (simp add: algebra_simps)
qed

lemma f64_round_lower: "0 \<le> x \<Longrightarrow> x * (1 - 1 / 2 ^ 53) \<le> f64_round x"
proof -
  assume "0 \<le> x"
  then have "- (f64_round x - x) \<le> x / 2 ^ 53" using f64_round_error [of x] unfolding abs_le_iff by simp
  then show ?thesis by (simp add: algebra_simps)
qed

lemma f64_round_nonneg: "0 \<le> x \<Longrightarrow> 0 \<le> f64_round x"
  using f64_round_lower [of x] by (auto intro: order_trans [rotated])

text \<open>Multiples of a power of two by an integer of at most 53 bits are exact.\<close>

lemma f64_round_scaled:
  assumes "\<bar>n\<bar> < 2 ^ 53"
  shows "f64_round (of_int n * 2 powi k) = of_int n * 2 powi k"
proof (cases "n = 0")
  case False
  let ?x = "of_int n * 2 powi k :: rat"
  let ?e = "f64_exp \<bar>?x\<bar>"
  have "(2 :: rat) powi ?e \<le> \<bar>?x\<bar>" using False by (intro f64_exp_lower) simp
  also have "\<dots> = of_int \<bar>n\<bar> * 2 powi k" by (simp add: abs_mult)
  also have "\<dots> < of_int (2 ^ 53) * 2 powi k"
    using assms by (intro mult_strict_right_mono) (simp_all only: of_int_less_iff zero_less_power_int zero_less_numeral)
  also have "\<dots> = 2 powi (53 + k)" by (simp add: power_int_add)
  finally have "(2 :: rat) powi ?e < 2 powi (53 + k)" .
  then have e: "?e - 52 \<le> k" using power_int_increasing [of "53 + k" ?e "2 :: rat"] by (rule_tac ccontr) auto
  have "?x / 2 powi (?e - 52) = of_int n * 2 powi (k - (?e - 52))" by (simp add: power_int_diff)
  also have "\<dots> = of_int (n * 2 ^ nat (k - (?e - 52)))" using e by (simp add: power_int_def)
  finally have "?x / 2 powi (?e - 52) = of_int (n * 2 ^ nat (k - (?e - 52)))" .
  then show ?thesis
    using False by (simp add: f64_round_def Let_def del: of_int_mult)
      (metis nonzero_divide_eq_eq power_int_not_zero zero_neq_numeral)
qed simp

lemma f64_of_int_exact: "\<bar>n\<bar> < 2 ^ 53 \<Longrightarrow> f64_of_int n = of_int n"
  using f64_round_scaled [of n 0] by (simp add: f64_of_int_def)

text \<open>
  A weighted mean of two non-negative samples whose weights sum to one stays, after all
  roundings and the truncation, between the larger sample and one less than the smaller one.
\<close>

lemma f64_mix_upper:
  assumes "0 \<le> a" "0 \<le> b" "a + b = 1" "0 \<le> x" "x \<le> m" "0 \<le> y" "y \<le> m" "m < 2 ^ 50"
  shows "f64_add (f64_mul x (f64_round a)) (f64_mul y (f64_round b)) < m + 1"
proof -
  let ?k = "1 + 1 / 2 ^ 53 :: rat"
  have "f64_mul z (f64_round c) \<le> m * c * ?k ^ 2" if "0 \<le> c" "0 \<le> z" "z \<le> m" for z c
  proof -
    have "z * f64_round c \<le> m * (c * ?k)"
      using that f64_round_upper [of c] f64_round_nonneg [of c] by (intro mult_mono) auto
    then have "z * f64_round c * ?k \<le> m * (c * ?k) * ?k" by (intro mult_right_mono) auto
    moreover have "0 \<le> z * f64_round c" using that by (simp add: f64_round_nonneg)
    ultimately have "f64_round (z * f64_round c) \<le> m * (c * ?k) * ?k"
      by (blast intro: order_trans f64_round_upper)
    then show ?thesis unfolding f64_mul_def power2_eq_square by (simp only: mult.assoc)
  qed note p = this
  let ?s = "f64_mul x (f64_round a) + f64_mul y (f64_round b)"
  have "?s \<le> m * a * ?k ^ 2 + m * b * ?k ^ 2" using assms by (intro add_mono p)
  also have "\<dots> = m * (a + b) * ?k ^ 2" by (simp add: algebra_simps)
  finally have s: "?s \<le> m * ?k ^ 2" using assms(3) by simp
  have "0 \<le> ?s" using assms by (intro add_nonneg_nonneg) (auto simp: f64_mul_def intro!: f64_round_nonneg mult_nonneg_nonneg)
  then have "f64_round ?s \<le> ?s * ?k" by (rule f64_round_upper)
  also have "\<dots> \<le> m * ?k ^ 2 * ?k" using s by (intro mult_right_mono) auto
  also have "\<dots> = m + m * (?k ^ 3 - 1)" by (simp add: power2_eq_square power3_eq_cube algebra_simps)
  also have "\<dots> < m + 1"
  proof -
    have "m * (?k ^ 3 - 1) \<le> 2 ^ 50 * (?k ^ 3 - 1)" using assms(8) by (intro mult_right_mono) (simp_all add: power3_eq_cube)
    also have "\<dots> < 1" by (simp add: power3_eq_cube)
    finally show ?thesis by simp
  qed
  finally show ?thesis by (simp add: f64_add_def)
qed

lemma f64_mix_lower:
  assumes "0 \<le> a" "0 \<le> b" "a + b = 1" "0 \<le> m" "m \<le> x" "m \<le> y" "m < 2 ^ 50"
  shows "m - 1 < f64_add (f64_mul x (f64_round a)) (f64_mul y (f64_round b))"
proof -
  let ?k = "1 - 1 / 2 ^ 53 :: rat"
  have "m * c * ?k ^ 2 \<le> f64_mul z (f64_round c)" if "0 \<le> c" "m \<le> z" for z c
  proof -
    have "m * (c * ?k) \<le> z * f64_round c"
      using that assms(4) f64_round_lower [of c] by (intro mult_mono) auto
    then have "m * (c * ?k) * ?k \<le> z * f64_round c * ?k" by (intro mult_right_mono) auto
    moreover have "0 \<le> z * f64_round c" using that assms(4) by (simp add: f64_round_nonneg)
    ultimately have "m * (c * ?k) * ?k \<le> f64_round (z * f64_round c)"
      by (blast intro: order_trans f64_round_lower)
    then show ?thesis unfolding f64_mul_def power2_eq_square by (simp only: mult.assoc)
  qed note p = this
  let ?s = "f64_mul x (f64_round a) + f64_mul y (f64_round b)"
  have "m * ?k ^ 2 = m * (a + b) * ?k ^ 2" using assms(3) by simp
  also have "\<dots> = m * a * ?k ^ 2 + m * b * ?k ^ 2" by (simp only: algebra_simps)
  also have "\<dots> \<le> ?s" using assms by (intro add_mono p)
  finally have s: "m * ?k ^ 2 \<le> ?s" .
  have "m - 1 < m * ?k ^ 3"
  proof -
    have "m * (1 - ?k ^ 3) \<le> 2 ^ 50 * (1 - ?k ^ 3)" using assms(7) by (intro mult_right_mono) (simp_all add: power3_eq_cube)
    also have "\<dots> < 1" by (simp add: power3_eq_cube)
    finally show ?thesis by (simp add: algebra_simps)
  qed
  also have "m * ?k ^ 3 = m * ?k ^ 2 * ?k" by (simp add: power2_eq_square power3_eq_cube)
  also have "\<dots> \<le> ?s * ?k" using s by (intro mult_right_mono) auto
  also have "\<dots> \<le> f64_round ?s"
    using s assms(4) by (intro f64_round_lower order_trans [OF _ s]) auto
  finally show ?thesis by (simp add: f64_add_def)
qed

end
