(* ===== verification/Account_Health.thy ===== *)
theory Account_Health
  imports Account_Table F64
begin

text \<open>
  Health of an upstream account and of a protocol
  (\<open>crates/keycompute-routing/src/provider_health.rs\<close>, the types \<open>AccountHealth\<close> and
  \<open>ProviderHealth\<close>): the local transitions on a success, a failure and a probe, the
  classification of errors, and the relation of the local snapshot to the database row it
  mirrors. Averages are \<open>f64\<close> computations; counters keep their \<open>i32\<close>, \<open>i64\<close> and \<open>u64\<close> ranges.
\<close>

section \<open>Account health\<close>

definition account_health_unknown :: string where "account_health_unknown = ''unknown''"

definition account_healthy :: string where "account_healthy = ''healthy''"

definition account_degraded :: string where "account_degraded = ''degraded''"

definition account_unhealthy :: string where "account_unhealthy = ''unhealthy''"

lemmas status_defs = account_health_unknown_def account_healthy_def account_degraded_def
  account_unhealthy_def

text \<open>\<open>trunc_subsecs(6)\<close>\<close>

definition postgres_timestamp :: "datetime \<Rightarrow> datetime" where
  "postgres_timestamp t = t - t mod microsecond"

record account_health =
  h_status :: string
  h_reason :: "string option"
  h_penalty :: int
  h_consecutive_failures :: int
  h_success_count :: int
  h_failure_count :: int
  h_avg_latency_ms :: "int option"
  h_last_success_at :: "datetime option"
  h_last_failure_at :: "datetime option"
  h_updated_at :: datetime
  h_generation :: int
  h_configuration_updated_at :: "datetime option"

definition account_health_default :: "datetime \<Rightarrow> account_health" where
  "account_health_default now =
     \<lparr>h_status = account_health_unknown, h_reason = None, h_penalty = 0, h_consecutive_failures = 0,
      h_success_count = 0, h_failure_count = 0, h_avg_latency_ms = None, h_last_success_at = None,
      h_last_failure_at = None, h_updated_at = postgres_timestamp now, h_generation = 0,
      h_configuration_updated_at = None\<rparr>"

definition from_account :: "account \<Rightarrow> account_health" where
  "from_account a =
     \<lparr>h_status = (if acc_health_status a = [] then account_health_unknown else acc_health_status a),
      h_reason = acc_health_reason a, h_penalty = acc_health_penalty a,
      h_consecutive_failures = acc_health_consecutive_failures a,
      h_success_count = acc_health_success_count a, h_failure_count = acc_health_failure_count a,
      h_avg_latency_ms = acc_health_avg_latency_ms a,
      h_last_success_at = map_option postgres_timestamp (acc_health_last_success_at a),
      h_last_failure_at = map_option postgres_timestamp (acc_health_last_failure_at a),
      h_updated_at = postgres_timestamp (acc_health_updated_at a),
      h_generation = acc_health_generation a,
      h_configuration_updated_at = Some (postgres_timestamp (acc_upstream_config_version a))\<rparr>"

definition is_routable :: "account_health \<Rightarrow> bool" where
  "is_routable h \<longleftrightarrow> h_status h \<noteq> account_unhealthy"

definition i32_wrap :: "int \<Rightarrow> int" where "i32_wrap n = (n + 2 ^ 31) mod 2 ^ 32 - 2 ^ 31"

definition i32_sat_inc :: "int \<Rightarrow> int" where "i32_sat_inc n = min (n + 1) (2 ^ 31 - 1)"

definition i64_sat_inc :: "int \<Rightarrow> int" where "i64_sat_inc n = min (n + 1) (2 ^ 63 - 1)"

text \<open>\<open>((current as f64 * 0.7) + (latency_ms as f64 * 0.3)) as i64\<close>\<close>

definition ewma :: "int \<Rightarrow> int \<Rightarrow> int" where
  "ewma current latency_ms =
     f64_as_i64 (f64_add (f64_mul (f64_of_int current) (f64_round (7 / 10)))
                         (f64_mul (f64_of_int latency_ms) (f64_round (3 / 10))))"

definition update_average_latency :: "int \<Rightarrow> account_health \<Rightarrow> account_health" where
  "update_average_latency latency h =
     (let latency_ms = max latency 0
      in h\<lparr>h_avg_latency_ms := Some (case h_avg_latency_ms h of
              None \<Rightarrow> latency_ms | Some current \<Rightarrow> ewma current latency_ms)\<rparr>)"

definition opt_max :: "datetime option \<Rightarrow> datetime \<Rightarrow> datetime option" where
  "opt_max previous t = Some (case previous of None \<Rightarrow> t | Some p \<Rightarrow> max p t)"

definition mark_success_at :: "int \<Rightarrow> datetime \<Rightarrow> account_health \<Rightarrow> account_health" where
  "mark_success_at latency_ms time h =
     (let occurred_at = postgres_timestamp time;
          h1 = h\<lparr>h_success_count := i64_sat_inc (h_success_count h), h_consecutive_failures := 0,
                 h_penalty := 0, h_status := account_healthy, h_reason := None\<rparr>;
          h2 = update_average_latency latency_ms h1
      in h2\<lparr>h_last_success_at := opt_max (h_last_success_at h2) occurred_at, h_updated_at := occurred_at\<rparr>)"

definition mark_success :: "datetime \<Rightarrow> int \<Rightarrow> account_health \<Rightarrow> account_health" where
  "mark_success now latency_ms h = mark_success_at latency_ms (postgres_timestamp now) h"

definition mark_failure_at :: "string \<Rightarrow> bool \<Rightarrow> datetime \<Rightarrow> account_health \<Rightarrow> account_health" where
  "mark_failure_at reason hard_failure time h =
     (let occurred_at = postgres_timestamp time;
          h1 = h\<lparr>h_failure_count := i64_sat_inc (h_failure_count h),
                 h_consecutive_failures := i32_sat_inc (h_consecutive_failures h),
                 h_last_failure_at := opt_max (h_last_failure_at h) occurred_at,
                 h_reason := Some reason\<rparr>;
          h2 = (if hard_failure \<or> h_consecutive_failures h1 \<ge> 3
                then h1\<lparr>h_status := account_unhealthy, h_penalty := 100\<rparr>
                else h1\<lparr>h_status := account_degraded, h_penalty := min (i32_wrap (h_penalty h1 + 35)) 99\<rparr>)
      in h2\<lparr>h_updated_at := occurred_at\<rparr>)"

definition mark_failure :: "datetime \<Rightarrow> string \<Rightarrow> bool \<Rightarrow> account_health \<Rightarrow> account_health" where
  "mark_failure now reason hard_failure h = mark_failure_at reason hard_failure (postgres_timestamp now) h"

definition advance_runtime_timestamp :: "datetime \<Rightarrow> datetime \<Rightarrow> account_health \<Rightarrow> account_health" where
  "advance_runtime_timestamp previous_updated_at occurred_at h =
     h\<lparr>h_updated_at := max previous_updated_at (postgres_timestamp occurred_at) + microsecond\<rparr>"

section \<open>Classification of errors\<close>

fun classify_runtime_error :: "key_compute_error \<Rightarrow> (string \<times> bool) option" where
  "classify_runtime_error (UpstreamFailure (Some s) _ retryable _) =
     (if s = 401 \<or> s = 403 then Some (''configuration_or_auth_failure'', True)
      else if s = 404 then None
      else if s = 408 \<or> s = 409 \<or> s = 429 then Some (''rate_limited_or_transient_request'', False)
      else if 500 \<le> s \<and> s \<le> 599 then Some (''transient_upstream_5xx'', False)
      else if 400 \<le> s \<and> s \<le> 499 then None
      else Some (''upstream_failure'', \<not> retryable))"
| "classify_runtime_error (UpstreamFailure None _ retryable _) = Some (''upstream_failure'', \<not> retryable)"
| "classify_runtime_error (AuthError _) = Some (''configuration_or_auth_failure'', True)"
| "classify_runtime_error (ConfigError _) = Some (''configuration_or_auth_failure'', True)"
| "classify_runtime_error (InvalidRequest _) = None"
| "classify_runtime_error (ValidationError _) = None"
| "classify_runtime_error (PermissionDenied _) = None"
| "classify_runtime_error (NotFound _) = None"
| "classify_runtime_error (RateLimitExceeded _) = Some (''rate_limited'', False)"
| "classify_runtime_error (ProviderTimeout _ _) = Some (''transient_upstream_failure'', False)"
| "classify_runtime_error (NetworkError _) = Some (''transient_upstream_failure'', False)"
| "classify_runtime_error (Timeout _) = Some (''transient_upstream_failure'', False)"
| "classify_runtime_error (ServiceUnavailable _) = Some (''transient_upstream_failure'', False)"
| "classify_runtime_error (ProviderError _) = None"
| "classify_runtime_error _ = None"

definition classify_probe_error :: "string option \<Rightarrow> string \<times> bool" where
  "classify_probe_error code =
     (case code of
        None \<Rightarrow> (''probe_failed'', False)
      | Some error_code \<Rightarrow>
          if error_code \<in> set [''upstream_http_401'', ''upstream_http_403'', ''account_credentials_invalid'',
               ''account_capability_invalid'', ''probe_model_unavailable'', ''provider_not_registered'']
          then (''configuration_or_auth_failure'', True)
          else if error_code = ''upstream_http_404'' then (''upstream_model_or_endpoint_not_found'', True)
          else if error_code = ''upstream_http_429'' then (''rate_limited'', False)
          else (''transient_probe_failure'', False))"

section \<open>Protocol diagnostics\<close>

record provider_health =
  ph_name :: string
  ph_healthy :: bool
  ph_avg_latency_ms :: u64
  ph_success_rate :: rat
  ph_total_requests :: u64
  ph_success_requests :: u64
  ph_failed_requests :: u64
  ph_last_updated :: instant
  ph_last_success_at :: "instant option"
  ph_last_failure_at :: "instant option"

definition provider_health_new :: "instant \<Rightarrow> string \<Rightarrow> provider_health" where
  "provider_health_new now name =
     \<lparr>ph_name = name, ph_healthy = True, ph_avg_latency_ms = 0, ph_success_rate = 100,
      ph_total_requests = 0, ph_success_requests = 0, ph_failed_requests = 0, ph_last_updated = now,
      ph_last_success_at = None, ph_last_failure_at = None\<rparr>"

definition update_success_rate :: "provider_health \<Rightarrow> provider_health" where
  "update_success_rate p =
     (let p1 = (if 0 < ph_total_requests p
                then p\<lparr>ph_success_rate :=
                         f64_mul (f64_div (f64_of_int (uint (ph_success_requests p)))
                                          (f64_of_int (uint (ph_total_requests p)))) 100\<rparr>
                else p)
      in if ph_success_rate p1 < 50 \<and> 10 \<le> ph_total_requests p1 then p1\<lparr>ph_healthy := False\<rparr>
         else if 80 \<le> ph_success_rate p1 then p1\<lparr>ph_healthy := True\<rparr>
         else p1)"

definition alpha :: rat where "alpha = f64_round (3 / 10)"

definition provider_record_success :: "instant \<Rightarrow> instant \<Rightarrow> u64 \<Rightarrow> provider_health \<Rightarrow> provider_health" where
  "provider_record_success now now' latency_ms p =
     (let p1 = p\<lparr>ph_total_requests := ph_total_requests p + 1,
                 ph_success_requests := ph_success_requests p + 1, ph_last_success_at := Some now\<rparr>;
          p2 = (if ph_avg_latency_ms p1 = 0 then p1\<lparr>ph_avg_latency_ms := latency_ms\<rparr>
                else let current = f64_of_int (uint (ph_avg_latency_ms p1));
                         new = f64_of_int (uint latency_ms)
                     in p1\<lparr>ph_avg_latency_ms :=
                          word_of_int (f64_as_u64 (f64_add (f64_mul alpha new)
                                                           (f64_mul (f64_sub 1 alpha) current)))\<rparr>)
      in (update_success_rate p2)\<lparr>ph_last_updated := now'\<rparr>)"

definition provider_record_failure :: "instant \<Rightarrow> instant \<Rightarrow> provider_health \<Rightarrow> provider_health" where
  "provider_record_failure now now' p =
     (update_success_rate
        (p\<lparr>ph_total_requests := ph_total_requests p + 1, ph_failed_requests := ph_failed_requests p + 1,
           ph_last_failure_at := Some now\<rparr>))\<lparr>ph_last_updated := now'\<rparr>"

definition health_score :: "provider_health \<Rightarrow> u64" where
  "health_score p =
     (if \<not> ph_healthy p then 0
      else let latency_score = (if ph_avg_latency_ms p < 100 then 100
                                else if ph_avg_latency_ms p < 500 then 80
                                else if ph_avg_latency_ms p < 1000 then 60 else 40)
           in min ((word_of_int (f64_as_u64 (ph_success_rate p)) * 60 + latency_score * 40) div 100) 100)"

section \<open>Averages\<close>

lemma f64_as_i64_bounds:
  assumes "0 \<le> x" "of_int k - 1 < x" "x < of_int n + 1" "n < 2 ^ 63"
  shows "k - 1 \<le> f64_as_i64 x" "f64_as_i64 x \<le> n" "0 \<le> f64_as_i64 x"
proof -
  have "k - 1 \<le> \<lfloor>x\<rfloor>" using assms(2) by (simp add: le_floor_iff)
  moreover have "\<lfloor>x\<rfloor> < n + 1" using assms(3) by (simp only: floor_less_iff of_int_add of_int_1)
  moreover have "0 \<le> \<lfloor>x\<rfloor>" using assms(1) by simp
  ultimately show "k - 1 \<le> f64_as_i64 x" "f64_as_i64 x \<le> n" "0 \<le> f64_as_i64 x"
    using assms(1,4) by (auto simp: f64_as_i64_def f64_trunc_def)
qed

text \<open>The moving average stays between the samples, up to the truncation of one millisecond.\<close>

lemma ewma_bounds:
  assumes "0 \<le> c" "c < 2 ^ 50" "0 \<le> l" "l < 2 ^ 50"
  shows "min c l - 1 \<le> ewma c l" "ewma c l \<le> max c l" "0 \<le> ewma c l"
proof -
  let ?x = "f64_add (f64_mul (of_int c) (f64_round (7 / 10))) (f64_mul (of_int l) (f64_round (3 / 10)))"
  have e: "ewma c l = f64_as_i64 ?x"
    using assms by (simp add: ewma_def f64_of_int_exact)
  have big: "(of_int (max c l) :: rat) < 2 ^ 50" "(of_int (min c l) :: rat) < 2 ^ 50"
    using assms by (auto simp: max_def min_def)
  have hi: "?x < of_int (max c l) + 1"
    by (rule f64_mix_upper) (use assms big in \<open>auto simp: max_def\<close>)
  have lo: "of_int (min c l) - 1 < ?x"
    by (rule f64_mix_lower) (use assms big in \<open>auto simp: min_def\<close>)
  have nn: "0 \<le> ?x" using assms
    by (auto simp: f64_add_def f64_mul_def intro!: f64_round_nonneg add_nonneg_nonneg mult_nonneg_nonneg)
  have "max c l < 2 ^ 63" using assms by (simp add: max_def)
  from f64_as_i64_bounds [OF nn lo hi this]
  show "min c l - 1 \<le> ewma c l" "ewma c l \<le> max c l" "0 \<le> ewma c l" by (simp_all add: e)
qed

lemma sql_avg_bounds:
  assumes "0 \<le> c" "c < 2 ^ 50" "0 \<le> l" "l < 2 ^ 50"
  shows "sql_avg_latency (Some c) l = Inr (Some ((c * 7 + l * 3) div 10))"
    "0 \<le> (c * 7 + l * 3) div 10" "(c * 7 + l * 3) div 10 < 2 ^ 50"
proof -
  have "(c * 7 + l * 3) sdiv 10 = (c * 7 + l * 3) div 10"
    using assms by (cases "c * 7 + l * 3 = 0") (auto simp: signed_divide_int_def)
  then show "sql_avg_latency (Some c) l = Inr (Some ((c * 7 + l * 3) div 10))"
    using assms by (simp add: sql_avg_latency_def int8_def)
qed (use assms in auto)

section \<open>The local snapshot mirrors the row\<close>

text \<open>
  A row mirrors a local snapshot when they agree in everything but the average latency, which
  the two sides round differently. Rows keep whole microseconds and satisfy the constraints
  of the table, and both averages are plausible latencies.
\<close>

definition on_microsecond :: "datetime \<Rightarrow> bool" where "on_microsecond t \<longleftrightarrow> t mod microsecond = 0"

definition aligned :: "account \<Rightarrow> bool" where
  "aligned a \<longleftrightarrow> on_microsecond (acc_health_updated_at a) \<and> on_microsecond (acc_upstream_config_version a)
     \<and> pred_option on_microsecond (acc_health_last_success_at a)
     \<and> pred_option on_microsecond (acc_health_last_failure_at a)"

definition sample_ok :: "int option \<Rightarrow> bool" where
  "sample_ok s \<longleftrightarrow> pred_option (\<lambda>v. 0 \<le> v \<and> v < 2 ^ 50) s"

definition same_but_latency :: "account_health \<Rightarrow> account_health \<Rightarrow> bool" where
  "same_but_latency h h' \<longleftrightarrow> h\<lparr>h_avg_latency_ms := None\<rparr> = h'\<lparr>h_avg_latency_ms := None\<rparr>"

definition mirrors :: "account \<Rightarrow> account_health \<Rightarrow> bool" where
  "mirrors a h \<longleftrightarrow> aligned a \<and> account_checks a \<and> same_but_latency (from_account a) h
     \<and> sample_ok (acc_health_avg_latency_ms a) \<and> sample_ok (h_avg_latency_ms h)"

lemma postgres_timestamp_id [simp]: "on_microsecond t \<Longrightarrow> postgres_timestamp t = t"
  by (simp add: on_microsecond_def postgres_timestamp_def)

lemma on_microsecond_timestamp [simp]: "on_microsecond (postgres_timestamp t)"
  by (simp add: on_microsecond_def postgres_timestamp_def microsecond_def mod_diff_eq [symmetric])

lemma on_microsecond_max [simp]: "on_microsecond a \<Longrightarrow> on_microsecond b \<Longrightarrow> on_microsecond (max a b)"
  by (simp add: max_def)

lemma on_microsecond_succ [simp]: "on_microsecond a \<Longrightarrow> on_microsecond (a + microsecond)"
  by (simp add: on_microsecond_def)

lemma latest_opt_max: "latest c t = opt_max c t"
  by (simp add: latest_def opt_max_def max_def split: option.split)

lemma opt_max_aligned:
  "on_microsecond t \<Longrightarrow> pred_option on_microsecond c \<Longrightarrow> pred_option on_microsecond (opt_max c t)"
  by (cases c) (simp_all add: opt_max_def)

lemma map_timestamp_id: "pred_option on_microsecond c \<Longrightarrow> map_option postgres_timestamp c = c"
  by (cases c) simp_all

lemma sample_ok_simps [simp]:
  "sample_ok None" "sample_ok (Some v) \<longleftrightarrow> 0 \<le> v \<and> v < 2 ^ 50"
  by (simp_all add: sample_ok_def)

lemma sample_ok_sql:
  assumes "sample_ok avg" "0 \<le> l" "l < 2 ^ 50"
  shows "\<exists>avg'. sql_avg_latency avg l = Inr avg' \<and> sample_ok avg'"
  using assms sql_avg_bounds [of _ l] by (cases avg) (auto simp: sql_avg_latency_def)

lemma sample_ok_local:
  assumes "sample_ok (h_avg_latency_ms h)" "0 \<le> l" "l < 2 ^ 50"
  shows "sample_ok (h_avg_latency_ms (update_average_latency l h))"
proof (cases "h_avg_latency_ms h")
  case (Some c)
  then have "0 \<le> c" "c < 2 ^ 50" using assms by auto
  with ewma_bounds [of c l] Some assms show ?thesis by (simp add: update_average_latency_def max_def split: if_splits)
qed (use assms in \<open>simp add: update_average_latency_def\<close>)

text \<open>The fields of a mirrored snapshot, read off the row.\<close>

lemma mirrors_fields:
  assumes "mirrors a h"
  shows "h = \<lparr>h_status = acc_health_status a, h_reason = acc_health_reason a,
     h_penalty = acc_health_penalty a, h_consecutive_failures = acc_health_consecutive_failures a,
     h_success_count = acc_health_success_count a, h_failure_count = acc_health_failure_count a,
     h_avg_latency_ms = h_avg_latency_ms h, h_last_success_at = acc_health_last_success_at a,
     h_last_failure_at = acc_health_last_failure_at a, h_updated_at = acc_health_updated_at a,
     h_generation = acc_health_generation a,
     h_configuration_updated_at = Some (acc_upstream_config_version a)\<rparr>"
proof -
  have "acc_health_status a \<noteq> []" using assms by (auto simp: mirrors_def account_checks_def)
  then have "from_account a = \<lparr>h_status = acc_health_status a, h_reason = acc_health_reason a,
     h_penalty = acc_health_penalty a, h_consecutive_failures = acc_health_consecutive_failures a,
     h_success_count = acc_health_success_count a, h_failure_count = acc_health_failure_count a,
     h_avg_latency_ms = acc_health_avg_latency_ms a, h_last_success_at = acc_health_last_success_at a,
     h_last_failure_at = acc_health_last_failure_at a, h_updated_at = acc_health_updated_at a,
     h_generation = acc_health_generation a,
     h_configuration_updated_at = Some (acc_upstream_config_version a)\<rparr>"
    using assms by (simp add: from_account_def mirrors_def aligned_def map_timestamp_id)
  then show ?thesis using assms by (cases h) (simp add: mirrors_def same_but_latency_def)
qed

lemma mirrorsI:
  assumes "aligned a" "account_checks a" "sample_ok (acc_health_avg_latency_ms a)" "sample_ok avg"
    and "h = \<lparr>h_status = acc_health_status a, h_reason = acc_health_reason a,
     h_penalty = acc_health_penalty a, h_consecutive_failures = acc_health_consecutive_failures a,
     h_success_count = acc_health_success_count a, h_failure_count = acc_health_failure_count a,
     h_avg_latency_ms = avg, h_last_success_at = acc_health_last_success_at a,
     h_last_failure_at = acc_health_last_failure_at a, h_updated_at = acc_health_updated_at a,
     h_generation = acc_health_generation a,
     h_configuration_updated_at = Some (acc_upstream_config_version a)\<rparr>"
  shows "mirrors a h"
proof -
  have "acc_health_status a \<noteq> []" using assms(2) by (auto simp: account_checks_def)
  then show ?thesis
    using assms by (simp add: mirrors_def same_but_latency_def from_account_def aligned_def map_timestamp_id)
qed

text \<open>The local transitions of a live success, a live failure and a probe that is still current.\<close>

definition live_success :: "int \<Rightarrow> datetime \<Rightarrow> account_health \<Rightarrow> account_health" where
  "live_success latency_ms occurred_at h =
     advance_runtime_timestamp (h_updated_at h) occurred_at (mark_success_at latency_ms occurred_at h)"

definition live_failure :: "string \<Rightarrow> bool \<Rightarrow> datetime \<Rightarrow> account_health \<Rightarrow> account_health" where
  "live_failure reason hard_failure occurred_at h =
     advance_runtime_timestamp (h_updated_at h) occurred_at (mark_failure_at reason hard_failure occurred_at h)"

definition probe_transition ::
  "bool \<Rightarrow> int \<Rightarrow> string option \<Rightarrow> datetime \<Rightarrow> account_health \<Rightarrow> account_health" where
  "probe_transition success latency_ms error_code probed_at h =
     (let effective_probed_at = max (h_updated_at h) probed_at;
          h1 = (if success then mark_success_at latency_ms effective_probed_at h
                else let (reason, hard_failure) = classify_probe_error error_code
                     in mark_failure_at reason hard_failure effective_probed_at h)
      in h1\<lparr>h_updated_at := effective_probed_at, h_generation := i64_sat_inc (h_generation h1)\<rparr>)"

definition columns_of :: "account_health \<Rightarrow> health_columns" where
  "columns_of h =
     \<lparr>hc_status = h_status h, hc_reason = h_reason h, hc_penalty = h_penalty h,
      hc_consecutive_failures = h_consecutive_failures h, hc_success_count = h_success_count h,
      hc_failure_count = h_failure_count h, hc_avg_latency_ms = h_avg_latency_ms h,
      hc_last_success_at = h_last_success_at h, hc_last_failure_at = h_last_failure_at h\<rparr>"

lemmas transition_defs = live_success_def live_failure_def advance_runtime_timestamp_def
  mark_success_at_def mark_failure_at_def Let_def

lemma mirror_success:
  assumes m: "mirrors a h" and t: "on_microsecond t" and l: "0 \<le> l" "l < 2 ^ 50"
    and n: "int8 (h_success_count h + 1)"
  shows "\<exists>a'. runtime_success_row l t a = Inr a' \<and> acc_id a' = acc_id a \<and> mirrors a' (live_success l t h)"
proof -
  note f = mirrors_fields [OF m]
  have sc: "h_success_count h = acc_health_success_count a" by (subst f) simp
  from m have "sample_ok (acc_health_avg_latency_ms a)" by (simp add: mirrors_def)
  then obtain avg where avg: "sql_avg_latency (acc_health_avg_latency_ms a) l = Inr avg" "sample_ok avg"
    using sample_ok_sql l by blast
  let ?a = "a\<lparr>acc_health_status := ''healthy'', acc_health_reason := None, acc_health_penalty := 0,
                  acc_health_consecutive_failures := 0,
                  acc_health_success_count := acc_health_success_count a + 1,
                  acc_health_avg_latency_ms := avg,
                  acc_health_last_success_at := latest (acc_health_last_success_at a) t,
                  acc_health_updated_at := max (acc_health_updated_at a) t + microsecond\<rparr>"
  have ck: "account_checks ?a" using m by (auto simp: mirrors_def account_checks_def)
  then have row: "runtime_success_row l t a = Inr ?a"
    using avg l n sc by (simp add: runtime_success_row_def checked_row_def max_def)
  have al: "aligned ?a"
    using m t by (auto simp: mirrors_def aligned_def latest_opt_max intro: opt_max_aligned)
  have avg': "sample_ok (h_avg_latency_ms (live_success l t h))"
    using m l sample_ok_local [of "h\<lparr>h_success_count := i64_sat_inc (h_success_count h),
      h_consecutive_failures := 0, h_penalty := 0, h_status := account_healthy, h_reason := None\<rparr>" l]
    by (simp add: mirrors_def transition_defs)
  have "live_success l t h = \<lparr>h_status = acc_health_status ?a, h_reason = acc_health_reason ?a,
     h_penalty = acc_health_penalty ?a, h_consecutive_failures = acc_health_consecutive_failures ?a,
     h_success_count = acc_health_success_count ?a, h_failure_count = acc_health_failure_count ?a,
     h_avg_latency_ms = h_avg_latency_ms (live_success l t h),
     h_last_success_at = acc_health_last_success_at ?a,
     h_last_failure_at = acc_health_last_failure_at ?a, h_updated_at = acc_health_updated_at ?a,
     h_generation = acc_health_generation ?a,
     h_configuration_updated_at = Some (acc_upstream_config_version ?a)\<rparr>"
    using t n sc by (subst (1 2) f)
      (simp add: transition_defs update_average_latency_def status_defs latest_opt_max i64_sat_inc_def int8_def)
  then have "mirrors ?a (live_success l t h)"
    using al ck avg(2) avg' by (intro mirrorsI) simp_all
  with row show ?thesis by simp
qed

lemma mirror_failure:
  assumes m: "mirrors a h" and t: "on_microsecond t"
    and n: "int8 (h_failure_count h + 1)" "int4 (h_consecutive_failures h + 1)"
  shows "\<exists>a'. runtime_failure_row reason hard t a = Inr a' \<and> acc_id a' = acc_id a
     \<and> mirrors a' (live_failure reason hard t h)"
proof -
  note f = mirrors_fields [OF m]
  have sc: "h_failure_count h = acc_health_failure_count a"
    "h_consecutive_failures h = acc_health_consecutive_failures a" by (subst f, simp)+
  have p: "0 \<le> acc_health_penalty a" "acc_health_penalty a \<le> 100"
    "0 \<le> acc_health_consecutive_failures a"
    using m by (auto simp: mirrors_def account_checks_def)
  let ?q = "hard \<or> acc_health_consecutive_failures a + 1 \<ge> 3"
  let ?a = "a\<lparr>acc_health_status := (if ?q then ''unhealthy'' else ''degraded''),
                acc_health_reason := Some reason,
                acc_health_penalty := (if ?q then 100 else min (acc_health_penalty a + 35) 99),
                acc_health_consecutive_failures := acc_health_consecutive_failures a + 1,
                acc_health_failure_count := acc_health_failure_count a + 1,
                acc_health_last_failure_at := latest (acc_health_last_failure_at a) t,
                acc_health_updated_at := max (acc_health_updated_at a) t + microsecond\<rparr>"
  have ck: "account_checks ?a" using m by (auto simp: mirrors_def account_checks_def)
  then have row: "runtime_failure_row reason hard t a = Inr ?a"
    using n sc p by (auto simp: runtime_failure_row_def checked_row_def Let_def int4_def)
  have al: "aligned ?a"
    using m t by (auto simp: mirrors_def aligned_def latest_opt_max intro: opt_max_aligned)
  have w: "i32_wrap (acc_health_penalty a + 35) = acc_health_penalty a + 35"
    "i32_sat_inc (acc_health_consecutive_failures a) = acc_health_consecutive_failures a + 1"
    "i64_sat_inc (acc_health_failure_count a) = acc_health_failure_count a + 1"
    using p n sc by (simp_all add: i32_wrap_def i32_sat_inc_def i64_sat_inc_def int4_def int8_def)
  have "live_failure reason hard t h = \<lparr>h_status = acc_health_status ?a, h_reason = acc_health_reason ?a,
     h_penalty = acc_health_penalty ?a, h_consecutive_failures = acc_health_consecutive_failures ?a,
     h_success_count = acc_health_success_count ?a, h_failure_count = acc_health_failure_count ?a,
     h_avg_latency_ms = h_avg_latency_ms h, h_last_success_at = acc_health_last_success_at ?a,
     h_last_failure_at = acc_health_last_failure_at ?a, h_updated_at = acc_health_updated_at ?a,
     h_generation = acc_health_generation ?a,
     h_configuration_updated_at = Some (acc_upstream_config_version ?a)\<rparr>"
    using t by (subst (1 2) f) (simp add: transition_defs status_defs latest_opt_max w)
  then have "mirrors ?a (live_failure reason hard t h)"
    using al ck m by (intro mirrorsI) (simp_all add: mirrors_def)
  with row show ?thesis by simp
qed

text \<open>What a snapshot must satisfy for its columns to be written.\<close>

definition health_ok :: "account_health \<Rightarrow> bool" where
  "health_ok h \<longleftrightarrow> h_status h \<in> set [''unknown'', ''healthy'', ''degraded'', ''unhealthy'']
     \<and> 0 \<le> h_penalty h \<and> h_penalty h \<le> 100 \<and> 0 \<le> h_consecutive_failures h
     \<and> 0 \<le> h_success_count h \<and> 0 \<le> h_failure_count h \<and> sample_ok (h_avg_latency_ms h)
     \<and> pred_option on_microsecond (h_last_success_at h) \<and> pred_option on_microsecond (h_last_failure_at h)"

lemma mirrors_sel:
  assumes "mirrors a h"
  shows "h_status h = acc_health_status a" "h_reason h = acc_health_reason a"
    "h_penalty h = acc_health_penalty a" "h_consecutive_failures h = acc_health_consecutive_failures a"
    "h_success_count h = acc_health_success_count a" "h_failure_count h = acc_health_failure_count a"
    "h_last_success_at h = acc_health_last_success_at a"
    "h_last_failure_at h = acc_health_last_failure_at a" "h_updated_at h = acc_health_updated_at a"
    "h_generation h = acc_health_generation a"
    "h_configuration_updated_at h = Some (acc_upstream_config_version a)"
  by (subst mirrors_fields [OF assms], simp)+

lemma mirrors_health_ok:
  assumes "mirrors a h"
  shows "health_ok h"
  unfolding health_ok_def mirrors_sel [OF assms]
  using assms by (simp add: mirrors_def account_checks_def aligned_def)

lemma sat_inc_nonneg: "0 \<le> n \<Longrightarrow> 0 \<le> i64_sat_inc n" "0 \<le> n \<Longrightarrow> 0 \<le> i32_sat_inc n"
  by (simp_all add: i64_sat_inc_def i32_sat_inc_def)

lemma health_ok_success:
  assumes "health_ok h" "0 \<le> l" "l < 2 ^ 50"
  shows "health_ok (mark_success_at l t h)"
proof -
  have "sample_ok (h_avg_latency_ms (update_average_latency l (h\<lparr>h_success_count := i64_sat_inc (h_success_count h),
      h_consecutive_failures := 0, h_penalty := 0, h_status := account_healthy, h_reason := None\<rparr>)))"
    using assms by (intro sample_ok_local) (simp_all add: health_ok_def)
  then show ?thesis
    using assms
    by (auto simp: health_ok_def mark_success_at_def Let_def status_defs update_average_latency_def
        sat_inc_nonneg intro!: opt_max_aligned)
qed

lemma health_ok_failure: "health_ok h \<Longrightarrow> health_ok (mark_failure_at reason hard t h)"
  by (auto simp: health_ok_def mark_failure_at_def Let_def status_defs sat_inc_nonneg i32_wrap_def
      intro!: opt_max_aligned)

lemma mark_frame [simp]:
  "h_generation (mark_success_at l t h) = h_generation h"
  "h_generation (mark_failure_at r b t h) = h_generation h"
  "h_configuration_updated_at (mark_success_at l t h) = h_configuration_updated_at h"
  "h_configuration_updated_at (mark_failure_at r b t h) = h_configuration_updated_at h"
  by (simp_all add: mark_success_at_def mark_failure_at_def update_average_latency_def Let_def)

lemma probe_transition_fields:
  assumes "health_ok h" "0 \<le> l" "l < 2 ^ 50"
  shows "health_ok (probe_transition success l code t h)"
    "h_updated_at (probe_transition success l code t h) = max (h_updated_at h) t"
    "h_generation (probe_transition success l code t h) = i64_sat_inc (h_generation h)"
    "h_configuration_updated_at (probe_transition success l code t h) = h_configuration_updated_at h"
  using health_ok_success [OF assms] health_ok_failure [OF assms(1)]
  by (simp_all add: probe_transition_def Let_def case_prod_beta health_ok_def)

lemma mirror_probe:
  fixes success :: bool and code :: "string option"
  assumes m: "mirrors a h" and t: "on_microsecond t" and l: "0 \<le> l" "l < 2 ^ 50"
    and n: "int8 (h_generation h + 1)" and st: "status = ''succeeded'' \<or> status = ''failed''"
  defines "h' \<equiv> probe_transition success l code t h"
  shows "\<exists>a'. probe_snapshot_row t l status code (columns_of h') a = Inr a' \<and> acc_id a' = acc_id a
     \<and> mirrors a' h'"
proof -
  note e = mirrors_sel [OF m]
  note p = probe_transition_fields [OF mirrors_health_ok [OF m] l, of success code t, folded h'_def]
  let ?a = "a\<lparr>acc_last_probe_at := Some t, acc_last_probe_latency_ms := Some l,
             acc_last_probe_status := Some status, acc_last_probe_error_code := code,
             acc_health_status := h_status h', acc_health_reason := h_reason h',
             acc_health_penalty := h_penalty h',
             acc_health_consecutive_failures := h_consecutive_failures h',
             acc_health_success_count := h_success_count h',
             acc_health_failure_count := h_failure_count h',
             acc_health_avg_latency_ms := h_avg_latency_ms h',
             acc_health_last_success_at := h_last_success_at h',
             acc_health_last_failure_at := h_last_failure_at h',
             acc_health_updated_at := max (acc_health_updated_at a) t,
             acc_health_generation := acc_health_generation a + 1\<rparr>"
  have ck: "account_checks ?a" using m p(1) st by (auto simp: mirrors_def account_checks_def health_ok_def)
  then have row: "probe_snapshot_row t l status code (columns_of h') a = Inr ?a"
    using n e by (simp add: probe_snapshot_row_def checked_row_def columns_of_def)
  have "mirrors ?a h'"
  proof (rule mirrorsI)
    show "aligned ?a" using m p(1) t by (simp add: mirrors_def aligned_def health_ok_def)
    show "sample_ok (acc_health_avg_latency_ms ?a)" "sample_ok (h_avg_latency_ms h')"
      using p(1) by (simp_all add: health_ok_def)
    show "h' = \<lparr>h_status = acc_health_status ?a, h_reason = acc_health_reason ?a,
     h_penalty = acc_health_penalty ?a, h_consecutive_failures = acc_health_consecutive_failures ?a,
     h_success_count = acc_health_success_count ?a, h_failure_count = acc_health_failure_count ?a,
     h_avg_latency_ms = h_avg_latency_ms h', h_last_success_at = acc_health_last_success_at ?a,
     h_last_failure_at = acc_health_last_failure_at ?a, h_updated_at = acc_health_updated_at ?a,
     h_generation = acc_health_generation ?a,
     h_configuration_updated_at = Some (acc_upstream_config_version ?a)\<rparr>"
      using p(2-4) e n by (cases h') (simp add: i64_sat_inc_def int8_def)
  qed (rule ck)
  with row show ?thesis by simp
qed

end
