(* ===== verification/Health_Store.thy ===== *)
theory Health_Store
  imports Account_Health
begin

text \<open>
  The account health store and its write-behind persistence
  (\<open>crates/keycompute-routing/src/provider_health.rs\<close>, \<open>ProviderHealthStore\<close>): live requests
  and probes change a local snapshot and queue an event, and a worker applies the queued
  events to the account rows in order. The concurrent maps are maps, the queue of an account
  a list with its front first, the event counter a 64-bit word; clock readings are arguments.
\<close>

section \<open>State\<close>

datatype pending_event =
    Pe_Success (pe_id: u64) (pe_generation: int) (pe_config: "datetime option") (pe_latency: int)
      (pe_occurred: datetime)
  | Pe_Failure (pe_id: u64) (pe_generation: int) (pe_config: "datetime option") (pe_reason: string)
      (pe_hard: bool) (pe_occurred: datetime)
  | Pe_Probe (pe_id: u64) (pe_expected_updated: datetime) (pe_expected_health_updated: datetime)
      (pe_expected_generation: int) (pe_probed: datetime) (pe_latency: int) (pe_status: string)
      (pe_error_code: "string option") (pe_health: account_health)

fun event_occurred_at :: "pending_event \<Rightarrow> datetime" where
  "event_occurred_at (Pe_Success _ _ _ _ t) = t"
| "event_occurred_at (Pe_Failure _ _ _ _ _ t) = t"
| "event_occurred_at (Pe_Probe _ _ _ _ probed _ _ _ _) = probed"

fun rebase_generation :: "int \<Rightarrow> pending_event \<Rightarrow> pending_event \<times> bool" where
  "rebase_generation g (Pe_Success i _ c l t) = (Pe_Success i g c l t, True)"
| "rebase_generation g (Pe_Failure i _ c r b t) = (Pe_Failure i g c r b t, True)"
| "rebase_generation g e = (e, False)"

fun is_probe :: "pending_event \<Rightarrow> bool" where
  "is_probe (Pe_Probe _ _ _ _ _ _ _ _ _) = True"
| "is_probe _ = False"

definition max_pending :: nat where "max_pending = 1024"

definition max_ephemeral :: nat where "max_ephemeral = 1024"

record health_store =
  hs_health_map :: "string \<rightharpoonup> provider_health"
  hs_account_health :: "uuid \<rightharpoonup> account_health"
  hs_tracked :: "uuid set"
  hs_account_db :: bool
  hs_pending :: "uuid \<rightharpoonup> pending_event list"
  hs_worker_started :: bool
  hs_next_event :: u64
  hs_fallback_count :: u64

definition health_store_new :: health_store where
  "health_store_new =
     \<lparr>hs_health_map = Map.empty, hs_account_health = Map.empty, hs_tracked = {}, hs_account_db = False,
      hs_pending = Map.empty, hs_worker_started = False, hs_next_event = 1, hs_fallback_count = 0\<rparr>"

text \<open>The stores run inside the server's runtime, where a worker can always be spawned.\<close>

definition start_persistence_worker :: "health_store \<Rightarrow> health_store" where
  "start_persistence_worker st = (if hs_account_db st then st\<lparr>hs_worker_started := True\<rparr> else st)"

definition attach_account_db :: "health_store \<Rightarrow> health_store" where
  "attach_account_db st = start_persistence_worker (st\<lparr>hs_account_db := True\<rparr>)"

section \<open>Reading and hydrating snapshots\<close>

definition account_health_for :: "account \<Rightarrow> health_store \<Rightarrow> account_health" where
  "account_health_for a st =
     (let persisted = postgres_timestamp (acc_health_updated_at a);
          config = postgres_timestamp (acc_upstream_config_version a)
      in case hs_account_health st (acc_id a) of
           None \<Rightarrow> from_account a
         | Some h \<Rightarrow>
             if (persisted < h_updated_at h
                 \<or> h_updated_at h = persisted \<and> acc_health_generation a \<le> h_generation h)
                \<and> (case h_configuration_updated_at h of None \<Rightarrow> True | Some c \<Rightarrow> c = config)
             then h else from_account a)"

definition hydrate_account_health :: "account \<Rightarrow> health_store \<Rightarrow> health_store \<times> account_health" where
  "hydrate_account_health a st0 =
     (let st = st0\<lparr>hs_tracked := insert (acc_id a) (hs_tracked st0)\<rparr>;
          persisted = from_account a;
          put = st\<lparr>hs_account_health := (hs_account_health st)(acc_id a \<mapsto> persisted)\<rparr>
      in case hs_account_health st (acc_id a) of
           None \<Rightarrow> (put, persisted)
         | Some l \<Rightarrow>
             let configuration_changed =
                   (case h_configuration_updated_at l of
                      None \<Rightarrow> False
                    | Some c \<Rightarrow> c \<noteq> postgres_timestamp (acc_upstream_config_version a))
             in if configuration_changed \<or> h_updated_at l < h_updated_at persisted
                   \<or> h_updated_at l = h_updated_at persisted \<and> h_generation l < h_generation persisted
                then (put, persisted) else (st, l))"

definition account_is_routable :: "account \<Rightarrow> health_store \<Rightarrow> bool" where
  "account_is_routable a st \<longleftrightarrow> acc_enabled a \<and> is_routable (account_health_for a st)"

definition account_health_of :: "uuid \<Rightarrow> health_store \<Rightarrow> account_health option" where
  "account_health_of i st = hs_account_health st i"

definition discard_account_health_override :: "uuid \<Rightarrow> health_store \<Rightarrow> health_store" where
  "discard_account_health_override i st = st\<lparr>hs_account_health := (hs_account_health st)(i := None)\<rparr>"

definition forget_account_health :: "uuid \<Rightarrow> health_store \<Rightarrow> health_store" where
  "forget_account_health i st =
     st\<lparr>hs_account_health := (hs_account_health st)(i := None), hs_tracked := hs_tracked st - {i},
        hs_pending := (hs_pending st)(i := None)\<rparr>"

definition discard_account_health_override_if_current :: "uuid \<Rightarrow> datetime \<Rightarrow> health_store \<Rightarrow> health_store" where
  "discard_account_health_override_if_current i updated_at st =
     (case hs_account_health st i of
        Some h \<Rightarrow> if h_updated_at h = updated_at then discard_account_health_override i st else st
      | None \<Rightarrow> st)"

section \<open>The queue of events\<close>

text \<open>\<open>position\<close> and \<open>remove\<close> of the first queued event that is not a probe.\<close>

fun remove_first_runtime :: "pending_event list \<Rightarrow> pending_event list option" where
  "remove_first_runtime [] = None"
| "remove_first_runtime (e # es) =
     (if \<not> is_probe e then Some es else map_option ((#) e) (remove_first_runtime es))"

definition push_event :: "pending_event \<Rightarrow> pending_event list \<Rightarrow> pending_event list" where
  "push_event e es =
     (if max_pending \<le> length es
      then case remove_first_runtime es of Some es' \<Rightarrow> es' @ [e] | None \<Rightarrow> es
      else es @ [e])"

definition enqueue_account_event :: "uuid \<Rightarrow> pending_event \<Rightarrow> health_store \<Rightarrow> health_store" where
  "enqueue_account_event i e st =
     (if \<not> hs_account_db st then st
      else start_persistence_worker
        (st\<lparr>hs_pending := (hs_pending st)(i \<mapsto>
              (case hs_pending st i of None \<Rightarrow> [e] | Some es \<Rightarrow> push_event e es))\<rparr>))"

definition remove_pending_event :: "uuid \<Rightarrow> u64 \<Rightarrow> health_store \<Rightarrow> health_store" where
  "remove_pending_event i event_id st =
     (case hs_pending st i of
        None \<Rightarrow> st
      | Some es \<Rightarrow>
          let es' = (case es of [] \<Rightarrow> [] | e # r \<Rightarrow> if pe_id e = event_id then r else es)
          in st\<lparr>hs_pending := (hs_pending st)(i := (if es' = [] then None else Some es'))\<rparr>)"

definition rebase_pending_runtime_event :: "uuid \<Rightarrow> u64 \<Rightarrow> int \<Rightarrow> health_store \<Rightarrow> health_store \<times> bool" where
  "rebase_pending_runtime_event i event_id generation st =
     (case hs_pending st i of
        Some (e # es) \<Rightarrow>
          if pe_id e \<noteq> event_id then (st, False)
          else let (e', ok) = rebase_generation generation e
               in (st\<lparr>hs_pending := (hs_pending st)(i \<mapsto> e' # es)\<rparr>, ok)
      | _ \<Rightarrow> (st, False))"

definition retain_pending :: "(pending_event \<Rightarrow> bool) \<Rightarrow> uuid \<Rightarrow> health_store \<Rightarrow> health_store" where
  "retain_pending P i st =
     (case hs_pending st i of
        None \<Rightarrow> st
      | Some es \<Rightarrow>
          let es' = filter P es
          in st\<lparr>hs_pending := (hs_pending st)(i := (if es' = [] then None else Some es'))\<rparr>)"

definition remove_pending_events_before :: "uuid \<Rightarrow> datetime \<Rightarrow> health_store \<Rightarrow> health_store" where
  "remove_pending_events_before i cutoff = retain_pending (\<lambda>e. cutoff \<le> event_occurred_at e) i"

definition remove_pending_events_before_id :: "uuid \<Rightarrow> u64 \<Rightarrow> health_store \<Rightarrow> health_store" where
  "remove_pending_events_before_id i boundary = retain_pending (\<lambda>e. boundary \<le> pe_id e) i"

definition reconcile_stale_account_health :: "uuid \<Rightarrow> account_health \<Rightarrow> health_store \<Rightarrow> health_store" where
  "reconcile_stale_account_health i persisted st =
     (case hs_account_health st i of
        None \<Rightarrow> st
      | Some l \<Rightarrow>
          if h_updated_at l \<le> h_updated_at persisted then discard_account_health_override i st
          else if h_generation l < h_generation persisted
          then st\<lparr>hs_account_health := (hs_account_health st)(i \<mapsto> l\<lparr>h_generation := h_generation persisted\<rparr>)\<rparr>
          else st)"

definition rebase_local_account_health_generation :: "uuid \<Rightarrow> int \<Rightarrow> health_store \<Rightarrow> health_store" where
  "rebase_local_account_health_generation i generation st =
     (case hs_account_health st i of
        Some l \<Rightarrow>
          if h_generation l < generation
          then st\<lparr>hs_account_health := (hs_account_health st)(i \<mapsto> l\<lparr>h_generation := generation\<rparr>)\<rparr> else st
      | None \<Rightarrow> st)"

fun runtime_event_configuration_is_stale :: "pending_event \<Rightarrow> datetime option \<Rightarrow> bool" where
  "runtime_event_configuration_is_stale (Pe_Success _ _ c _ _) current \<longleftrightarrow> c \<noteq> None \<and> c \<noteq> current"
| "runtime_event_configuration_is_stale (Pe_Failure _ _ c _ _ _) current \<longleftrightarrow> c \<noteq> None \<and> c \<noteq> current"
| "runtime_event_configuration_is_stale _ _ \<longleftrightarrow> False"

section \<open>Live requests and probes\<close>

definition bound_ephemeral_health_map :: "uuid \<Rightarrow> health_store \<Rightarrow> health_store" where
  "bound_ephemeral_health_map i st =
     (if hs_account_db st \<or> hs_account_health st i \<noteq> None \<or> card (dom (hs_account_health st)) < max_ephemeral
      then st else st\<lparr>hs_account_health := Map.empty\<rparr>)"

text \<open>\<open>entry(account_id).or_default()\<close>: the snapshot of the entry, created at \<open>now\<close> if absent.\<close>

definition health_entry :: "datetime \<Rightarrow> uuid \<Rightarrow> health_store \<Rightarrow> account_health" where
  "health_entry now i st =
     (case hs_account_health st i of Some h \<Rightarrow> h | None \<Rightarrow> account_health_default now)"

definition put_health :: "uuid \<Rightarrow> account_health \<Rightarrow> health_store \<Rightarrow> health_store" where
  "put_health i h st = st\<lparr>hs_account_health := (hs_account_health st)(i \<mapsto> h)\<rparr>"

definition record_account_success ::
  "datetime \<Rightarrow> datetime \<Rightarrow> uuid \<Rightarrow> u64 \<Rightarrow> health_store \<Rightarrow> health_store" where
  "record_account_success now now' i latency_ms st0 =
     (if hs_account_db st0 \<and> i \<notin> hs_tracked st0 then st0
      else let st = bound_ephemeral_health_map i st0;
               occurred_at = postgres_timestamp now;
               h = health_entry now' i st;
               h' = advance_runtime_timestamp (h_updated_at h) occurred_at
                      (mark_success_at (sint latency_ms) occurred_at h);
               event_id = hs_next_event st
           in enqueue_account_event i
                (Pe_Success event_id (h_generation h) (h_configuration_updated_at h') (sint latency_ms) occurred_at)
                (put_health i h' (st\<lparr>hs_next_event := event_id + 1\<rparr>)))"

definition record_account_failure ::
  "datetime \<Rightarrow> datetime \<Rightarrow> uuid \<Rightarrow> key_compute_error \<Rightarrow> health_store \<Rightarrow> health_store" where
  "record_account_failure now now' i err st0 =
     (case classify_runtime_error err of
        None \<Rightarrow> st0
      | Some (reason, hard_failure) \<Rightarrow>
          if hs_account_db st0 \<and> i \<notin> hs_tracked st0 then st0
          else let st = bound_ephemeral_health_map i st0;
                   occurred_at = postgres_timestamp now;
                   h = health_entry now' i st;
                   h' = advance_runtime_timestamp (h_updated_at h) occurred_at
                          (mark_failure_at reason hard_failure occurred_at h);
                   event_id = hs_next_event st
               in enqueue_account_event i
                    (Pe_Failure event_id (h_generation h) (h_configuration_updated_at h') reason hard_failure occurred_at)
                    (put_health i h' (st\<lparr>hs_next_event := event_id + 1\<rparr>)))"

text \<open>The transition of an explicit probe; \<open>now\<close> is the clock reading of \<open>mark_success\<close> or \<open>mark_failure\<close>.\<close>

definition apply_probe :: "datetime \<Rightarrow> bool \<Rightarrow> int \<Rightarrow> string option \<Rightarrow> account_health \<Rightarrow> account_health" where
  "apply_probe now success latency_ms error_code h =
     (let h1 = (if success then mark_success now latency_ms h
                else let (reason, hard_failure) = classify_probe_error error_code
                     in mark_failure now reason hard_failure h)
      in h1\<lparr>h_updated_at := max (h_updated_at h) (h_updated_at h1),
            h_generation := i64_sat_inc (h_generation h1)\<rparr>)"

definition record_account_probe ::
  "datetime \<Rightarrow> datetime \<Rightarrow> uuid \<Rightarrow> bool \<Rightarrow> int \<Rightarrow> string option \<Rightarrow> health_store \<Rightarrow> health_store \<times> account_health" where
  "record_account_probe now now' i success latency_ms error_code st0 =
     (let st = (if hs_account_db st0 then st0\<lparr>hs_tracked := insert i (hs_tracked st0)\<rparr> else st0);
          h' = apply_probe now success latency_ms error_code (health_entry now' i st)
      in (put_health i h' st, h'))"

definition record_account_probe_if_current ::
  "datetime \<Rightarrow> uuid \<Rightarrow> datetime \<Rightarrow> bool \<Rightarrow> int \<Rightarrow> string option \<Rightarrow> health_store
     \<Rightarrow> health_store \<times> account_health option" where
  "record_account_probe_if_current now i expected_updated_at success latency_ms error_code st =
     (case hs_account_health st i of
        None \<Rightarrow> (st, None)
      | Some h \<Rightarrow>
          if h_updated_at h \<noteq> postgres_timestamp expected_updated_at then (st, None)
          else let h' = apply_probe now success latency_ms error_code h in (put_health i h' st, Some h'))"

definition record_account_probe_if_current_and_enqueue ::
  "uuid \<Rightarrow> datetime \<Rightarrow> datetime \<Rightarrow> int \<Rightarrow> datetime \<Rightarrow> int \<Rightarrow> string \<Rightarrow> string option \<Rightarrow> bool \<Rightarrow> health_store
     \<Rightarrow> health_store \<times> account_health option" where
  "record_account_probe_if_current_and_enqueue i expected_updated expected_health_updated expected_generation
     probed latency_ms status error_code success st =
     (let expected_updated_at = postgres_timestamp expected_updated;
          expected_health_updated_at = postgres_timestamp expected_health_updated;
          probed_at = postgres_timestamp probed
      in case hs_account_health st i of
           None \<Rightarrow> (st, None)
         | Some h \<Rightarrow>
             if h_updated_at h \<noteq> expected_health_updated_at \<or> h_generation h \<noteq> expected_generation
             then (st, None)
             else let h' = probe_transition success latency_ms error_code probed_at h;
                      event_id = hs_next_event st
                  in (enqueue_account_event i
                        (Pe_Probe event_id expected_updated_at expected_health_updated_at expected_generation
                           probed_at latency_ms status error_code h')
                        (put_health i h' (st\<lparr>hs_next_event := event_id + 1\<rparr>)), Some h'))"

section \<open>Persistence worker\<close>

text \<open>The statement the worker runs for one event.\<close>

fun persist_event :: "uuid \<Rightarrow> pending_event \<Rightarrow> account list \<Rightarrow> (account list \<times> bool) db_result" where
  "persist_event i (Pe_Success _ g _ l t) tbl = record_runtime_success i g l t tbl"
| "persist_event i (Pe_Failure _ g _ r b t) tbl = record_runtime_failure i g r b t tbl"
| "persist_event i (Pe_Probe _ u hu g p l s c h) tbl =
     record_probe_snapshot_if_config_current i u hu g p l s c (columns_of h) tbl"

text \<open>
  The worker's treatment of one account: the statement of its front event, and what follows a
  lost compare-and-swap. \<open>fault\<close> and \<open>fault'\<close> are connection failures of the statement and of
  the reload. The Boolean of the result is \<open>retry_after_error\<close>.
\<close>

definition worker_step ::
  "bool \<Rightarrow> bool \<Rightarrow> uuid \<Rightarrow> health_store \<Rightarrow> account list \<Rightarrow> health_store \<times> account list \<times> bool" where
  "worker_step fault fault' i st tbl =
     (case hs_pending st i of
        Some (e # es) \<Rightarrow>
          (case (if fault then Inl (Db_Other ''connection'') else persist_event i e tbl) of
             Inl err \<Rightarrow> (st, tbl, True)
           | Inr (tbl', True) \<Rightarrow> (remove_pending_event i (pe_id e) st, tbl', False)
           | Inr (tbl', False) \<Rightarrow>
               if is_probe e
               then (remove_pending_event i (pe_id e)
                       (discard_account_health_override_if_current i (h_updated_at (pe_health e)) st), tbl', False)
               else if fault' then (st, tbl', True)
               else case find_by_id_for_key_share_any_tenant i tbl' of
                 None \<Rightarrow>
                   (let st' = remove_pending_event i (pe_id e) st
                    in (st'\<lparr>hs_account_health := (hs_account_health st')(i := None),
                           hs_tracked := hs_tracked st' - {i}\<rparr>, tbl', False))
               | Some a \<Rightarrow>
                   let current = from_account a
                   in if runtime_event_configuration_is_stale e (h_configuration_updated_at current)
                      then (remove_pending_event i (pe_id e) (put_health i current st), tbl', False)
                      else if event_occurred_at e \<le> h_updated_at current
                      then (remove_pending_event i (pe_id e) (reconcile_stale_account_health i current st),
                            tbl', False)
                      else let (st', ok) = rebase_pending_runtime_event i (pe_id e) (h_generation current) st
                           in if ok
                              then (rebase_local_account_health_generation i (h_generation current) st', tbl', True)
                              else (st', tbl', False))
      | _ \<Rightarrow> (st, tbl, False))"

section \<open>Administrator resets\<close>

definition fence_pending :: "u64 \<Rightarrow> datetime \<Rightarrow> uuid \<Rightarrow> health_store \<Rightarrow> health_store" where
  "fence_pending boundary completed_at i st =
     remove_pending_events_before i completed_at (remove_pending_events_before_id i boundary st)"

text \<open>\<open>now\<close> is the clock of the store, \<open>db_now\<close> the clock of the database.\<close>

definition reset_account_health ::
  "datetime \<Rightarrow> datetime \<Rightarrow> uuid \<Rightarrow> health_store \<Rightarrow> account list \<Rightarrow> (health_store \<times> account list) db_result" where
  "reset_account_health now db_now i st tbl =
     (let boundary = hs_next_event st
      in if \<not> hs_account_db st
         then Inr (fence_pending boundary (postgres_timestamp now) i (discard_account_health_override i st), tbl)
         else case reset_health_snapshot db_now i tbl of
                Inl e \<Rightarrow> Inl e
              | Inr (tbl', Some a) \<Rightarrow>
                  let h = from_account a;
                      st' = put_health i h st
                  in Inr (fence_pending boundary (h_updated_at h) i
                            (st'\<lparr>hs_tracked := insert i (hs_tracked st')\<rparr>), tbl')
              | Inr (tbl', None) \<Rightarrow> Inr (forget_account_health i st, tbl'))"

text \<open>The queues are fenced one account after the other; \<open>ids\<close> lists the accounts with a queue.\<close>

definition reset_all_account_health ::
  "datetime \<Rightarrow> datetime \<Rightarrow> uuid list \<Rightarrow> health_store \<Rightarrow> account list \<Rightarrow> (health_store \<times> account list) db_result" where
  "reset_all_account_health now db_now ids st tbl =
     (let boundary = hs_next_event st
      in if \<not> hs_account_db st
         then Inr (fold (fence_pending boundary (postgres_timestamp now)) ids
                     (st\<lparr>hs_account_health := Map.empty\<rparr>), tbl)
         else case reset_all_health_snapshot db_now tbl of
                Inl e \<Rightarrow> Inl e
              | Inr (tbl', rows) \<Rightarrow>
                  let completed_at = (case map acc_health_updated_at rows of
                                        [] \<Rightarrow> postgres_timestamp now | u # us \<Rightarrow> fold max us u);
                      st1 = st\<lparr>hs_account_health := Map.empty, hs_tracked := {}\<rparr>;
                      st2 = fold (\<lambda>a s. put_health (acc_id a) (from_account a)
                                    (s\<lparr>hs_tracked := insert (acc_id a) (hs_tracked s)\<rparr>)) rows st1
                  in Inr (fold (fence_pending boundary completed_at) ids st2, tbl'))"

section \<open>Protocol diagnostics\<close>

definition store_record_success :: "instant \<Rightarrow> instant \<Rightarrow> instant \<Rightarrow> string \<Rightarrow> u64 \<Rightarrow> health_store \<Rightarrow> health_store" where
  "store_record_success now0 now now' provider latency_ms st =
     (let p = (case hs_health_map st provider of Some p \<Rightarrow> p | None \<Rightarrow> provider_health_new now0 provider)
      in st\<lparr>hs_health_map := (hs_health_map st)(provider \<mapsto> provider_record_success now now' latency_ms p)\<rparr>)"

definition store_record_failure :: "instant \<Rightarrow> instant \<Rightarrow> instant \<Rightarrow> string \<Rightarrow> health_store \<Rightarrow> health_store" where
  "store_record_failure now0 now now' provider st =
     (let p = (case hs_health_map st provider of Some p \<Rightarrow> p | None \<Rightarrow> provider_health_new now0 provider)
      in st\<lparr>hs_health_map := (hs_health_map st)(provider \<mapsto> provider_record_failure now now' p)\<rparr>)"

definition is_healthy :: "string \<Rightarrow> health_store \<Rightarrow> bool" where
  "is_healthy provider st = (case hs_health_map st provider of Some p \<Rightarrow> ph_healthy p | None \<Rightarrow> True)"

definition healthy_providers :: "string list \<Rightarrow> health_store \<Rightarrow> string list" where
  "healthy_providers providers st = filter (\<lambda>p. is_healthy p st) providers"

definition get_score :: "string \<Rightarrow> health_store \<Rightarrow> u64" where
  "get_score provider st = (case hs_health_map st provider of Some p \<Rightarrow> health_score p | None \<Rightarrow> 50)"

definition update_health :: "string \<Rightarrow> provider_health \<Rightarrow> health_store \<Rightarrow> health_store" where
  "update_health provider p st = st\<lparr>hs_health_map := (hs_health_map st)(provider \<mapsto> p)\<rparr>"

definition reset_stats :: "string \<Rightarrow> health_store \<Rightarrow> health_store" where
  "reset_stats provider st = st\<lparr>hs_health_map := (hs_health_map st)(provider := None)\<rparr>"

definition cleanup_stale :: "instant \<Rightarrow> duration \<Rightarrow> health_store \<Rightarrow> health_store" where
  "cleanup_stale now max_age st =
     st\<lparr>hs_health_map := (\<lambda>k. case hs_health_map st k of
          Some p \<Rightarrow> if now - ph_last_updated p < max_age then Some p else None | None \<Rightarrow> None)\<rparr>"

definition record_fallback :: "health_store \<Rightarrow> health_store" where
  "record_fallback st = st\<lparr>hs_fallback_count := hs_fallback_count st + 1\<rparr>"

definition reset_fallback_count :: "health_store \<Rightarrow> health_store" where
  "reset_fallback_count st = st\<lparr>hs_fallback_count := 0\<rparr>"

end
