(* ===== verification/Health_Sync.thy ===== *)
theory Health_Sync
  imports Health_Store
begin

text \<open>
  Correctness of the account health store: the queued events replay to the local snapshot
  (a write-behind contract, interpreted on the store's own events and rows), the backlog is
  bounded and ordered, quarantine follows the failure thresholds, and a reset fences every
  earlier event.
\<close>

section \<open>The write-behind contract\<close>

primrec replay :: "('e \<Rightarrow> 'r \<Rightarrow> 'r option) \<Rightarrow> 'e list \<Rightarrow> 'r \<Rightarrow> 'r option" where
  "replay exec [] r = Some r"
| "replay exec (e # es) r = (case exec e r of None \<Rightarrow> None | Some r' \<Rightarrow> replay exec es r')"

lemma replay_append: "replay exec (es @ es') r = Option.bind (replay exec es r) (replay exec es')"
  by (induction es arbitrary: r) (simp_all split: option.split)

text \<open>
  A local value changes by transitions that each emit one event, and an event executed on a row
  that agrees with the local value before the transition gives one that agrees after it.
\<close>

locale write_behind =
  fixes exec :: "'e \<Rightarrow> 'r \<Rightarrow> 'r option"
    and agree :: "'r \<Rightarrow> 'h \<Rightarrow> bool"
    and emits :: "'h \<Rightarrow> 'e \<Rightarrow> 'h \<Rightarrow> bool"
  assumes emit_agrees: "agree r h \<Longrightarrow> emits h e h' \<Longrightarrow> \<exists>r'. exec e r = Some r' \<and> agree r' h'"
begin

definition synced :: "'r \<Rightarrow> 'e list \<Rightarrow> 'h \<Rightarrow> bool" where
  "synced r es h \<longleftrightarrow> (\<exists>r'. replay exec es r = Some r' \<and> agree r' h)"

lemma synced_Nil: "synced r [] h \<longleftrightarrow> agree r h"
  by (simp add: synced_def)

lemma synced_emit: "synced r es h \<Longrightarrow> emits h e h' \<Longrightarrow> synced r (es @ [e]) h'"
  using emit_agrees by (fastforce simp: synced_def replay_append)

lemma synced_drain: "synced r (e # es) h \<Longrightarrow> \<exists>r'. exec e r = Some r' \<and> synced r' es h"
  by (auto simp: synced_def split: option.splits)

lemma synced_drain_all: "synced r es h \<Longrightarrow> \<exists>r'. replay exec es r = Some r' \<and> agree r' h"
  by (simp add: synced_def)

end

text \<open>The statement of an event on the row of its account, when its condition holds there.\<close>

fun event_row :: "pending_event \<Rightarrow> account \<Rightarrow> account option" where
  "event_row (Pe_Success _ g _ l t) a =
     (if acc_health_generation a = g
      then case runtime_success_row l t a of Inl _ \<Rightarrow> None | Inr a' \<Rightarrow> Some a' else None)"
| "event_row (Pe_Failure _ g _ r b t) a =
     (if acc_health_generation a = g
      then case runtime_failure_row r b t a of Inl _ \<Rightarrow> None | Inr a' \<Rightarrow> Some a' else None)"
| "event_row (Pe_Probe _ u hu g p l s c h) a =
     (if acc_upstream_config_version a = u \<and> acc_health_updated_at a = hu \<and> acc_health_generation a = g
      then case probe_snapshot_row p l s c (columns_of h) a of Inl _ \<Rightarrow> None | Inr a' \<Rightarrow> Some a' else None)"

text \<open>
  The transitions of the store that emit an event, for plausible latencies and counters
  within their ranges.
\<close>

fun emits_event :: "account_health \<Rightarrow> pending_event \<Rightarrow> account_health \<Rightarrow> bool" where
  "emits_event h (Pe_Success _ g c l t) h' \<longleftrightarrow>
     g = h_generation h \<and> on_microsecond t \<and> 0 \<le> l \<and> l < 2 ^ 50 \<and> int8 (h_success_count h + 1)
     \<and> h' = live_success l t h"
| "emits_event h (Pe_Failure _ g c r b t) h' \<longleftrightarrow>
     g = h_generation h \<and> on_microsecond t \<and> int8 (h_failure_count h + 1)
     \<and> int4 (h_consecutive_failures h + 1) \<and> h' = live_failure r b t h"
| "emits_event h (Pe_Probe _ u hu g p l s c snapshot) h' \<longleftrightarrow>
     h_configuration_updated_at h = Some u \<and> h_updated_at h = hu \<and> h_generation h = g
     \<and> on_microsecond p \<and> 0 \<le> l \<and> l < 2 ^ 50 \<and> int8 (h_generation h + 1)
     \<and> (s = ''succeeded'' \<or> s = ''failed'') \<and> snapshot = h'
     \<and> (\<exists>success. h' = probe_transition success l c p h)"

interpretation health_mirror: write_behind event_row mirrors emits_event
proof
  fix a h e h'
  assume m: "mirrors a h" and e: "emits_event h e h'"
  note sel = mirrors_sel [OF m]
  show "\<exists>a'. event_row e a = Some a' \<and> mirrors a' h'"
  proof (cases e)
    case (Pe_Success i g c l t)
    then show ?thesis using e sel mirror_success [OF m, of t l] by fastforce
  next
    case (Pe_Failure i g c r b t)
    then show ?thesis using e sel mirror_failure [OF m, of t r b] by fastforce
  next
    case (Pe_Probe i u hu g p l s c snap)
    then obtain success where "h' = probe_transition success l c p h" using e by auto
    then show ?thesis using Pe_Probe e sel mirror_probe [OF m, of p l s c success] by fastforce
  qed
qed

section \<open>The store and the table\<close>

definition queue_of :: "health_store \<Rightarrow> uuid \<Rightarrow> pending_event list" where
  "queue_of st i = (case hs_pending st i of None \<Rightarrow> [] | Some es \<Rightarrow> es)"

text \<open>
  The store and the table are in step at an account: replaying the account's queue on its row
  gives a row that mirrors the local snapshot.
\<close>

definition store_synced :: "health_store \<Rightarrow> account list \<Rightarrow> uuid \<Rightarrow> bool" where
  "store_synced st tbl i \<longleftrightarrow>
     hs_account_db st \<and> i \<in> hs_tracked st \<and> distinct (map acc_id tbl)
     \<and> (\<exists>a h. account_find_by_id i tbl = Some a \<and> hs_account_health st i = Some h
              \<and> (\<exists>a'. replay event_row (queue_of st i) a = Some a' \<and> mirrors a' h))"

lemma event_row_id: "event_row e a = Some a' \<Longrightarrow> acc_id a' = acc_id a"
  by (cases e) (auto simp: runtime_success_row_def runtime_failure_row_def probe_snapshot_row_def
      checked_row_def Let_def split: if_splits sum.splits)

definition set_row :: "uuid \<Rightarrow> account \<Rightarrow> account list \<Rightarrow> account list" where
  "set_row i a tbl = map (\<lambda>b. if acc_id b = i then a else b) tbl"

lemma find_set_row:
  "acc_id a = i \<Longrightarrow> account_find_by_id j (set_row i a tbl)
     = (if j = i then map_option (\<lambda>_. a) (account_find_by_id i tbl) else account_find_by_id j tbl)"
  by (induction tbl) (auto simp: account_find_by_id_def set_row_def)

lemma set_row_ids: "acc_id a = i \<Longrightarrow> map acc_id (set_row i a tbl) = map acc_id tbl"
  by (induction tbl) (auto simp: set_row_def)

lemma find_by_id_acc_id: "account_find_by_id i tbl = Some a \<Longrightarrow> acc_id a = i"
  by (auto simp: account_find_by_id_def find_Some_iff)

text \<open>A queued event whose condition holds at the row is persisted, and touches no other row.\<close>

lemma persist_event_row:
  assumes "distinct (map acc_id tbl)" "account_find_by_id i tbl = Some a" "event_row e a = Some a'"
  shows "persist_event i e tbl = Inr (set_row i a' tbl, True)"
  using assms(3)
  by (cases e) (auto simp: record_runtime_success_def record_runtime_failure_def
      record_probe_snapshot_if_config_current_def sql_update_keyed [OF assms(1,2)] one_row_def
      set_row_def split: if_splits sum.splits)

lemma store_synced_persist:
  assumes "store_synced st tbl i" "hs_pending st i = Some (e # es)"
  shows "\<exists>a'. worker_step False fault' i st tbl
       = (remove_pending_event i (pe_id e) st, set_row i a' tbl, False)
     \<and> acc_id a' = i \<and> store_synced (remove_pending_event i (pe_id e) st) (set_row i a' tbl) i"
proof -
  from assms obtain a h a' where a: "account_find_by_id i tbl = Some a" "hs_account_health st i = Some h"
      "replay event_row (e # es) a = Some a'" "mirrors a' h" "distinct (map acc_id tbl)"
    by (auto simp: store_synced_def queue_of_def)
  then obtain b where b: "event_row e a = Some b" "replay event_row es b = Some a'"
    by (auto split: option.splits)
  have i: "acc_id b = i" using event_row_id [OF b(1)] find_by_id_acc_id [OF a(1)] by simp
  have q: "queue_of (remove_pending_event i (pe_id e) st) i = es"
    using assms(2) by (simp add: queue_of_def remove_pending_event_def Let_def)
  have "store_synced (remove_pending_event i (pe_id e) st) (set_row i b tbl) i"
    using assms a b i q
    by (auto simp: store_synced_def find_set_row set_row_ids remove_pending_event_def Let_def)
  then show ?thesis
    using assms(2) persist_event_row [OF a(5,1) b(1)] i by (auto simp: worker_step_def)
qed

lemma push_event_short: "length es < max_pending \<Longrightarrow> push_event e es = es @ [e]"
  by (simp add: push_event_def)

lemma queue_of_enqueue:
  assumes "hs_account_db st" "length (queue_of st i) < max_pending"
  shows "queue_of (enqueue_account_event i e st) i = queue_of st i @ [e]"
  using assms by (auto simp: queue_of_def enqueue_account_event_def start_persistence_worker_def
      push_event_short split: option.splits)

lemma enqueue_frame [simp]:
  "hs_account_health (enqueue_account_event i e st) = hs_account_health st"
  "hs_tracked (enqueue_account_event i e st) = hs_tracked st"
  "hs_account_db (enqueue_account_event i e st) = hs_account_db st"
  "hs_next_event (enqueue_account_event i e st) = hs_next_event st"
  by (simp_all add: enqueue_account_event_def start_persistence_worker_def)

lemma bound_ephemeral_db [simp]: "hs_account_db st \<Longrightarrow> bound_ephemeral_health_map i st = st"
  by (simp add: bound_ephemeral_health_map_def)

text \<open>Publishing a transition: the new snapshot and its event keep the store in step.\<close>

lemma store_synced_publish:
  assumes s: "store_synced st tbl i" and h: "hs_account_health st i = Some h"
    and e: "emits_event h e h'" and room: "length (queue_of st i) < max_pending"
  shows "store_synced (enqueue_account_event i e (put_health i h' (st\<lparr>hs_next_event := n\<rparr>))) tbl i"
proof -
  let ?st = "put_health i h' (st\<lparr>hs_next_event := n\<rparr>)"
  have q: "queue_of ?st i = queue_of st i" by (simp add: queue_of_def put_health_def)
  obtain a a' where a: "account_find_by_id i tbl = Some a" "replay event_row (queue_of st i) a = Some a'"
      "mirrors a' h" using s h by (auto simp: store_synced_def)
  then have "health_mirror.synced a (queue_of st i) h" by (auto simp: health_mirror.synced_def)
  from health_mirror.synced_emit [OF this e]
  have "\<exists>b. replay event_row (queue_of st i @ [e]) a = Some b \<and> mirrors b h'"
    by (simp add: health_mirror.synced_def)
  moreover have "queue_of (enqueue_account_event i e ?st) i = queue_of st i @ [e]"
    using s room q by (subst queue_of_enqueue) (simp_all add: store_synced_def put_health_def)
  ultimately show ?thesis using s a(1) by (simp add: store_synced_def put_health_def)
qed

section \<open>Sequences of operations on one account\<close>

datatype health_op =
    Live_Success datetime u64
  | Live_Failure datetime key_compute_error
  | Probe_Done datetime datetime int datetime int string "string option" bool
  | Hydrate
  | Persist bool

text \<open>
  One operation on the account: a finished live request, a finished probe with the versions it
  observed when it started, routing hydrating the snapshot from the row it loaded, or one run
  of the worker (with or without a connection failure).
\<close>

fun health_step :: "uuid \<Rightarrow> health_op \<Rightarrow> health_store \<times> account list \<Rightarrow> health_store \<times> account list" where
  "health_step i (Live_Success now l) (st, tbl) = (record_account_success now now i l st, tbl)"
| "health_step i (Live_Failure now err) (st, tbl) = (record_account_failure now now i err st, tbl)"
| "health_step i (Probe_Done u hu g p l s c ok) (st, tbl) =
     (fst (record_account_probe_if_current_and_enqueue i u hu g p l s c ok st), tbl)"
| "health_step i Hydrate (st, tbl) =
     (case account_find_by_id i tbl of
        None \<Rightarrow> (st, tbl) | Some a \<Rightarrow> (fst (hydrate_account_health a st), tbl))"
| "health_step i (Persist fault) (st, tbl) =
     (case worker_step fault False i st tbl of (st', tbl', _) \<Rightarrow> (st', tbl'))"

text \<open>
  The side conditions of an operation that records an event: the backlog is below its bound (at the bound
  \<open>push_event\<close> gives up the oldest live result), the latency is below \<open>2 ^ 50\<close> milliseconds, the counters it
  increments stay within their columns, and a probe ran with the configuration the snapshot carries, which the
  store does not check. A failure that says nothing about the upstream and a probe that was overtaken record
  nothing and have no condition.
\<close>

fun health_op_ok :: "uuid \<Rightarrow> health_op \<Rightarrow> health_store \<Rightarrow> bool" where
  "health_op_ok i (Live_Success now l) st \<longleftrightarrow>
     length (queue_of st i) < max_pending \<and> 0 \<le> sint l \<and> sint l < 2 ^ 50
     \<and> (case hs_account_health st i of None \<Rightarrow> False | Some h \<Rightarrow> int8 (h_success_count h + 1))"
| "health_op_ok i (Live_Failure now err) st \<longleftrightarrow>
     classify_runtime_error err = None
     \<or> length (queue_of st i) < max_pending
     \<and> (case hs_account_health st i of None \<Rightarrow> False
        | Some h \<Rightarrow> int8 (h_failure_count h + 1) \<and> int4 (h_consecutive_failures h + 1))"
| "health_op_ok i (Probe_Done u hu g p l s c ok) st \<longleftrightarrow>
     (case hs_account_health st i of None \<Rightarrow> True
      | Some h \<Rightarrow>
          h_updated_at h \<noteq> postgres_timestamp hu \<or> h_generation h \<noteq> g
          \<or> length (queue_of st i) < max_pending \<and> 0 \<le> l \<and> l < 2 ^ 50 \<and> (s = ''succeeded'' \<or> s = ''failed'')
          \<and> h_configuration_updated_at h = Some (postgres_timestamp u) \<and> int8 (h_generation h + 1))"
| "health_op_ok i Hydrate st \<longleftrightarrow> True"
| "health_op_ok i (Persist fault) st \<longleftrightarrow> True"

fun health_run :: "uuid \<Rightarrow> health_op list \<Rightarrow> health_store \<times> account list \<Rightarrow> health_store \<times> account list" where
  "health_run i [] s = s"
| "health_run i (op # ops) s = health_run i ops (health_step i op s)"

fun health_run_ok :: "uuid \<Rightarrow> health_op list \<Rightarrow> health_store \<times> account list \<Rightarrow> bool" where
  "health_run_ok i [] s \<longleftrightarrow> True"
| "health_run_ok i (op # ops) s \<longleftrightarrow> health_op_ok i op (fst s) \<and> health_run_ok i ops (health_step i op s)"

lemma record_success_publishes:
  assumes "hs_account_db st" "i \<in> hs_tracked st" "hs_account_health st i = Some h"
  shows "record_account_success now now' i l st =
     enqueue_account_event i
       (Pe_Success (hs_next_event st) (h_generation h)
          (h_configuration_updated_at (live_success (sint l) (postgres_timestamp now) h)) (sint l)
          (postgres_timestamp now))
       (put_health i (live_success (sint l) (postgres_timestamp now) h) (st\<lparr>hs_next_event := hs_next_event st + 1\<rparr>))"
  using assms by (simp add: record_account_success_def health_entry_def Let_def live_success_def)

lemma record_failure_publishes:
  assumes "hs_account_db st" "i \<in> hs_tracked st" "hs_account_health st i = Some h"
    and "classify_runtime_error err = Some (r, b)"
  shows "record_account_failure now now' i err st =
     enqueue_account_event i
       (Pe_Failure (hs_next_event st) (h_generation h)
          (h_configuration_updated_at (live_failure r b (postgres_timestamp now) h)) r b
          (postgres_timestamp now))
       (put_health i (live_failure r b (postgres_timestamp now) h) (st\<lparr>hs_next_event := hs_next_event st + 1\<rparr>))"
  using assms by (simp add: record_account_failure_def health_entry_def Let_def live_failure_def)

text \<open>
  Hydration does not disturb a store in step: every queued event makes its row newer, so the
  local snapshot is at least as new as the row.
\<close>

definition row_older :: "account \<Rightarrow> account \<Rightarrow> bool" where
  "row_older a b \<longleftrightarrow> acc_upstream_config_version b = acc_upstream_config_version a
     \<and> (acc_health_updated_at a < acc_health_updated_at b
        \<or> acc_health_updated_at a = acc_health_updated_at b \<and> acc_health_generation a \<le> acc_health_generation b)
     \<and> (aligned b \<longrightarrow> on_microsecond (acc_upstream_config_version a))"

lemma row_older_refl: "row_older a a" by (simp add: row_older_def aligned_def)

lemma runtime_row_versions:
  "runtime_success_row l t a = Inr b \<or> runtime_failure_row r hard t a = Inr b \<Longrightarrow>
     acc_upstream_config_version b = acc_upstream_config_version a
     \<and> acc_health_updated_at b = max (acc_health_updated_at a) t + microsecond"
  by (auto simp: runtime_success_row_def runtime_failure_row_def checked_row_def Let_def
      split: if_splits sum.splits)

lemma probe_row_versions:
  "probe_snapshot_row p l s c h a = Inr b \<Longrightarrow>
     acc_upstream_config_version b = acc_upstream_config_version a
     \<and> acc_health_updated_at b = max (acc_health_updated_at a) p
     \<and> acc_health_generation b = acc_health_generation a + 1"
  by (auto simp: probe_snapshot_row_def checked_row_def split: if_splits)

lemma row_olderI:
  assumes "acc_upstream_config_version b = acc_upstream_config_version a"
    and "acc_health_updated_at a < acc_health_updated_at b
      \<or> acc_health_updated_at a \<le> acc_health_updated_at b \<and> acc_health_generation a \<le> acc_health_generation b"
  shows "row_older a b"
  using assms by (auto simp: row_older_def aligned_def)

lemma event_row_newer:
  assumes "event_row e a = Some b"
  shows "row_older a b"
proof (cases e)
  case (Pe_Success i g c l t)
  then have "runtime_success_row l t a = Inr b" using assms by (simp split: if_splits sum.splits)
  from runtime_row_versions [OF disjI1, OF this] show ?thesis
    by (intro row_olderI) (simp_all add: microsecond_def max_def)
next
  case (Pe_Failure i g c r hard t)
  then have "runtime_failure_row r hard t a = Inr b" using assms by (simp split: if_splits sum.splits)
  from runtime_row_versions [OF disjI2, OF this] show ?thesis
    by (intro row_olderI) (simp_all add: microsecond_def max_def)
next
  case (Pe_Probe i u hu g p l st c h)
  then have "probe_snapshot_row p l st c (columns_of h) a = Inr b" using assms by (simp split: if_splits sum.splits)
  from probe_row_versions [OF this] show ?thesis by (intro row_olderI) simp_all
qed

lemma replay_newer: "replay event_row es a = Some b \<Longrightarrow> row_older a b"
proof (induction es arbitrary: a)
  case (Cons e es)
  then obtain c where "event_row e a = Some c" "replay event_row es c = Some b" by (auto split: option.splits)
  then have "row_older a c" "row_older c b" using event_row_newer Cons.IH by auto
  then show ?case by (auto simp: row_older_def)
qed (simp add: row_older_refl)

lemma timestamp_le: "postgres_timestamp t \<le> t"
  by (simp add: postgres_timestamp_def microsecond_def)

lemma hydrate_synced:
  assumes "store_synced st tbl i" "account_find_by_id i tbl = Some a"
  shows "fst (hydrate_account_health a st) = st"
proof -
  obtain h b where h: "hs_account_health st i = Some h" "replay event_row (queue_of st i) a = Some b" "mirrors b h"
    and t: "i \<in> hs_tracked st" using assms by (auto simp: store_synced_def)
  have i: "acc_id a = i" using assms(2) by (rule find_by_id_acc_id)
  have older: "row_older a b" using h(2) by (rule replay_newer)
  note sel = mirrors_sel [OF h(3)]
  have "aligned b" using h(3) by (simp add: mirrors_def)
  with older have c: "postgres_timestamp (acc_upstream_config_version a) = acc_upstream_config_version b"
    by (simp add: row_older_def)
  have "\<not> (h_updated_at h < h_updated_at (from_account a)
      \<or> h_updated_at h = h_updated_at (from_account a) \<and> h_generation h < h_generation (from_account a))"
    using older sel(9,10) timestamp_le [of "acc_health_updated_at a"]
    unfolding row_older_def from_account_def account_health.simps by linarith
  then show ?thesis
    using h(1) i t sel(11) c by (auto simp: hydrate_account_health_def Let_def insert_absorb)
qed

lemma health_step_synced:
  assumes s: "store_synced st tbl i" and ok: "health_op_ok i op st"
  shows "store_synced (fst (health_step i op (st, tbl))) (snd (health_step i op (st, tbl))) i"
proof -
  obtain h where h: "hs_account_health st i = Some h" and db: "hs_account_db st" "i \<in> hs_tracked st"
    using s by (auto simp: store_synced_def)
  show ?thesis
  proof (cases op)
    case (Live_Success now l)
    then show ?thesis
      using ok h by (simp add: record_success_publishes [OF db h] store_synced_publish [OF s h])
  next
    case (Live_Failure now err)
    show ?thesis
    proof (cases "classify_runtime_error err")
      case None
      then show ?thesis using Live_Failure s by (simp add: record_account_failure_def)
    next
      case (Some rb)
      obtain r b where "rb = (r, b)" by (cases rb)
      then show ?thesis using Live_Failure Some ok h
        by (simp add: record_failure_publishes [OF db h] store_synced_publish [OF s h])
    qed
  next
    case (Probe_Done u hu g p l st' c okp)
    then show ?thesis
      using ok h s
      by (auto simp: record_account_probe_if_current_and_enqueue_def Let_def
          intro!: store_synced_publish [OF s h])
  next
    case Hydrate
    then show ?thesis using s hydrate_synced [OF s] by (auto split: option.split)
  next
    case (Persist fault)
    show ?thesis
    proof (cases "fault \<or> queue_of st i = []")
      case True
      then have "worker_step fault False i st tbl = (st, tbl, fault \<and> queue_of st i \<noteq> [])"
        by (auto simp: worker_step_def queue_of_def split: option.splits list.splits)
      then show ?thesis using Persist s by simp
    next
      case False
      then obtain e es where "hs_pending st i = Some (e # es)"
        by (cases "hs_pending st i") (auto simp: queue_of_def neq_Nil_conv)
      from store_synced_persist [OF s this, of False] show ?thesis using False Persist by auto
    qed
  qed
qed

lemma health_run_synced:
  "store_synced (fst s) (snd s) i \<Longrightarrow> health_run_ok i ops s
     \<Longrightarrow> store_synced (fst (health_run i ops s)) (snd (health_run i ops s)) i"
proof (induction ops arbitrary: s)
  case (Cons op ops)
  have "store_synced (fst (health_step i op s)) (snd (health_step i op s)) i"
    using health_step_synced [of "fst s" "snd s" i op] Cons.prems by simp
  then show ?case using Cons by simp
qed simp

text \<open>
  Draining: the worker runs until the queue it started with is applied. The local snapshot is
  not touched, and the row it leaves mirrors it.
\<close>

lemma drain_synced:
  assumes "store_synced (fst s) (snd s) i" "length (queue_of (fst s) i) = n"
  shows "queue_of (fst (health_run i (replicate n (Persist False)) s)) i = []
     \<and> hs_account_health (fst (health_run i (replicate n (Persist False)) s)) = hs_account_health (fst s)
     \<and> (\<forall>j. j \<noteq> i \<longrightarrow> account_find_by_id j (snd (health_run i (replicate n (Persist False)) s))
                       = account_find_by_id j (snd s))"
  using assms
proof (induction n arbitrary: s)
  case (Suc n)
  obtain st tbl where s: "s = (st, tbl)" by (cases s)
  from Suc.prems(2) obtain e es where p: "hs_pending st i = Some (e # es)"
    by (cases "hs_pending st i") (auto simp: queue_of_def length_Suc_conv s)
  have sy: "store_synced st tbl i" using Suc.prems(1) s by simp
  from store_synced_persist [OF sy p, of False] obtain a' where
    w: "worker_step False False i st tbl = (remove_pending_event i (pe_id e) st, set_row i a' tbl, False)"
    "acc_id a' = i" "store_synced (remove_pending_event i (pe_id e) st) (set_row i a' tbl) i" by blast
  have q: "queue_of (remove_pending_event i (pe_id e) st) i = es"
    "hs_account_health (remove_pending_event i (pe_id e) st) = hs_account_health st"
    using p by (simp_all add: queue_of_def remove_pending_event_def Let_def)
  have "length (queue_of (remove_pending_event i (pe_id e) st) i) = n"
    using Suc.prems(2) p q(1) by (simp add: queue_of_def s)
  with Suc.IH [of "(remove_pending_event i (pe_id e) st, set_row i a' tbl)"] w q show ?case
    by (simp add: s find_set_row)
qed simp

section \<open>Bounds and order of the backlog\<close>

definition backlog_inv :: "health_store \<Rightarrow> bool" where
  "backlog_inv st \<longleftrightarrow>
     (\<forall>i es. hs_pending st i = Some es \<longrightarrow>
        es \<noteq> [] \<and> length es \<le> max_pending \<and> sorted_wrt (<) (map pe_id es)
        \<and> (\<forall>e \<in> set es. pe_id e < hs_next_event st))"

lemma backlog_invD:
  assumes "backlog_inv st" "hs_pending st i = Some es"
  shows "es \<noteq> []" "length es \<le> max_pending" "sorted_wrt (<) (map pe_id es)"
    "\<And>e. e \<in> set es \<Longrightarrow> pe_id e < hs_next_event st"
  using assms by (auto simp: backlog_inv_def)

text \<open>Removing or rewriting events of one queue in place keeps the invariant.\<close>

lemma backlog_inv_shrink:
  assumes "backlog_inv st" "hs_pending st' = (hs_pending st)(i := q)" "hs_next_event st' = hs_next_event st"
    and "q = None \<or> (\<exists>es es'. hs_pending st i = Some es \<and> q = Some es' \<and> es' \<noteq> []
                        \<and> length es' \<le> length es \<and> sorted_wrt (<) (map pe_id es')
                        \<and> pe_id ` set es' \<subseteq> pe_id ` set es)"
  shows "backlog_inv st'"
  unfolding backlog_inv_def
proof (intro allI impI)
  fix j es
  assume e: "hs_pending st' j = Some es"
  show "es \<noteq> [] \<and> length es \<le> max_pending \<and> sorted_wrt (<) (map pe_id es)
        \<and> (\<forall>e \<in> set es. pe_id e < hs_next_event st')"
  proof (cases "j = i")
    case True
    then obtain es0 where 0: "hs_pending st i = Some es0" "es \<noteq> []" "length es \<le> length es0"
        "sorted_wrt (<) (map pe_id es)" "pe_id ` set es \<subseteq> pe_id ` set es0"
      using assms(2,4) e by auto
    note d = backlog_invD [OF assms(1) 0(1)]
    have "pe_id e < hs_next_event st" if "e \<in> set es" for e
      using that 0(5) d(4) by (metis (no_types, lifting) image_iff subsetD)
    then show ?thesis using 0 d(2) assms(3) by auto
  next
    case False
    then have "hs_pending st j = Some es" using assms(2) e by simp
    from backlog_invD [OF assms(1) this] assms(3) show ?thesis by auto
  qed
qed

lemma backlog_inv_eq:
  "backlog_inv st \<Longrightarrow> hs_pending st' = hs_pending st \<Longrightarrow> hs_next_event st' = hs_next_event st \<Longrightarrow> backlog_inv st'"
  by (simp add: backlog_inv_def)

lemma backlog_remove_event: "backlog_inv st \<Longrightarrow> backlog_inv (remove_pending_event i n st)"
proof (cases "hs_pending st i")
  case (Some es)
  assume inv: "backlog_inv st"
  note d = backlog_invD [OF this Some]
  let ?es = "case es of [] \<Rightarrow> [] | e # r \<Rightarrow> if pe_id e = n then r else es"
  show ?thesis
  proof (rule backlog_inv_shrink [OF inv])
    show "hs_pending (remove_pending_event i n st) = (hs_pending st)(i := (if ?es = [] then None else Some ?es))"
      "hs_next_event (remove_pending_event i n st) = hs_next_event st"
      using Some by (simp_all add: remove_pending_event_def Let_def)
    show "(if ?es = [] then None else Some ?es) = None \<or>
      (\<exists>es0 es'. hs_pending st i = Some es0 \<and> (if ?es = [] then None else Some ?es) = Some es' \<and> es' \<noteq> []
         \<and> length es' \<le> length es0 \<and> sorted_wrt (<) (map pe_id es') \<and> pe_id ` set es' \<subseteq> pe_id ` set es0)"
      using Some d by (auto split: list.splits)
  qed
qed (simp add: remove_pending_event_def)

lemma sorted_wrt_map_filter: "sorted_wrt R (map f xs) \<Longrightarrow> sorted_wrt R (map f (filter P xs))"
  by (induction xs) auto

lemma backlog_retain: "backlog_inv st \<Longrightarrow> backlog_inv (retain_pending P i st)"
proof (cases "hs_pending st i")
  case (Some es)
  assume inv: "backlog_inv st"
  note d = backlog_invD [OF this Some]
  show ?thesis
  proof (rule backlog_inv_shrink [OF inv])
    show "hs_pending (retain_pending P i st)
        = (hs_pending st)(i := (if filter P es = [] then None else Some (filter P es)))"
      "hs_next_event (retain_pending P i st) = hs_next_event st"
      using Some by (simp_all add: retain_pending_def Let_def)
    show "(if filter P es = [] then None else Some (filter P es)) = None \<or>
      (\<exists>es0 es'. hs_pending st i = Some es0 \<and> (if filter P es = [] then None else Some (filter P es)) = Some es'
         \<and> es' \<noteq> [] \<and> length es' \<le> length es0 \<and> sorted_wrt (<) (map pe_id es')
         \<and> pe_id ` set es' \<subseteq> pe_id ` set es0)"
      using Some d(3) by (auto simp: sorted_wrt_map_filter)
  qed
qed (simp add: retain_pending_def)

lemma pe_id_rebase [simp]: "pe_id (fst (rebase_generation g e)) = pe_id e"
  by (cases e) simp_all

lemma backlog_rebase: "backlog_inv st \<Longrightarrow> backlog_inv (fst (rebase_pending_runtime_event i n g st))"
proof (cases "hs_pending st i")
  case (Some es)
  assume inv: "backlog_inv st"
  note d = backlog_invD [OF this Some]
  then obtain e r where es: "es = e # r" by (cases es) auto
  show ?thesis
  proof (cases "pe_id e = n")
    case True
    show ?thesis
    proof (rule backlog_inv_shrink [OF inv])
      show "hs_pending (fst (rebase_pending_runtime_event i n g st))
          = (hs_pending st)(i := Some (fst (rebase_generation g e) # r))"
        "hs_next_event (fst (rebase_pending_runtime_event i n g st)) = hs_next_event st"
        using Some True es by (simp_all add: rebase_pending_runtime_event_def case_prod_beta)
    qed (use Some d es in auto)
  qed (use Some es inv in \<open>simp add: rebase_pending_runtime_event_def\<close>)
qed (simp add: rebase_pending_runtime_event_def)

lemma remove_first_runtime_split:
  "remove_first_runtime es = Some es' \<Longrightarrow> \<exists>p e q. es = p @ e # q \<and> es' = p @ q \<and> \<not> is_probe e"
proof (induction es arbitrary: es')
  case (Cons x es)
  show ?case
  proof (cases "is_probe x")
    case True
    then obtain r where "remove_first_runtime es = Some r" "es' = x # r" using Cons.prems by auto
    with Cons.IH obtain p e q where "es = p @ e # q \<and> r = p @ q \<and> \<not> is_probe e" by blast
    then have "x # es = (x # p) @ e # q \<and> es' = (x # p) @ q \<and> \<not> is_probe e" using \<open>es' = x # r\<close> by simp
    then show ?thesis by blast
  next
    case False
    then have "x # es = [] @ x # es \<and> es' = [] @ es \<and> \<not> is_probe x" using Cons.prems by simp
    then show ?thesis by blast
  qed
qed simp

lemma remove_first_runtime_None: "remove_first_runtime es = None \<longleftrightarrow> (\<forall>e \<in> set es. is_probe e)"
  by (induction es) auto

text \<open>A queue that receives an event with a new, larger identifier.\<close>

lemma push_event_sorted:
  assumes "length es \<le> max_pending" "sorted_wrt (<) (map pe_id es)" "\<forall>x \<in> set es. pe_id x < n" "pe_id e = n"
  shows "push_event e es \<noteq> [] \<and> length (push_event e es) \<le> max_pending
     \<and> sorted_wrt (<) (map pe_id (push_event e es)) \<and> pe_id ` set (push_event e es) \<subseteq> insert n (pe_id ` set es)"
proof (cases "max_pending \<le> length es")
  case True
  show ?thesis
  proof (cases "remove_first_runtime es")
    case None
    then show ?thesis using True assms by (auto simp: push_event_def max_pending_def)
  next
    case (Some es')
    then obtain p x q where "es = p @ x # q" "es' = p @ q" using remove_first_runtime_split by blast
    then show ?thesis using True Some assms by (auto simp: push_event_def sorted_wrt_append)
  qed
next
  case False
  then show ?thesis using assms by (auto simp: push_event_def sorted_wrt_append)
qed

lemma backlog_enqueue:
  assumes inv: "backlog_inv st" and p: "hs_pending st' = hs_pending st"
    and n: "hs_next_event st' = hs_next_event st + 1" "hs_next_event st \<noteq> - 1" and e: "pe_id e = hs_next_event st"
  shows "backlog_inv (enqueue_account_event i e st')"
proof -
  have lt: "hs_next_event st < hs_next_event st + 1" using n(2) by (rule word_less_succ)
  have step: "backlog_inv st''" if "hs_pending st'' = (hs_pending st)(i \<mapsto> q)"
      "hs_next_event st'' = hs_next_event st + 1" "q \<noteq> []" "length q \<le> max_pending"
      "sorted_wrt (<) (map pe_id q)" "\<forall>x \<in> set q. pe_id x < hs_next_event st + 1" for st'' q
    using inv that lt unfolding backlog_inv_def by (auto intro: less_trans)
  let ?q = "case hs_pending st i of None \<Rightarrow> [e] | Some es \<Rightarrow> push_event e es"
  have q: "?q \<noteq> [] \<and> length ?q \<le> max_pending \<and> sorted_wrt (<) (map pe_id ?q)
      \<and> (\<forall>x \<in> set ?q. pe_id x < hs_next_event st + 1)"
  proof (cases "hs_pending st i")
    case None
    then show ?thesis using e lt by (simp add: max_pending_def)
  next
    case (Some es)
    note d = backlog_invD [OF inv Some]
    have "\<forall>x \<in> set es. pe_id x < hs_next_event st" using d(4) by blast
    from push_event_sorted [OF d(2,3) this e] have ps: "push_event e es \<noteq> []"
      "length (push_event e es) \<le> max_pending" "sorted_wrt (<) (map pe_id (push_event e es))"
      "pe_id ` set (push_event e es) \<subseteq> insert (hs_next_event st) (pe_id ` set es)" by auto
    have "pe_id x < hs_next_event st + 1" if "x \<in> set (push_event e es)" for x
      using that ps(4) d(4) lt by (smt (verit) image_iff insert_iff less_trans subsetD)
    with ps Some show ?thesis by simp
  qed
  show ?thesis
  proof (cases "hs_account_db st'")
    case True
    show ?thesis
      by (rule step [of _ ?q]) (use True p n q in \<open>simp_all add: enqueue_account_event_def start_persistence_worker_def\<close>)
  next
    case False
    have "backlog_inv st'"
      using inv p n lt unfolding backlog_inv_def by (auto intro: less_trans)
    then show ?thesis using False by (simp add: enqueue_account_event_def)
  qed
qed

lemma backlog_snapshot_changes:
  assumes "backlog_inv st"
  shows "backlog_inv (put_health i h st)" "backlog_inv (discard_account_health_override i st)"
    "backlog_inv (discard_account_health_override_if_current i u st)"
    "backlog_inv (reconcile_stale_account_health i h st)"
    "backlog_inv (rebase_local_account_health_generation i g st)"
    "backlog_inv (st\<lparr>hs_account_health := m, hs_tracked := x\<rparr>)"
  using assms
  by (auto simp: put_health_def discard_account_health_override_def
      discard_account_health_override_if_current_def reconcile_stale_account_health_def
      rebase_local_account_health_generation_def elim!: backlog_inv_eq split: option.split)

lemma backlog_worker:
  assumes "backlog_inv st"
  shows "backlog_inv (fst (worker_step f f' i st tbl))"
proof (cases "queue_of st i")
  case Nil
  then show ?thesis using assms by (auto simp: worker_step_def queue_of_def split: option.splits list.splits)
next
  case (Cons e es)
  then have p: "hs_pending st i = Some (e # es)" by (auto simp: queue_of_def split: option.splits)
  have r: "backlog_inv st'" "backlog_inv (rebase_local_account_health_generation i g st')"
    if "rebase_pending_runtime_event i n g st = (st', ok)" for n g st' ok
    using backlog_rebase [OF assms, of i n g] that by (simp_all add: backlog_snapshot_changes)
  show ?thesis
    unfolding worker_step_def p option.case list.case
    by (auto simp: Let_def assms backlog_remove_event backlog_snapshot_changes dest: r
        split: sum.splits bool.splits option.splits prod.splits)
qed

lemma bound_ephemeral_frame [simp]:
  "hs_pending (bound_ephemeral_health_map i st) = hs_pending st"
  "hs_next_event (bound_ephemeral_health_map i st) = hs_next_event st"
  by (simp_all add: bound_ephemeral_health_map_def)

lemma put_health_frame [simp]:
  "hs_pending (put_health i h st) = hs_pending st" "hs_next_event (put_health i h st) = hs_next_event st"
  by (simp_all add: put_health_def)

lemma snapshot_next [simp]:
  "hs_next_event (discard_account_health_override i st) = hs_next_event st"
  "hs_next_event (discard_account_health_override_if_current i u st) = hs_next_event st"
  "hs_next_event (reconcile_stale_account_health i h st) = hs_next_event st"
  "hs_next_event (rebase_local_account_health_generation i g st) = hs_next_event st"
  "hs_next_event (remove_pending_event i n st) = hs_next_event st"
  "hs_next_event (fst (rebase_pending_runtime_event i n g st)) = hs_next_event st"
  by (auto simp: discard_account_health_override_def Let_def
      discard_account_health_override_if_current_def reconcile_stale_account_health_def
      rebase_local_account_health_generation_def remove_pending_event_def
      rebase_pending_runtime_event_def case_prod_beta split: option.split list.split)

lemma worker_next: "hs_next_event (fst (worker_step f f' i st tbl)) = hs_next_event st"
proof (cases "queue_of st i")
  case Nil
  then show ?thesis by (auto simp: worker_step_def queue_of_def split: option.splits list.splits)
next
  case (Cons e es)
  then have p: "hs_pending st i = Some (e # es)" by (auto simp: queue_of_def split: option.splits)
  have r: "hs_next_event st' = hs_next_event st"
    if "rebase_pending_runtime_event i n g st = (st', ok)" for n g st' ok
    using snapshot_next(6) [of i n g st] that by simp
  show ?thesis
    unfolding worker_step_def p option.case list.case
    by (auto simp: Let_def dest: r split: sum.splits bool.splits option.splits prod.splits)
qed

lemma backlog_step:
  assumes inv: "backlog_inv st" and n: "hs_next_event st \<noteq> - 1"
  shows "backlog_inv (fst (health_step i op (st, tbl)))
     \<and> (hs_next_event (fst (health_step i op (st, tbl))) = hs_next_event st
        \<or> hs_next_event (fst (health_step i op (st, tbl))) = hs_next_event st + 1)"
proof (cases op)
  case (Live_Success now l)
  then show ?thesis using inv n
    by (auto simp: record_account_success_def Let_def intro!: backlog_enqueue [OF inv])
next
  case (Live_Failure now err)
  then show ?thesis using inv n
    by (auto simp: record_account_failure_def Let_def split: option.split intro!: backlog_enqueue [OF inv])
next
  case (Probe_Done u hu g p l s c ok)
  then show ?thesis using inv n
    by (auto simp: record_account_probe_if_current_and_enqueue_def Let_def split: option.split
        intro!: backlog_enqueue [OF inv])
next
  case Hydrate
  have "hs_pending (fst (hydrate_account_health a st)) = hs_pending st"
    "hs_next_event (fst (hydrate_account_health a st)) = hs_next_event st" for a
    by (auto simp: hydrate_account_health_def Let_def split: option.split)
  then show ?thesis using Hydrate backlog_inv_eq [OF inv] by (auto split: option.split)
next
  case (Persist fault)
  then show ?thesis using backlog_worker [OF inv, of fault False i tbl] worker_next [of fault False i st tbl]
    by (auto split: prod.splits)
qed

text \<open>Operations of any accounts, in any order.\<close>

fun store_run :: "(uuid \<times> health_op) list \<Rightarrow> health_store \<times> account list \<Rightarrow> health_store \<times> account list" where
  "store_run [] s = s"
| "store_run ((i, op) # ops) s = store_run ops (health_step i op s)"

lemma store_run_backlog:
  assumes "backlog_inv (fst s)" "unat (hs_next_event (fst s)) + length ops < 2 ^ 64"
  shows "backlog_inv (fst (store_run ops s))"
  using assms
proof (induction ops s rule: store_run.induct)
  case (2 i op ops s)
  obtain st tbl where s: "s = (st, tbl)" by (cases s)
  have n: "unat (hs_next_event st) + 1 < 2 ^ 64" using "2.prems"(2) s by simp
  then have "hs_next_event st \<noteq> - 1" by (auto simp: unsigned_minus_1_eq_mask mask_eq_exp_minus_1)
  from backlog_step [OF _ this, of i op tbl] "2.prems"(1) s
  have b: "backlog_inv (fst (health_step i op s))"
    "hs_next_event (fst (health_step i op s)) = hs_next_event st
      \<or> hs_next_event (fst (health_step i op s)) = hs_next_event st + 1" by auto
  have "unat (hs_next_event st + 1) = unat (hs_next_event st) + 1" using n by (simp add: unat_word_ariths)
  then have "unat (hs_next_event (fst (health_step i op s))) + length ops < 2 ^ 64"
    using b(2) "2.prems"(2) s by auto
  then show ?case using "2.IH" b(1) by simp
qed simp

section \<open>Quarantine and resets\<close>

definition soft_failures :: "(string \<times> datetime) list \<Rightarrow> account_health \<Rightarrow> account_health" where
  "soft_failures fs h = fold (\<lambda>(r, t). live_failure r False t) fs h"

lemma soft_failures_count:
  assumes "h_consecutive_failures h = 0" "h_penalty h = 0" "is_routable h" "length fs < 2 ^ 31 - 1"
  shows "h_consecutive_failures (soft_failures fs h) = int (length fs)
     \<and> h_penalty (soft_failures fs h) = (if length fs < 3 then 35 * int (length fs) else 100)
     \<and> (is_routable (soft_failures fs h) \<longleftrightarrow> length fs < 3)"
  using assms(4)
proof (induction fs rule: rev_induct)
  case (snoc f fs)
  obtain r t where "f = (r, t)" by (cases f)
  then have e: "soft_failures (fs @ [f]) h = live_failure r False t (soft_failures fs h)"
    by (simp add: soft_failures_def)
  have "i32_sat_inc (int (length fs)) = int (length fs) + 1" using snoc.prems by (simp add: i32_sat_inc_def)
  then show ?case unfolding e
    using snoc by (auto simp: transition_defs status_defs is_routable_def i32_wrap_def)
qed (use assms in \<open>simp add: soft_failures_def\<close>)

lemma retain_pending_queue: "queue_of (retain_pending P i st) i = filter P (queue_of st i)"
  by (auto simp: queue_of_def retain_pending_def Let_def split: option.splits)

lemma fence_pending_empty:
  assumes "backlog_inv st" "hs_pending st' = hs_pending st"
  shows "queue_of (fence_pending (hs_next_event st) t i st') i = []"
proof -
  have "pe_id e < hs_next_event st" if "e \<in> set (queue_of st' i)" for e
    using that assms(2) backlog_invD(4) [OF assms(1)] by (cases "hs_pending st i") (auto simp: queue_of_def)
  then have "filter (\<lambda>e. hs_next_event st \<le> pe_id e) (queue_of st' i) = []"
    by (auto simp: filter_empty_conv not_le)
  then show ?thesis
    by (simp add: fence_pending_def remove_pending_events_before_def remove_pending_events_before_id_def
        retain_pending_queue)
qed

lemma fence_pending_frame: "hs_account_health (fence_pending n t i st) = hs_account_health st"
  by (simp add: fence_pending_def remove_pending_events_before_def remove_pending_events_before_id_def
      retain_pending_def Let_def split: option.split)

lemma reset_snapshot_missing:
  assumes "account_find_by_id i tbl = None"
  shows "reset_health_snapshot now i tbl = Inr (tbl, None)"
proof -
  have "\<And>a. a \<in> set tbl \<Longrightarrow> acc_id a \<noteq> i" using assms by (auto simp: account_find_by_id_def find_None_iff)
  then have "sql_update (\<lambda>a. acc_id a = i) (reset_health_row now) tbl = Inr (tbl, [])"
    by (intro sql_update_none) blast
  then show ?thesis by (simp add: reset_health_snapshot_def)
qed

lemma reset_snapshot_found:
  assumes "distinct (map acc_id tbl)" "account_find_by_id i tbl = Some a"
    and "reset_health_snapshot now i tbl = Inr (tbl', r)"
  shows "\<exists>a'. r = Some a' \<and> account_find_by_id i tbl' = Some a'
     \<and> acc_health_status a' = account_health_unknown \<and> acc_health_generation a' = acc_health_generation a + 1"
proof -
  have "sql_update (\<lambda>b. acc_id b = i) (reset_health_row now) tbl =
      (case reset_health_row now a of Inl e \<Rightarrow> Inl e | Inr a' \<Rightarrow> Inr (set_row i a' tbl, [a']))"
    using sql_update_keyed [OF assms(1,2), of "\<lambda>_. True"] by (simp add: set_row_def split: sum.split)
  with assms(3) obtain a' where a': "reset_health_row now a = Inr a'" "tbl' = set_row i a' tbl" "r = Some a'"
    by (cases "reset_health_row now a") (auto simp: reset_health_snapshot_def)
  moreover from a'(1) find_by_id_acc_id [OF assms(2)]
  have "acc_id a' = i" "acc_health_status a' = account_health_unknown"
    "acc_health_generation a' = acc_health_generation a + 1"
    by (auto simp: reset_health_row_def checked_row_def status_defs split: if_splits)
  ultimately show ?thesis using assms(2) by (simp add: find_set_row)
qed

section \<open>Properties\<close>

definition example_account :: account where
  "example_account =
     \<lparr>acc_id = 7, acc_tenant_id = None, acc_provider = ''openai'', acc_name = ''a'', acc_endpoint = [],
      acc_upstream_api_key_encrypted = ''k'', acc_upstream_api_key_preview = ''k'', acc_rpm_limit = 60,
      acc_tpm_limit = 100000, acc_priority = 5, acc_enabled = True, acc_pool_enabled = True,
      acc_models_supported = [''m''], acc_api_capabilities = [''chat_completions''],
      acc_visibility = ''global'', acc_health_status = ''healthy'', acc_health_reason = None,
      acc_health_penalty = 0, acc_health_consecutive_failures = 0, acc_health_success_count = 4,
      acc_health_failure_count = 0, acc_health_avg_latency_ms = Some 3, acc_health_last_success_at = Some 2000,
      acc_health_last_failure_at = None, acc_health_updated_at = 3000, acc_health_generation = 2,
      acc_last_probe_at = None, acc_last_probe_latency_ms = None, acc_last_probe_status = None,
      acc_last_probe_error_code = None, acc_created_at = 0, acc_updated_at = 0,
      acc_upstream_config_version = 1000\<rparr>"

definition example_store :: health_store where
  "example_store = fst (hydrate_account_health example_account (attach_account_db health_store_new))"

lemma example_mirrors: "mirrors example_account (from_account example_account)"
  by (simp add: mirrors_def example_account_def aligned_def account_checks_def same_but_latency_def
      from_account_def on_microsecond_def microsecond_def)

lemma example_store_fields:
  "hs_account_db example_store" "hs_tracked example_store = {7}" "hs_pending example_store = Map.empty"
  "hs_account_health example_store = [7 \<mapsto> from_account example_account]" "hs_next_event example_store = 1"
  by (simp_all add: example_store_def hydrate_account_health_def attach_account_db_def
      start_persistence_worker_def health_store_new_def example_account_def Let_def)

lemma example_synced: "store_synced example_store [example_account] 7"
  using example_mirrors
  by (simp add: store_synced_def example_store_fields queue_of_def account_find_by_id_def)
    (simp add: example_account_def)

text \<open>
  C8: write-behind persistence converges while the backlog does not overflow. Starting in step, take a sequence of live
  successes, live failures, probes, hydrations and worker runs (with connection failures) in which no event is recorded
  on a full backlog of 1024, latencies are below \<open>2 ^ 50\<close> milliseconds, the counters stay within their
  columns, and an accepted probe ran with the snapshot's configuration (\<open>health_op_ok\<close>). Then draining the backlog of
  the account leaves its queue empty, keeps the local snapshot, changes no other row, and leaves
  a row that equals the local snapshot in everything but the average latency. On a full backlog the store drops
  live results, and the row can stay behind the snapshot: that case is outside the statement.
\<close>

theorem health_write_behind_converges:
  assumes "store_synced st tbl i" "health_run_ok i ops (st, tbl)"
    and "s = health_run i ops (st, tbl)"
    and "s' = health_run i (replicate (length (queue_of (fst s) i)) (Persist False)) s"
  shows "queue_of (fst s') i = [] \<and> hs_account_health (fst s') = hs_account_health (fst s)
     \<and> (\<forall>j. j \<noteq> i \<longrightarrow> account_find_by_id j (snd s') = account_find_by_id j (snd s))
     \<and> (\<exists>a h. account_find_by_id i (snd s') = Some a \<and> hs_account_health (fst s') i = Some h
               \<and> same_but_latency (from_account a) h)"
proof -
  have s: "store_synced (fst s) (snd s) i" using health_run_synced [of "(st, tbl)" i ops] assms by simp
  note d = drain_synced [OF s refl, folded assms(4)]
  have "health_run_ok i (replicate n (Persist False)) r" for n r
    by (induction n arbitrary: r) simp_all
  from health_run_synced [OF s this] have "store_synced (fst s') (snd s') i" unfolding assms(4) .
  then show ?thesis using d by (auto simp: store_synced_def mirrors_def)
qed

theorem health_write_behind_converges_witness:
  "\<exists>a h. account_find_by_id 7 (snd (health_run 7 [Live_Success 5000 120, Live_Failure 7000 (Timeout []), Persist False,
       Persist False] (example_store, [example_account]))) = Some a
     \<and> hs_account_health (fst (health_run 7 [Live_Success 5000 120, Live_Failure 7000 (Timeout []), Persist False,
       Persist False] (example_store, [example_account]))) 7 = Some h
     \<and> same_but_latency (from_account a) h"
proof -
  let ?ops = "[Live_Success 5000 120, Live_Failure 7000 (Timeout [])]"
  let ?s = "health_run 7 ?ops (example_store, [example_account])"
  have ok: "health_run_ok 7 ?ops (example_store, [example_account])"
    by (simp add: example_store_fields record_success_publishes [where h = "from_account example_account"]
        queue_of_def max_pending_def enqueue_account_event_def put_health_def start_persistence_worker_def)
      (simp add: example_account_def from_account_def int8_def int4_def transition_defs update_average_latency_def i64_sat_inc_def)
  have q: "length (queue_of (fst ?s) 7) = 2"
    by (simp add: example_store_fields record_success_publishes [where h = "from_account example_account"]
        record_account_failure_def bound_ephemeral_health_map_def
        queue_of_def push_event_def max_pending_def enqueue_account_event_def put_health_def
        start_persistence_worker_def Let_def)
  have r: "replicate (length (queue_of (fst ?s) 7)) (Persist False) = [Persist False, Persist False]"
    by (simp only: q numeral_2_eq_2 replicate.simps)
  have e: "health_run 7 [Live_Success 5000 120, Live_Failure 7000 (Timeout []), Persist False, Persist False]
      (example_store, [example_account])
    = health_run 7 (replicate (length (queue_of (fst ?s) 7)) (Persist False)) ?s"
    unfolding r by (simp only: health_run.simps)
  show ?thesis
    unfolding e using health_write_behind_converges [OF example_synced ok refl refl] by (elim conjE)
qed

text \<open>
  The local average latency and the persisted one diverge: for an account whose average is
  3 ms, one more 3 ms success leaves 3 ms in the row, where the statement averages exactly, and
  2 ms in the local snapshot, where the sum of two rounded products falls below 3 and is truncated.
\<close>

theorem latency_mirror_diverges:
  "h_avg_latency_ms (from_account example_account) = acc_health_avg_latency_ms example_account
   \<and> h_avg_latency_ms (live_success 3 5000 (from_account example_account)) = Some 2
   \<and> (\<exists>a. runtime_success_row 3 5000 example_account = Inr a \<and> acc_health_avg_latency_ms a = Some 3)"
proof -
  have e: "ewma 3 3 = 2" by code_simp
  have "sql_avg_latency (Some 3) 3 = Inr (Some 3)" using sql_avg_bounds [of 3 3] by simp
  then show ?thesis
    by (simp add: example_account_def from_account_def transition_defs update_average_latency_def e
        runtime_success_row_def checked_row_def account_checks_def int8_def)
qed

text \<open>
  The local moving average of plausible latencies never leaves the range of the samples by
  more than the truncation: it is at most the larger of the old average and the sample, at
  least one millisecond below the smaller, and never negative.
\<close>

theorem average_latency_bounded:
  assumes "h_avg_latency_ms h = Some c" "0 \<le> c" "c < 2 ^ 50" "0 \<le> l" "l < 2 ^ 50"
  shows "\<exists>v. h_avg_latency_ms (update_average_latency l h) = Some v
     \<and> min c l - 1 \<le> v \<and> v \<le> max c l \<and> 0 \<le> v"
  using assms ewma_bounds [of c l] by (simp add: update_average_latency_def)

theorem average_latency_bounded_witness:
  "\<exists>v. h_avg_latency_ms (update_average_latency 40 (from_account example_account)) = Some v
     \<and> min 3 40 - 1 \<le> v \<and> v \<le> max 3 40 \<and> 0 \<le> v"
  by (rule average_latency_bounded) (simp_all add: from_account_def example_account_def)

text \<open>
  Quarantine follows the thresholds. From a clean, routable snapshot a run of transient
  failures keeps the account routable, with a penalty of 35 per failure, until the third,
  which quarantines it; a hard failure quarantines at once; and one success lifts the quarantine
  and clears the penalty and the failure run.
\<close>

theorem quarantine_thresholds:
  assumes "h_consecutive_failures h = 0" "h_penalty h = 0" "is_routable h" "length fs < 2 ^ 31 - 1"
  shows "(is_routable (soft_failures fs h) \<longleftrightarrow> length fs < 3)
     \<and> h_penalty (soft_failures fs h) = (if length fs < 3 then 35 * int (length fs) else 100)
     \<and> \<not> is_routable (live_failure r True t (soft_failures fs h))
     \<and> is_routable (live_success l t (soft_failures fs h))
     \<and> h_penalty (live_success l t (soft_failures fs h)) = 0
     \<and> h_consecutive_failures (live_success l t (soft_failures fs h)) = 0"
  using soft_failures_count [OF assms]
  by (simp add: transition_defs update_average_latency_def is_routable_def status_defs)

theorem quarantine_thresholds_witness:
  "\<not> is_routable (soft_failures [(''e'', 1), (''e'', 2), (''e'', 3)] (account_health_default 0))"
  using quarantine_thresholds [of "account_health_default 0" "[(''e'', 1), (''e'', 2), (''e'', 3)]"]
  by (simp add: account_health_default_def is_routable_def status_defs)

text \<open>
  C22: the persistence backlog is bounded and ordered. From a new store, whatever sequence of live
  requests, probes and worker runs of any accounts, every queue is non-empty, holds at most
  1024 events, and holds them in the strictly increasing order in which they were recorded.
\<close>

theorem pending_backlog_bounded:
  assumes "length ops < 2 ^ 64 - 1"
    and "hs_pending (fst (store_run ops (attach_account_db health_store_new, tbl))) i = Some es"
  shows "es \<noteq> [] \<and> length es \<le> 1024 \<and> sorted_wrt (<) (map pe_id es)"
proof -
  have "backlog_inv (fst (store_run ops (attach_account_db health_store_new, tbl)))"
    using assms(1)
    by (intro store_run_backlog)
      (simp_all add: backlog_inv_def attach_account_db_def start_persistence_worker_def health_store_new_def)
  from backlog_invD [OF this assms(2)] show ?thesis by (simp add: max_pending_def)
qed

theorem pending_backlog_bounded_witness:
  "\<exists>es. hs_pending (fst (store_run [(7, Hydrate), (7, Live_Success 5000 120)]
       (attach_account_db health_store_new, [example_account]))) 7 = Some es
     \<and> length es \<le> 1024 \<and> sorted_wrt (<) (map pe_id es)"
proof -
  let ?s = "store_run [(7, Hydrate), (7, Live_Success 5000 120)]
       (attach_account_db health_store_new, [example_account])"
  have "account_find_by_id 7 [example_account] = Some example_account"
    by (simp add: account_find_by_id_def example_account_def)
  then have "fst ?s = record_account_success 5000 5000 7 120 example_store"
    by (simp add: example_store_def)
  then obtain es where "hs_pending (fst ?s) 7 = Some es"
    by (simp add: record_success_publishes [where h = "from_account example_account"] example_store_fields
        enqueue_account_event_def start_persistence_worker_def put_health_def)
  from this pending_backlog_bounded [OF _ this] show ?thesis by simp
qed

text \<open>
  Probe snapshots, the generation fences of the queue, are never evicted: queueing an event
  keeps every queued probe in order, and appends the event itself if it is a probe and the
  queue is not already full of probes.
\<close>

theorem probe_fences_kept:
  "filter is_probe (push_event e es) = filter is_probe es
     @ (if is_probe e \<and> (length es < max_pending \<or> (\<exists>x \<in> set es. \<not> is_probe x)) then [e] else [])"
proof (cases "max_pending \<le> length es")
  case True
  show ?thesis
  proof (cases "remove_first_runtime es")
    case None
    then have "\<forall>x \<in> set es. is_probe x" by (simp add: remove_first_runtime_None)
    then show ?thesis using True None by (simp add: push_event_def)
  next
    case (Some es')
    then obtain p x q where "es = p @ x # q" "es' = p @ q" "\<not> is_probe x"
      using remove_first_runtime_split by blast
    then show ?thesis using True Some by (auto simp: push_event_def)
  qed
qed (simp add: push_event_def)

text \<open>
  An administrator reset fences the past: when it succeeds, no event recorded before it is
  left in the account's queue, and, when the account still exists, the local snapshot is
  the row the database committed, of unknown health and of the next generation.
\<close>

theorem reset_fences_old_events:
  assumes "backlog_inv st" "distinct (map acc_id tbl)"
    and "reset_account_health now db_now i st tbl = Inr (st', tbl')"
  shows "queue_of st' i = []
     \<and> (if hs_account_db st then
          (case account_find_by_id i tbl of
             None \<Rightarrow> hs_account_health st' i = None \<and> i \<notin> hs_tracked st'
           | Some a \<Rightarrow> \<exists>a'. account_find_by_id i tbl' = Some a' \<and> hs_account_health st' i = Some (from_account a')
               \<and> acc_health_status a' = account_health_unknown
               \<and> acc_health_generation a' = acc_health_generation a + 1)
        else hs_account_health st' i = None)"
proof (cases "hs_account_db st")
  case False
  have "queue_of st' i = []"
    using fence_pending_empty [OF assms(1), of "discard_account_health_override i st"] assms(3) False
    by (auto simp: reset_account_health_def Let_def discard_account_health_override_def)
  then show ?thesis
    using assms(3) False
    by (auto simp: reset_account_health_def Let_def fence_pending_frame discard_account_health_override_def)
next
  case True
  show ?thesis
  proof (cases "account_find_by_id i tbl")
    case None
    then have "st' = forget_account_health i st"
      using assms(3) True reset_snapshot_missing [OF None, of db_now] by (simp add: reset_account_health_def Let_def)
    then show ?thesis using True None by (simp add: forget_account_health_def queue_of_def)
  next
    case (Some a)
    from assms(3) True obtain r where r: "reset_health_snapshot db_now i tbl = Inr (tbl', r)"
      by (auto simp: reset_account_health_def Let_def split: sum.splits option.splits)
    from reset_snapshot_found [OF assms(2) Some r] obtain a' where a': "r = Some a'"
      "account_find_by_id i tbl' = Some a'" "acc_health_status a' = account_health_unknown"
      "acc_health_generation a' = acc_health_generation a + 1" by blast
    let ?s = "put_health i (from_account a') st"
    have st': "st' = fence_pending (hs_next_event st) (h_updated_at (from_account a')) i
        (?s\<lparr>hs_tracked := insert i (hs_tracked ?s)\<rparr>)"
      using assms(3) True r a'(1) by (simp add: reset_account_health_def Let_def)
    have "queue_of st' i = []" unfolding st' by (rule fence_pending_empty [OF assms(1)]) simp
    moreover have "hs_account_health st' i = Some (from_account a')"
      by (simp add: st' fence_pending_frame put_health_def)
    ultimately show ?thesis using True Some a' by simp
  qed
qed

theorem reset_fences_old_events_witness:
  "\<exists>s. reset_account_health 9000 9000 7 (record_account_success 5000 5000 7 120 example_store) [example_account]
        = Inr s \<and> queue_of (fst s) 7 = []"
proof -
  let ?st = "record_account_success 5000 5000 7 120 example_store"
  have "backlog_inv example_store" by (simp add: backlog_inv_def example_store_fields)
  from backlog_step [OF this, of 7 "Live_Success 5000 120" "[]"]
  have inv: "backlog_inv ?st" by (simp add: example_store_fields)
  have "\<exists>s. reset_account_health 9000 9000 7 ?st [example_account] = Inr s"
    by (simp add: reset_account_health_def reset_health_snapshot_def reset_health_row_def checked_row_def Let_def
        record_success_publishes [where h = "from_account example_account"] example_store_fields put_health_def
        example_account_def account_checks_def int8_def)
  then obtain s where s: "reset_account_health 9000 9000 7 ?st [example_account] = Inr s" by blast
  have "distinct (map acc_id [example_account])" by simp
  from reset_fences_old_events [OF inv this, of 9000 9000 7 "fst s" "snd s"] s show ?thesis by simp
qed

text \<open>
  What routing reads after hydrating an account is the snapshot the hydration returned: the
  freshness rules of the two operations agree.
\<close>

theorem hydrate_then_read:
  "account_health_for a (fst (hydrate_account_health a st)) = snd (hydrate_account_health a st)"
proof (cases "hs_account_health st (acc_id a)")
  case None
  then show ?thesis
    by (simp add: hydrate_account_health_def account_health_for_def Let_def from_account_def)
next
  case (Some h)
  then show ?thesis
    by (cases "h_configuration_updated_at h")
      (auto simp: hydrate_account_health_def account_health_for_def Let_def from_account_def)
qed

end
