(* ===== verification/Usage.thy ===== *)
theory Usage
  imports Prelude
begin

text \<open>
  The token accumulator of a streamed response (\<open>crates/keycompute-types/src/usage.rs\<close>): two
  counters and two flags, each an atomic of its own. Calls that do not overlap are functions
  on the record; a step relation splits \<open>add_output\<close> and \<open>set_output\<close> into their atomic
  accesses and interleaves them. Counters are \<open>u32\<close> and wrap.
\<close>

section \<open>Operations\<close>

record usage_accumulator =
  ua_input_tokens :: u32
  ua_output_tokens :: u32
  ua_output_finalized :: bool
  ua_input_finalized :: bool

definition usage_new :: usage_accumulator where
  "usage_new = \<lparr>ua_input_tokens = 0, ua_output_tokens = 0, ua_output_finalized = False, ua_input_finalized = False\<rparr>"

definition add_output :: "u32 \<Rightarrow> usage_accumulator \<Rightarrow> usage_accumulator" where
  "add_output tokens u =
     (if ua_output_finalized u then u else u\<lparr>ua_output_tokens := ua_output_tokens u + tokens\<rparr>)"

definition add_input :: "u32 \<Rightarrow> usage_accumulator \<Rightarrow> usage_accumulator" where
  "add_input tokens u =
     (if ua_input_finalized u then u else u\<lparr>ua_input_tokens := ua_input_tokens u + tokens\<rparr>)"

definition set_output :: "u32 \<Rightarrow> usage_accumulator \<Rightarrow> usage_accumulator" where
  "set_output tokens u = u\<lparr>ua_output_tokens := tokens, ua_output_finalized := True\<rparr>"

definition set_input :: "u32 \<Rightarrow> usage_accumulator \<Rightarrow> usage_accumulator" where
  "set_input tokens u = u\<lparr>ua_input_tokens := tokens, ua_input_finalized := True\<rparr>"

definition set_input_estimate :: "u32 \<Rightarrow> usage_accumulator \<Rightarrow> usage_accumulator" where
  "set_input_estimate tokens u = u\<lparr>ua_input_tokens := tokens, ua_input_finalized := False\<rparr>"

definition set_output_estimate :: "u32 \<Rightarrow> usage_accumulator \<Rightarrow> usage_accumulator" where
  "set_output_estimate tokens u = u\<lparr>ua_output_tokens := tokens, ua_output_finalized := False\<rparr>"

definition usage_snapshot :: "usage_accumulator \<Rightarrow> u32 \<times> u32" where
  "usage_snapshot u = (ua_input_tokens u, ua_output_tokens u)"

definition total_tokens :: "usage_accumulator \<Rightarrow> u32" where
  "total_tokens u = (let (input, output) = usage_snapshot u in input + output)"

definition usage_from :: "u32 \<times> u32 \<Rightarrow> usage_accumulator" where
  "usage_from p = (case p of (input, output) \<Rightarrow>
     usage_new\<lparr>ua_input_tokens := input, ua_output_tokens := output\<rparr>)"

lemmas usage_defs = add_output_def add_input_def set_output_def set_input_def set_input_estimate_def
  set_output_estimate_def usage_snapshot_def

datatype usage_op =
    Add_Output u32 | Add_Input u32 | Set_Output u32 | Set_Input u32
  | Set_Input_Estimate u32 | Set_Output_Estimate u32

fun usage_step :: "usage_op \<Rightarrow> usage_accumulator \<Rightarrow> usage_accumulator" where
  "usage_step (Add_Output n) = add_output n"
| "usage_step (Add_Input n) = add_input n"
| "usage_step (Set_Output n) = set_output n"
| "usage_step (Set_Input n) = set_input n"
| "usage_step (Set_Input_Estimate n) = set_input_estimate n"
| "usage_step (Set_Output_Estimate n) = set_output_estimate n"

definition usage_run :: "usage_op list \<Rightarrow> usage_accumulator \<Rightarrow> usage_accumulator" where
  "usage_run ops u = fold usage_step ops u"

section \<open>What a sequence of calls reports\<close>

text \<open>
  The specification of the output side: the last \<open>set\<close> decides. After an exact value the
  reported usage is that value; after an estimate (or the start) it is the estimate plus the
  later additions.
\<close>

datatype output_base = Exact u32 | Estimate u32

fun spec_output :: "usage_op list \<Rightarrow> output_base \<Rightarrow> output_base" where
  "spec_output [] b = b"
| "spec_output (Set_Output n # ops) b = spec_output ops (Exact n)"
| "spec_output (Set_Output_Estimate n # ops) b = spec_output ops (Estimate n)"
| "spec_output (Add_Output n # ops) (Estimate m) = spec_output ops (Estimate (m + n))"
| "spec_output (_ # ops) b = spec_output ops b"

fun base_tokens :: "output_base \<Rightarrow> u32" where
  "base_tokens (Exact n) = n"
| "base_tokens (Estimate n) = n"

definition output_base_of :: "usage_accumulator \<Rightarrow> output_base" where
  "output_base_of u = (if ua_output_finalized u then Exact (ua_output_tokens u) else Estimate (ua_output_tokens u))"

lemma usage_run_output: "output_base_of (usage_run ops u) = spec_output ops (output_base_of u)"
proof (induction ops arbitrary: u)
  case (Cons op ops)
  have "output_base_of (usage_run (op # ops) u) = spec_output ops (output_base_of (usage_step op u))"
    using Cons by (simp add: usage_run_def)
  also have "\<dots> = spec_output (op # ops) (output_base_of u)"
    by (cases op) (simp_all add: output_base_of_def usage_defs)
  finally show ?case .
qed (simp add: usage_run_def)

section \<open>Overlapping calls\<close>

text \<open>
  One call of \<open>add_output\<close> and one of \<open>set_output\<close> running at the same time: the first loads
  the flag and then, if it was clear, adds; the second stores the value and then the flag.
\<close>

datatype add_pc = Add_Start | Add_Loaded bool | Add_Done

datatype set_pc = Set_Start | Set_Stored | Set_Done

record usage_race =
  ur_usage :: usage_accumulator
  ur_add :: add_pc
  ur_set :: set_pc

inductive usage_race_step :: "u32 \<Rightarrow> u32 \<Rightarrow> usage_race \<Rightarrow> usage_race \<Rightarrow> bool" for n v where
  load_flag: "ur_add s = Add_Start \<Longrightarrow>
     usage_race_step n v s (s\<lparr>ur_add := Add_Loaded (ua_output_finalized (ur_usage s))\<rparr>)"
| skip_add: "ur_add s = Add_Loaded True \<Longrightarrow> usage_race_step n v s (s\<lparr>ur_add := Add_Done\<rparr>)"
| fetch_add: "ur_add s = Add_Loaded False \<Longrightarrow>
     usage_race_step n v s
       (s\<lparr>ur_usage := (ur_usage s)\<lparr>ua_output_tokens := ua_output_tokens (ur_usage s) + n\<rparr>, ur_add := Add_Done\<rparr>)"
| store_value: "ur_set s = Set_Start \<Longrightarrow>
     usage_race_step n v s (s\<lparr>ur_usage := (ur_usage s)\<lparr>ua_output_tokens := v\<rparr>, ur_set := Set_Stored\<rparr>)"
| store_flag: "ur_set s = Set_Stored \<Longrightarrow>
     usage_race_step n v s (s\<lparr>ur_usage := (ur_usage s)\<lparr>ua_output_finalized := True\<rparr>, ur_set := Set_Done\<rparr>)"

definition usage_race_start :: usage_race where
  "usage_race_start = \<lparr>ur_usage = usage_new, ur_add = Add_Start, ur_set = Set_Start\<rparr>"

definition usage_race_reach :: "u32 \<Rightarrow> u32 \<Rightarrow> usage_race \<Rightarrow> bool" where
  "usage_race_reach n v s \<longleftrightarrow> (usage_race_step n v)\<^sup>*\<^sup>* usage_race_start s"

definition usage_race_inv :: "u32 \<Rightarrow> u32 \<Rightarrow> usage_race \<Rightarrow> bool" where
  "usage_race_inv n v s \<longleftrightarrow>
     (ua_output_finalized (ur_usage s) \<longleftrightarrow> ur_set s = Set_Done)
     \<and> (ur_add s = Add_Loaded True \<longrightarrow> ur_set s = Set_Done \<and> ua_output_tokens (ur_usage s) = v)
     \<and> (case ur_set s of
          Set_Start \<Rightarrow> ua_output_tokens (ur_usage s) = (if ur_add s = Add_Done then n else 0)
        | _ \<Rightarrow> ua_output_tokens (ur_usage s) = v
               \<or> ur_add s = Add_Done \<and> ua_output_tokens (ur_usage s) = v + n)"

lemma usage_race_reach_inv: "usage_race_reach n v s \<Longrightarrow> usage_race_inv n v s"
  unfolding usage_race_reach_def
proof (induction rule: rtranclp_induct)
  case base
  then show ?case by (simp add: usage_race_inv_def usage_race_start_def usage_new_def)
next
  case (step s t)
  from step.hyps(2) step.IH show ?case
    by cases (auto simp: usage_race_inv_def split: set_pc.splits)
qed

text \<open>
  The damage is bounded: once the exact value is in, the reported output is that value or that
  value plus the one racing addition.
\<close>

lemma usage_race_bounded:
  assumes "usage_race_reach n v s" "ur_set s = Set_Done"
  shows "ua_output_tokens (ur_usage s) = v \<or> ua_output_tokens (ur_usage s) = v + n"
  using usage_race_reach_inv [OF assms(1)] assms(2) by (auto simp: usage_race_inv_def)

section \<open>Properties\<close>

text \<open>
  What a sequence of calls reports as output is decided by the last \<open>set\<close>: an exact value is
  reported unchanged whatever is added afterwards, an estimate is reported with the later
  additions, and the flag tells which of the two it is.
\<close>

theorem usage_last_set_decides:
  "snd (usage_snapshot (usage_run ops usage_new)) = base_tokens (spec_output ops (Estimate 0))
   \<and> (ua_output_finalized (usage_run ops usage_new)
        \<longleftrightarrow> spec_output ops (Estimate 0) = Exact (ua_output_tokens (usage_run ops usage_new)))"
proof -
  have "output_base_of usage_new = Estimate 0" by (simp add: output_base_of_def usage_new_def)
  then have "spec_output ops (Estimate 0) = output_base_of (usage_run ops usage_new)"
    using usage_run_output [of ops usage_new] by simp
  then show ?thesis by (simp add: output_base_of_def usage_defs)
qed

text \<open>
  Overlapping calls break this: with one \<open>add_output\<close> of \<open>n\<close> tokens and one \<open>set_output\<close> of
  \<open>v\<close>, both may return with the flag set and \<open>v + n\<close> reported, because the flag is tested
  before the addition and set after the value.
\<close>

theorem usage_add_set_race:
  "\<exists>s. usage_race_reach n v s \<and> ur_add s = Add_Done \<and> ur_set s = Set_Done
     \<and> ua_output_finalized (ur_usage s) \<and> ua_output_tokens (ur_usage s) = v + n"
proof -
  let ?s0 = usage_race_start
  let ?s1 = "?s0\<lparr>ur_add := Add_Loaded False\<rparr>"
  let ?s2 = "?s1\<lparr>ur_usage := usage_new\<lparr>ua_output_tokens := v\<rparr>, ur_set := Set_Stored\<rparr>"
  let ?s3 = "?s2\<lparr>ur_usage := usage_new\<lparr>ua_output_tokens := v, ua_output_finalized := True\<rparr>, ur_set := Set_Done\<rparr>"
  let ?s4 = "?s3\<lparr>ur_usage := usage_new\<lparr>ua_output_tokens := v + n, ua_output_finalized := True\<rparr>, ur_add := Add_Done\<rparr>"
  have "usage_race_step n v ?s0 ?s1"
    using load_flag [of ?s0 n v] by (simp add: usage_race_start_def usage_new_def)
  moreover have "usage_race_step n v ?s1 ?s2"
    using store_value [of ?s1 n v] by (simp add: usage_race_start_def)
  moreover have "usage_race_step n v ?s2 ?s3"
    using store_flag [of ?s2 n v] by (simp add: usage_race_start_def)
  moreover have "usage_race_step n v ?s3 ?s4"
    using fetch_add [of ?s3 n v] by (simp add: usage_race_start_def usage_new_def)
  ultimately have "usage_race_reach n v ?s4"
    unfolding usage_race_reach_def by (meson rtranclp.rtrancl_into_rtrancl rtranclp.rtrancl_refl)
  then show ?thesis by (intro exI [of _ ?s4]) simp
qed

end
