(* ===== verification/Account_State.thy ===== *)
theory Account_State
  imports Prelude
begin

text \<open>
  Manual cooldown of upstream accounts (\<open>crates/keycompute-routing/src/account_state.rs\<close>). The
  concurrent map is a map; \<open>Instant::now() + duration\<close> panics when the clock cannot represent
  the sum, which is \<open>None\<close>; the error counter is a \<open>u32\<close> and wraps.
\<close>

record account_state =
  as_cooldown_until :: "instant option"
  as_error_count :: u32
  as_last_error_at :: "instant option"

type_synonym account_states = "uuid \<rightharpoonup> account_state"

definition account_state_new :: account_state where
  "account_state_new = \<lparr>as_cooldown_until = None, as_error_count = 0, as_last_error_at = None\<rparr>"

definition state_is_cooling_down :: "instant \<Rightarrow> account_state \<Rightarrow> bool" where
  "state_is_cooling_down now s = (case as_cooldown_until s of None \<Rightarrow> False | Some t \<Rightarrow> now < t)"

definition state_cooldown_remaining :: "instant \<Rightarrow> account_state \<Rightarrow> duration option" where
  "state_cooldown_remaining now s = map_option (\<lambda>t. if now < t then t - now else 0) (as_cooldown_until s)"

definition set_cooldown :: "instant \<Rightarrow> uuid \<Rightarrow> u64 \<Rightarrow> account_states \<Rightarrow> account_states option" where
  "set_cooldown now i duration_secs m =
     (case instant_checked_add now (unat duration_secs * 1000000000) of
        None \<Rightarrow> None
      | Some t \<Rightarrow>
          (case m i of
             Some s \<Rightarrow> Some (m(i \<mapsto> s\<lparr>as_cooldown_until := Some t\<rparr>))
           | None \<Rightarrow> Some (m(i \<mapsto> account_state_new\<lparr>as_cooldown_until := Some t\<rparr>))))"

definition clear_cooldown :: "uuid \<Rightarrow> account_states \<Rightarrow> account_states" where
  "clear_cooldown i m =
     (case m i of
        Some s \<Rightarrow> m(i \<mapsto> s\<lparr>as_cooldown_until := None, as_error_count := 0\<rparr>)
      | None \<Rightarrow> m)"

definition state_mark_success :: "uuid \<Rightarrow> account_states \<Rightarrow> account_states" where
  "state_mark_success i m =
     (case m i of
        Some s \<Rightarrow> m(i \<mapsto> s\<lparr>as_error_count := 0, as_cooldown_until := None, as_last_error_at := None\<rparr>)
      | None \<Rightarrow> m(i \<mapsto> account_state_new))"

definition state_mark_error :: "instant \<Rightarrow> uuid \<Rightarrow> account_states \<Rightarrow> account_states" where
  "state_mark_error now i m =
     (case m i of
        Some s \<Rightarrow> m(i \<mapsto> s\<lparr>as_error_count := as_error_count s + 1, as_last_error_at := Some now\<rparr>)
      | None \<Rightarrow> m(i \<mapsto> account_state_new\<lparr>as_error_count := 1, as_last_error_at := Some now\<rparr>))"

definition is_cooling_down :: "instant \<Rightarrow> uuid \<Rightarrow> account_states \<Rightarrow> bool" where
  "is_cooling_down now i m = (case m i of Some s \<Rightarrow> state_is_cooling_down now s | None \<Rightarrow> False)"

definition get_account_state :: "uuid \<Rightarrow> account_states \<Rightarrow> account_state" where
  "get_account_state i m = (case m i of Some s \<Rightarrow> s | None \<Rightarrow> account_state_new)"

definition available_accounts :: "instant \<Rightarrow> uuid list \<Rightarrow> account_states \<Rightarrow> uuid list" where
  "available_accounts now ids m = filter (\<lambda>i. \<not> is_cooling_down now i m) ids"

definition cleanup_expired_cooldowns :: "instant \<Rightarrow> account_states \<Rightarrow> account_states" where
  "cleanup_expired_cooldowns now m =
     (\<lambda>i. map_option (\<lambda>s. case as_cooldown_until s of
            Some t \<Rightarrow> if t \<le> now then s\<lparr>as_cooldown_until := None\<rparr> else s
          | None \<Rightarrow> s) (m i))"

datatype cooldown_op =
    Co_Set instant uuid u64 | Co_Clear uuid | Co_Success uuid | Co_Error instant uuid | Co_Cleanup instant

fun cooldown_step :: "cooldown_op \<Rightarrow> account_states \<Rightarrow> account_states option" where
  "cooldown_step (Co_Set now i d) m = set_cooldown now i d m"
| "cooldown_step (Co_Clear i) m = Some (clear_cooldown i m)"
| "cooldown_step (Co_Success i) m = Some (state_mark_success i m)"
| "cooldown_step (Co_Error now i) m = Some (state_mark_error now i m)"
| "cooldown_step (Co_Cleanup now) m = Some (cleanup_expired_cooldowns now m)"

fun cooldown_run :: "cooldown_op list \<Rightarrow> account_states \<Rightarrow> account_states option" where
  "cooldown_run [] m = Some m"
| "cooldown_run (op # ops) m = (case cooldown_step op m of None \<Rightarrow> None | Some m' \<Rightarrow> cooldown_run ops m')"

text \<open>The operations that do not decide the cooldown of account \<open>i\<close> as seen at time \<open>t\<close>.\<close>

fun leaves_cooldown :: "instant \<Rightarrow> uuid \<Rightarrow> cooldown_op \<Rightarrow> bool" where
  "leaves_cooldown t i (Co_Set _ j _) \<longleftrightarrow> j \<noteq> i"
| "leaves_cooldown t i (Co_Clear j) \<longleftrightarrow> j \<noteq> i"
| "leaves_cooldown t i (Co_Success j) \<longleftrightarrow> j \<noteq> i"
| "leaves_cooldown t i (Co_Error _ _) \<longleftrightarrow> True"
| "leaves_cooldown t i (Co_Cleanup now) \<longleftrightarrow> now \<le> t"

lemma cooldown_step_leaves:
  "leaves_cooldown t i op \<Longrightarrow> cooldown_step op m = Some m' \<Longrightarrow> is_cooling_down t i m' = is_cooling_down t i m"
  by (cases op)
    (auto simp: set_cooldown_def clear_cooldown_def state_mark_success_def state_mark_error_def
      cleanup_expired_cooldowns_def is_cooling_down_def state_is_cooling_down_def account_state_new_def
      split: option.splits if_splits)

lemma cooldown_run_leaves:
  "\<forall>op \<in> set ops. leaves_cooldown t i op \<Longrightarrow> cooldown_run ops m = Some m'
     \<Longrightarrow> is_cooling_down t i m' = is_cooling_down t i m"
  by (induction ops arbitrary: m) (auto dest: cooldown_step_leaves split: option.splits)

text \<open>
  A manual cooldown lasts exactly its duration: until another cooldown, a clear or a success of
  the account, whatever errors are counted, whatever happens to other accounts and however
  often expired cooldowns are swept, the account is cooling exactly before the set time plus
  the duration, and routing's list of available accounts leaves it out exactly then.
\<close>

theorem cooldown_lasts_its_duration:
  assumes "set_cooldown now i d m = Some m'" "\<forall>op \<in> set ops. leaves_cooldown t i op"
    and "cooldown_run ops m' = Some m''"
  shows "(is_cooling_down t i m'' \<longleftrightarrow> t < now + unat d * 1000000000)
     \<and> (i \<in> set (available_accounts t ids m'') \<longleftrightarrow> i \<in> set ids \<and> now + unat d * 1000000000 \<le> t)"
proof -
  have "is_cooling_down t i m' \<longleftrightarrow> t < now + unat d * 1000000000"
    using assms(1) by (auto simp: set_cooldown_def instant_checked_add_def is_cooling_down_def
        state_is_cooling_down_def split: option.splits if_splits)
  then show ?thesis
    using cooldown_run_leaves [OF assms(2,3)] by (auto simp: available_accounts_def)
qed

theorem cooldown_lasts_its_duration_witness:
  "\<exists>m' m''. set_cooldown 5 7 3 Map.empty = Some m' \<and> cooldown_run [Co_Error 6 7, Co_Cleanup 9] m' = Some m''
     \<and> is_cooling_down 1000 7 m''"
proof -
  have "\<exists>m'. set_cooldown 5 7 3 Map.empty = Some m'"
    by (simp add: set_cooldown_def instant_checked_add_def instant_limit_def)
  then obtain m' where m': "set_cooldown 5 7 3 Map.empty = Some m'" by blast
  then obtain m'' where m'': "cooldown_run [Co_Error 6 7, Co_Cleanup 9] m' = Some m''" by simp
  have "\<forall>op \<in> set [Co_Error 6 7, Co_Cleanup 9]. leaves_cooldown 1000 7 op" by simp
  from cooldown_lasts_its_duration [OF m' this m''] m' m'' show ?thesis by auto
qed

end
