(* ===== verification/Capacity_Cache.thy ===== *)
theory Capacity_Cache
  imports Errors "HOL-Library.Multiset"
begin

text \<open>
  The bounded cache of advisory load snapshots
  (\<open>crates/keycompute-routing/src/capacity_cache.rs\<close>, with its configuration in
  \<open>crates/keycompute-config/src/gateway.rs\<close>). \<open>entry\<close> hands out shared handles; the handles
  that callers still hold are a multiset of account identifiers, so that
  \<open>Arc::strong_count(e) == 1\<close> reads "no handle is held". The iteration order of the hash
  map is an argument. The load source is third-party to the cache: the outcome of a refresh
  is an argument too.
\<close>

section \<open>Configuration and state\<close>

record routing_capacity_config =
  rc_candidate_limit :: nat
  rc_cache_entries :: nat
  rc_ttl_ms :: nat
  rc_concurrency :: nat
  rc_timeout_ms :: nat

definition routing_capacity_default :: routing_capacity_config where
  "routing_capacity_default =
     \<lparr>rc_candidate_limit = 32, rc_cache_entries = 4096, rc_ttl_ms = 100, rc_concurrency = 16,
      rc_timeout_ms = 1000\<rparr>"

definition routing_capacity_validate :: "routing_capacity_config \<Rightarrow> string + unit" where
  "routing_capacity_validate c =
     (if \<not> (4 \<le> rc_candidate_limit c \<and> rc_candidate_limit c \<le> 256)
         \<or> \<not> (rc_candidate_limit c \<le> rc_cache_entries c \<and> rc_cache_entries c \<le> 65536)
         \<or> 1000 < rc_ttl_ms c \<or> \<not> (1 \<le> rc_concurrency c \<and> rc_concurrency c \<le> 64)
         \<or> \<not> (1 \<le> rc_timeout_ms c \<and> rc_timeout_ms c \<le> 5000)
      then Inl ''invalid routing capacity snapshot budgets'' else Inr ())"

record capacity_snapshot =
  cs_rpm :: u64
  cs_tpm :: u64
  cs_in_flight :: u64
  cs_in_flight_limit :: u32

record capacity_entry =
  ce_value :: "(instant \<times> capacity_snapshot) option"
  ce_touched :: u64

record capacity_cache =
  cc_config :: routing_capacity_config
  cc_entries :: "uuid \<rightharpoonup> capacity_entry"
  cc_clock :: u64

definition capacity_cache_new :: "routing_capacity_config \<Rightarrow> capacity_cache kc_result" where
  "capacity_cache_new c =
     (case routing_capacity_validate c of
        Inl m \<Rightarrow> Inl (ConfigError m)
      | Inr _ \<Rightarrow> Inr \<lparr>cc_config = c, cc_entries = Map.empty, cc_clock = 0\<rparr>)"

definition capacity_cache_cleared :: "capacity_cache \<Rightarrow> capacity_cache kc_result" where
  "capacity_cache_cleared cc = capacity_cache_new (cc_config cc)"

definition candidate_limit :: "capacity_cache \<Rightarrow> nat" where
  "candidate_limit cc = rc_candidate_limit (cc_config cc)"

section \<open>Handles and eviction\<close>

text \<open>\<open>iter().filter(strong_count == 1).min_by_key(touched)\<close>: the first least recently touched idle entry.\<close>

definition touched_of :: "capacity_cache \<Rightarrow> uuid \<Rightarrow> u64" where
  "touched_of cc i = (case cc_entries cc i of None \<Rightarrow> 0 | Some e \<Rightarrow> ce_touched e)"

definition evict_candidate :: "uuid list \<Rightarrow> uuid multiset \<Rightarrow> capacity_cache \<Rightarrow> uuid option" where
  "evict_candidate order held cc =
     (case filter (\<lambda>i. i \<notin># held) order of
        [] \<Rightarrow> None
      | idle \<Rightarrow> Some (arg_min_list (touched_of cc) idle))"

definition insert_entry :: "uuid \<Rightarrow> u64 \<Rightarrow> capacity_cache \<Rightarrow> capacity_cache" where
  "insert_entry i stamp cc =
     cc\<lparr>cc_entries := (cc_entries cc)(i \<mapsto> \<lparr>ce_value = None, ce_touched = stamp\<rparr>)\<rparr>"

definition cache_entry ::
  "uuid list \<Rightarrow> uuid multiset \<Rightarrow> uuid \<Rightarrow> capacity_cache \<Rightarrow> capacity_cache \<times> uuid multiset \<times> unit kc_result" where
  "cache_entry order held i cc0 =
     (let stamp = cc_clock cc0; cc = cc0\<lparr>cc_clock := stamp + 1\<rparr>
      in case cc_entries cc i of
           Some e \<Rightarrow>
             (cc\<lparr>cc_entries := (cc_entries cc)(i \<mapsto> e\<lparr>ce_touched := stamp\<rparr>)\<rparr>, add_mset i held, Inr ())
         | None \<Rightarrow>
             if card (dom (cc_entries cc)) = rc_cache_entries (cc_config cc)
             then case evict_candidate order held cc of
                    Some v \<Rightarrow>
                      (insert_entry i stamp (cc\<lparr>cc_entries := (cc_entries cc)(v := None)\<rparr>), add_mset i held, Inr ())
                  | None \<Rightarrow> (cc, held, Inl (ServiceUnavailable ''routing snapshot cache is busy''))
             else (insert_entry i stamp cc, add_mset i held, Inr ()))"

definition drop_handle :: "uuid \<Rightarrow> uuid multiset \<Rightarrow> uuid multiset" where
  "drop_handle i held = held - {#i#}"

section \<open>Snapshots\<close>

text \<open>How a refresh under the account's lock ends: a sample, an error of the source, or the deadline.\<close>

datatype refresh_outcome = Sampled capacity_snapshot | Source_Error key_compute_error | Deadline

definition put_value :: "uuid \<Rightarrow> (instant \<times> capacity_snapshot) option \<Rightarrow> capacity_cache \<Rightarrow> capacity_cache" where
  "put_value i v cc =
     (case cc_entries cc i of
        None \<Rightarrow> cc
      | Some e \<Rightarrow> cc\<lparr>cc_entries := (cc_entries cc)(i \<mapsto> e\<lparr>ce_value := v\<rparr>)\<rparr>)"

text \<open>
  \<open>snapshot\<close> once the account's lock is held: \<open>now\<close> is the reading of \<open>elapsed\<close>, \<open>sampled_at\<close>
  the later reading before the source is asked.
\<close>

definition locked_snapshot ::
  "instant \<Rightarrow> instant \<Rightarrow> refresh_outcome \<Rightarrow> uuid \<Rightarrow> capacity_cache \<Rightarrow> capacity_cache \<times> capacity_snapshot kc_result" where
  "locked_snapshot now sampled_at outcome i cc =
     (let refresh =
        (case outcome of
           Sampled s \<Rightarrow> (put_value i (Some (sampled_at, s)) cc, Inr s)
         | Source_Error e \<Rightarrow> (put_value i None cc, Inl e)
         | Deadline \<Rightarrow> (put_value i None cc, Inl (ServiceUnavailable ''routing snapshot deadline exceeded'')))
      in case cc_entries cc i of
           Some e \<Rightarrow>
             (case ce_value e of
                Some (created, s) \<Rightarrow>
                  if now - created < rc_ttl_ms (cc_config cc) * 1000000 then (cc, Inr s) else refresh
              | None \<Rightarrow> refresh)
         | None \<Rightarrow> refresh)"

text \<open>A caller whose deadline passes while it waits for the lock leaves the entry as it is.\<close>

definition capacity_snapshot_of ::
  "uuid list \<Rightarrow> uuid multiset \<Rightarrow> bool \<Rightarrow> instant \<Rightarrow> instant \<Rightarrow> refresh_outcome \<Rightarrow> uuid \<Rightarrow> capacity_cache
     \<Rightarrow> capacity_cache \<times> capacity_snapshot kc_result" where
  "capacity_snapshot_of order held locked now sampled_at outcome i cc =
     (case cache_entry order held i cc of
        (cc', _, Inl e) \<Rightarrow> (cc', Inl e)
      | (cc', _, Inr _) \<Rightarrow>
          if locked then locked_snapshot now sampled_at outcome i cc'
          else (cc', Inl (ServiceUnavailable ''routing snapshot deadline exceeded'')))"

section \<open>Handles keep their entries\<close>

inductive cap_step :: "capacity_cache \<times> uuid multiset \<Rightarrow> capacity_cache \<times> uuid multiset \<Rightarrow> bool" where
  acquire: "set order = dom (cc_entries cc) \<Longrightarrow> distinct order \<Longrightarrow> cache_entry order held i cc = (cc', held', r)
     \<Longrightarrow> cap_step (cc, held) (cc', held')"
| refresh: "i \<in># held \<Longrightarrow> locked_snapshot now sampled_at outcome i cc = (cc', r) \<Longrightarrow> cap_step (cc, held) (cc', held)"
| release: "i \<in># held \<Longrightarrow> cap_step (cc, held) (cc, drop_handle i held)"

definition cap_reach :: "routing_capacity_config \<Rightarrow> capacity_cache \<times> uuid multiset \<Rightarrow> bool" where
  "cap_reach c s \<longleftrightarrow> (\<exists>cc. capacity_cache_new c = Inr cc \<and> cap_step\<^sup>*\<^sup>* (cc, {#}) s)"

definition cap_inv :: "routing_capacity_config \<Rightarrow> capacity_cache \<times> uuid multiset \<Rightarrow> bool" where
  "cap_inv c s \<longleftrightarrow>
     cc_config (fst s) = c \<and> finite (dom (cc_entries (fst s)))
     \<and> card (dom (cc_entries (fst s))) \<le> rc_cache_entries c \<and> set_mset (snd s) \<subseteq> dom (cc_entries (fst s))"

lemma evict_candidate_mem:
  "evict_candidate order held cc = Some v \<Longrightarrow> v \<in> set order \<and> v \<notin># held"
proof -
  assume "evict_candidate order held cc = Some v"
  then obtain idle where "filter (\<lambda>i. i \<notin># held) order = idle" "idle \<noteq> []" "v = arg_min_list (touched_of cc) idle"
    by (auto simp: evict_candidate_def split: list.splits)
  then have "v \<in> set (filter (\<lambda>i. i \<notin># held) order)" using arg_min_list_in by metis
  then show ?thesis by simp
qed

lemma cache_entry_inv:
  assumes "cap_inv c (cc, held)" "set order = dom (cc_entries cc)" "cache_entry order held i cc = (cc', held', r)"
  shows "cap_inv c (cc', held')"
proof (cases "cc_entries cc i")
  case (Some e)
  then have cc': "cc' = cc\<lparr>cc_clock := cc_clock cc + 1,
       cc_entries := (cc_entries cc)(i \<mapsto> e\<lparr>ce_touched := cc_clock cc\<rparr>)\<rparr>" "held' = add_mset i held"
    using assms(3) by (simp_all add: cache_entry_def Let_def)
  have i: "i \<in> dom (cc_entries cc)" using Some by blast
  then have "dom (cc_entries cc') = dom (cc_entries cc)" by (simp add: cc' insert_absorb)
  then show ?thesis using assms(1) i by (simp add: cap_inv_def cc')
next
  case None
  let ?cc = "cc\<lparr>cc_clock := cc_clock cc + 1\<rparr>"
  show ?thesis
  proof (cases "card (dom (cc_entries cc)) = rc_cache_entries (cc_config cc)")
    case False
    with None assms(3) have cc': "cc' = insert_entry i (cc_clock cc) ?cc" "held' = add_mset i held"
      by (simp_all add: cache_entry_def Let_def)
    have "dom (cc_entries cc') = insert i (dom (cc_entries cc))" "cc_config cc' = cc_config cc"
      by (simp_all add: cc' insert_entry_def)
    moreover have "card (insert i (dom (cc_entries cc))) \<le> rc_cache_entries c"
      using False assms(1) by (simp add: cap_inv_def card_insert_if)
    ultimately show ?thesis using assms(1) by (auto simp: cap_inv_def cc'(2))
  next
    case full: True
    show ?thesis
    proof (cases "evict_candidate order held ?cc")
      case None
      with \<open>cc_entries cc i = None\<close> full assms(3) have "cc' = ?cc" "held' = held"
        by (simp_all add: cache_entry_def Let_def)
      then show ?thesis using assms(1) by (simp add: cap_inv_def)
    next
      case (Some v)
      have v: "v \<in> dom (cc_entries cc)" "v \<notin># held"
        using evict_candidate_mem [OF Some] assms(2) by simp_all
      have cc': "cc' = insert_entry i (cc_clock cc) (?cc\<lparr>cc_entries := (cc_entries cc)(v := None)\<rparr>)"
        "held' = add_mset i held"
        using \<open>cc_entries cc i = None\<close> full Some assms(3) by (simp_all add: cache_entry_def Let_def)
      have "dom (cc_entries cc') = insert i (dom (cc_entries cc) - {v})" "cc_config cc' = cc_config cc"
        by (simp_all add: cc' insert_entry_def)
      moreover have "card (insert i (dom (cc_entries cc) - {v})) = card (dom (cc_entries cc))"
      proof -
        have f: "finite (dom (cc_entries cc))" using assms(1) by (simp add: cap_inv_def)
        have "i \<notin> dom (cc_entries cc)" using \<open>cc_entries cc i = None\<close> by blast
        then show ?thesis using f card.remove [OF f v(1)] by simp
      qed
      ultimately show ?thesis using v assms(1) by (auto simp: cap_inv_def cc'(2))
    qed
  qed
qed

lemma put_value_dom [simp]:
  "dom (cc_entries (put_value i v cc)) = dom (cc_entries cc)" "cc_config (put_value i v cc) = cc_config cc"
  by (auto simp: put_value_def split: option.splits)

lemma locked_snapshot_frame:
  assumes "locked_snapshot now sampled_at outcome i cc = (cc', r)"
  shows "dom (cc_entries cc') = dom (cc_entries cc)" "cc_config cc' = cc_config cc"
proof -
  have "\<exists>v. cc' = cc \<or> cc' = put_value i v cc"
    using assms
    by (auto simp: locked_snapshot_def Let_def split: option.splits refresh_outcome.splits if_splits)
  then obtain v where "cc' = cc \<or> cc' = put_value i v cc" by blast
  then show "dom (cc_entries cc') = dom (cc_entries cc)" "cc_config cc' = cc_config cc"
    by (elim disjE; simp)+
qed

lemma cap_step_inv: "cap_step s t \<Longrightarrow> cap_inv c s \<Longrightarrow> cap_inv c t"
proof (induction rule: cap_step.induct)
  case (acquire order cc held i cc' held' r)
  then show ?case by (blast intro: cache_entry_inv)
next
  case (refresh i held now sampled_at outcome cc cc' r)
  then show ?case using locked_snapshot_frame [OF refresh.hyps(2)] by (simp add: cap_inv_def)
next
  case (release i held cc)
  then show ?case by (auto simp: cap_inv_def drop_handle_def dest: in_diffD)
qed

lemma cap_reach_inv: "cap_reach c s \<Longrightarrow> cap_inv c s"
proof -
  assume "cap_reach c s"
  then obtain cc where cc: "capacity_cache_new c = Inr cc" "cap_step\<^sup>*\<^sup>* (cc, {#}) s" by (auto simp: cap_reach_def)
  have "cap_inv c (cc, {#})" using cc(1) by (auto simp: capacity_cache_new_def cap_inv_def split: sum.splits)
  with cc(2) show ?thesis by (induction rule: rtranclp_induct) (auto intro: cap_step_inv)
qed

lemma fresh_or_refreshed:
  assumes "locked_snapshot now sampled_at outcome i cc = (cc', r)"
  shows "case r of
       Inr s \<Rightarrow> (\<exists>e created. cc_entries cc i = Some e \<and> ce_value e = Some (created, s)
                   \<and> now - created < rc_ttl_ms (cc_config cc) * 1000000 \<and> cc' = cc)
              \<or> outcome = Sampled s \<and> cc' = put_value i (Some (sampled_at, s)) cc
     | Inl _ \<Rightarrow> cc' = put_value i None cc"
  using assms
  by (auto simp: locked_snapshot_def Let_def split: option.splits refresh_outcome.splits if_splits)

section \<open>Properties\<close>

text \<open>
  The snapshot cache is bounded and never drops an entry in use: in every reachable state it
  holds at most its configured number of entries, and the entry of every handle a caller
  still holds is in it, so that an account never has two entries refreshing at once.
\<close>

theorem capacity_cache_bounded:
  assumes "cap_reach c (cc, held)"
  shows "card (dom (cc_entries cc)) \<le> rc_cache_entries c \<and> set_mset held \<subseteq> dom (cc_entries cc)"
  using cap_reach_inv [OF assms] by (simp add: cap_inv_def)

theorem capacity_cache_bounded_witness:
  "\<exists>cc. cap_reach routing_capacity_default (cc, {#7#}) \<and> 7 \<in> dom (cc_entries cc)"
proof -
  obtain cc where cc: "capacity_cache_new routing_capacity_default = Inr cc" "cc_entries cc = Map.empty"
      "cc_config cc = routing_capacity_default"
    by (simp add: capacity_cache_new_def routing_capacity_validate_def routing_capacity_default_def)
  obtain cc' r where e: "cache_entry [] {#} 7 cc = (cc', {#7#}, r)"
    using cc(2,3) by (simp add: cache_entry_def Let_def routing_capacity_default_def)
  have "cap_step (cc, {#}) (cc', {#7#})" by (rule acquire [OF _ _ e]) (simp_all add: cc(2))
  then have "cap_reach routing_capacity_default (cc', {#7#})" using cc(1) by (auto simp: cap_reach_def)
  with capacity_cache_bounded [OF this] show ?thesis by auto
qed

text \<open>
  No stale value is served, and none is kept after a failure: a snapshot returned to a caller
  was sampled less than the time to live before the call, or by the call itself, which then
  is what the cache holds; a call that fails leaves no value, so that the next one samples again.
\<close>

theorem capacity_snapshot_fresh:
  assumes "cc_entries cc i \<noteq> None" "locked_snapshot now sampled_at outcome i cc = (cc', r)"
  shows "case r of
       Inr s \<Rightarrow> (\<exists>e created. cc_entries cc' i = Some e \<and> ce_value e = Some (created, s)
                   \<and> (now - created < rc_ttl_ms (cc_config cc) * 1000000 \<or> created = sampled_at \<and> outcome = Sampled s))
     | Inl _ \<Rightarrow> (\<forall>now' sampled' s. snd (locked_snapshot now' sampled' (Sampled s) i cc') = Inr s)"
proof (cases r)
  case (Inr s)
  then show ?thesis using fresh_or_refreshed [OF assms(2)] assms(1) by (auto simp: put_value_def)
next
  case (Inl e)
  then have "cc' = put_value i None cc" using fresh_or_refreshed [OF assms(2)] by simp
  then show ?thesis using Inl assms(1) by (auto simp: put_value_def locked_snapshot_def Let_def)
qed

definition example_cache :: capacity_cache where
  "example_cache = \<lparr>cc_config = routing_capacity_default,
     cc_entries = [7 \<mapsto> \<lparr>ce_value = None, ce_touched = 0\<rparr>], cc_clock = 1\<rparr>"

theorem capacity_snapshot_fresh_witness:
  "\<forall>now' sampled' s. snd (locked_snapshot now' sampled' (Sampled s) 7
     (put_value 7 None example_cache)) = Inr s"
proof -
  have e: "cc_entries example_cache 7 \<noteq> None" by (simp add: example_cache_def)
  have l: "locked_snapshot 9 9 Deadline 7 example_cache
      = (put_value 7 None example_cache, Inl (ServiceUnavailable ''routing snapshot deadline exceeded''))"
    by (simp add: locked_snapshot_def example_cache_def)
  from capacity_snapshot_fresh [OF e l] show ?thesis unfolding sum.case .
qed

end
