(* ===== verification/Execution_Plan.thy ===== *)
theory Execution_Plan
  imports Errors F64
begin

text \<open>
  Execution plans and the policies of the gateway that walk them: targets with their trusted
  selection provenance and redacted credentials (\<open>crates/keycompute-types/src/execution_plan.rs\<close>),
  the capabilities of an account (\<open>crates/keycompute-types/src/account.rs\<close>), the protocols
  (\<open>crates/llm-protocol/provider/src/protocol.rs\<close>), and the retry and failover policies
  (\<open>crates/llm-gateway/src/retry.rs\<close>, \<open>failover.rs\<close>).
\<close>

section \<open>Credentials and targets\<close>

datatype account_selection = Pool | Passthrough_Binding uuid int | Response_Affinity

datatype sensitive_string = Sensitive (expose: string)

definition redacted :: string where "redacted = ''***REDACTED***''"

definition sensitive_debug :: "sensitive_string \<Rightarrow> string" where "sensitive_debug s = redacted"

definition sensitive_display :: "sensitive_string \<Rightarrow> string" where "sensitive_display s = redacted"

definition sensitive_serialize :: "sensitive_string \<Rightarrow> string" where "sensitive_serialize s = redacted"

datatype execution_target =
    UpstreamAccount (et_provider: string) (et_account_id: uuid) (et_endpoint: string)
      (et_upstream_api_key: sensitive_string) (et_selection: account_selection)
  | NodeDispatch (et_model: string)

record execution_plan =
  plan_primary :: execution_target
  plan_fallback_chain :: "execution_target list"

definition plan_new :: "execution_target \<Rightarrow> execution_plan" where
  "plan_new t = \<lparr>plan_primary = t, plan_fallback_chain = []\<rparr>"

definition with_fallback :: "execution_target \<Rightarrow> execution_plan \<Rightarrow> execution_plan" where
  "with_fallback t p = p\<lparr>plan_fallback_chain := plan_fallback_chain p @ [t]\<rparr>"

definition with_fallbacks :: "execution_target list \<Rightarrow> execution_plan \<Rightarrow> execution_plan" where
  "with_fallbacks ts p = p\<lparr>plan_fallback_chain := plan_fallback_chain p @ ts\<rparr>"

definition all_targets :: "execution_plan \<Rightarrow> execution_target list" where
  "all_targets p = plan_primary p # plan_fallback_chain p"

definition new_provider :: "string \<Rightarrow> uuid \<Rightarrow> string \<Rightarrow> string \<Rightarrow> execution_target" where
  "new_provider provider i endpoint key = UpstreamAccount provider i endpoint (Sensitive key) Pool"

definition new_node :: "string \<Rightarrow> execution_target" where "new_node model = NodeDispatch model"

fun with_selection :: "account_selection \<Rightarrow> execution_target \<Rightarrow> execution_target" where
  "with_selection s (UpstreamAccount p i e k _) = UpstreamAccount p i e k s"
| "with_selection s t = t"

fun account_selection_of :: "execution_target \<Rightarrow> account_selection option" where
  "account_selection_of (UpstreamAccount _ _ _ _ s) = Some s"
| "account_selection_of (NodeDispatch _) = None"

fun target_account_id :: "execution_target \<Rightarrow> uuid option" where
  "target_account_id (UpstreamAccount _ i _ _ _) = Some i"
| "target_account_id (NodeDispatch _) = None"

fun provider_name :: "execution_target \<Rightarrow> string option" where
  "provider_name (UpstreamAccount p _ _ _ _) = Some p"
| "provider_name (NodeDispatch _) = None"

fun is_node :: "execution_target \<Rightarrow> bool" where
  "is_node (NodeDispatch _) = True"
| "is_node _ = False"

section \<open>Capabilities and protocols\<close>

datatype account_api_capability = ChatCompletions | Responses | Messages

fun capability_as_str :: "account_api_capability \<Rightarrow> string" where
  "capability_as_str ChatCompletions = ''chat_completions''"
| "capability_as_str Responses = ''responses''"
| "capability_as_str Messages = ''messages''"

definition capability_parse :: "string \<Rightarrow> account_api_capability option" where
  "capability_parse s =
     (if s = ''chat_completions'' then Some ChatCompletions
      else if s = ''responses'' then Some Responses
      else if s = ''messages'' then Some Messages else None)"

definition ascii_lower :: "string \<Rightarrow> string" where
  "ascii_lower s = map (\<lambda>c. let n = of_char c :: nat in if 65 \<le> n \<and> n \<le> 90 then char_of (n + 32) else c) s"

definition eq_ignore_ascii_case :: "string \<Rightarrow> string \<Rightarrow> bool" where
  "eq_ignore_ascii_case a b \<longleftrightarrow> ascii_lower a = ascii_lower b"

datatype protocol_type = Openai | Anthropic

fun protocol_as_str :: "protocol_type \<Rightarrow> string" where
  "protocol_as_str Openai = ''openai''"
| "protocol_as_str Anthropic = ''anthropic''"

text \<open>Only ASCII letters lower to the letters of the two names, so that lowering is ASCII lowering.\<close>

definition protocol_parse :: "string \<Rightarrow> protocol_type option" where
  "protocol_parse s =
     (if ascii_lower s = ''openai'' then Some Openai
      else if ascii_lower s = ''anthropic'' then Some Anthropic else None)"

fun default_endpoint :: "protocol_type \<Rightarrow> string" where
  "default_endpoint Openai = ''https://api.openai.com/v1''"
| "default_endpoint Anthropic = ''https://api.anthropic.com/v1''"

section \<open>Failover and retry\<close>

record failover_manager = fm_max_fallbacks :: nat

definition failover_new :: failover_manager where "failover_new = \<lparr>fm_max_fallbacks = 3\<rparr>"

definition select_next :: "execution_target list \<Rightarrow> nat \<Rightarrow> execution_target option" where
  "select_next targets current_index =
     (if length targets \<le> current_index + 1 then None else Some (targets ! (current_index + 1)))"

record retry_policy =
  rp_max_retries :: u32
  rp_initial_backoff_ms :: u64
  rp_max_backoff_ms :: u64
  rp_backoff_multiplier :: rat

definition retry_policy_default :: retry_policy where
  "retry_policy_default = \<lparr>rp_max_retries = 3, rp_initial_backoff_ms = 100, rp_max_backoff_ms = 10000,
     rp_backoff_multiplier = 2\<rparr>"

definition retry_policy_new :: "u32 \<Rightarrow> retry_policy" where
  "retry_policy_new n = retry_policy_default\<lparr>rp_max_retries := n\<rparr>"

fun should_retry :: "u32 \<Rightarrow> key_compute_error \<Rightarrow> retry_policy \<Rightarrow> bool" where
  "should_retry attempt (AuthError _) p \<longleftrightarrow> False"
| "should_retry attempt (RateLimitExceeded _) p \<longleftrightarrow> False"
| "should_retry attempt e p \<longleftrightarrow> attempt < rp_max_retries p"

text \<open>
  The precision of \<open>f64::powi\<close> is left to the platform, so it is an argument. The exponent
  \<open>(attempt - 1) as i32\<close> is the signed reading of the word; the result is in milliseconds.
\<close>

definition backoff_ms :: "(rat \<Rightarrow> int \<Rightarrow> rat) \<Rightarrow> u32 \<Rightarrow> retry_policy \<Rightarrow> u64" where
  "backoff_ms powi_f64 attempt p =
     (if attempt = 0 then 0
      else let backoff = word_of_int (f64_as_u64
                 (f64_mul (f64_of_int (uint (rp_initial_backoff_ms p)))
                          (powi_f64 (rp_backoff_multiplier p) (sint (attempt - 1)))))
           in min backoff (rp_max_backoff_ms p))"

definition backoff_duration :: "(rat \<Rightarrow> int \<Rightarrow> rat) \<Rightarrow> u32 \<Rightarrow> retry_policy \<Rightarrow> duration" where
  "backoff_duration powi_f64 attempt p = unat (backoff_ms powi_f64 attempt p) * 1000000"

record retry_state =
  rs_attempt :: u32
  rs_policy :: retry_policy

definition retry_state_new :: "retry_policy \<Rightarrow> retry_state" where
  "retry_state_new p = \<lparr>rs_attempt = 0, rs_policy = p\<rparr>"

definition next_backoff :: "(rat \<Rightarrow> int \<Rightarrow> rat) \<Rightarrow> retry_state \<Rightarrow> retry_state \<times> duration" where
  "next_backoff powi_f64 s =
     (let s' = s\<lparr>rs_attempt := rs_attempt s + 1\<rparr> in (s', backoff_duration powi_f64 (rs_attempt s') (rs_policy s')))"

definition state_should_retry :: "key_compute_error \<Rightarrow> retry_state \<Rightarrow> bool" where
  "state_should_retry e s = should_retry (rs_attempt s) e (rs_policy s)"

lemma unat_word_of_u64: "0 \<le> n \<Longrightarrow> n < 2 ^ 64 \<Longrightarrow> unat (word_of_int n :: u64) = nat n"
  by (simp add: unat_eq_nat_uint uint_word_of_int take_bit_int_eq_self)

lemma backoff_word:
  "unat (min (word_of_int (f64_as_u64 x) :: u64) m) = min (nat (f64_as_u64 x)) (unat m)"
proof -
  have "0 \<le> f64_as_u64 x" "f64_as_u64 x < 2 ^ 64" by (simp_all add: f64_as_u64_def)
  from unat_word_of_u64 [OF this] show ?thesis by (simp add: min_def word_le_nat_alt)
qed

lemma f64_as_u64_of_int: "0 \<le> n \<Longrightarrow> f64_as_u64 (of_int n) = min n (2 ^ 64 - 1)"
  by (simp add: f64_as_u64_def f64_trunc_def)

lemma sint_small: "a < 2 ^ 31 \<Longrightarrow> sint (of_nat a :: u32) = int a"
  by (simp add: signed_of_nat signed_take_bit_int_eq_self)

lemma of_nat_nonzero:
  assumes "0 < n" "n < 2 ^ 32"
  shows "(of_nat n :: u32) \<noteq> 0"
proof -
  have "unat (of_nat n :: u32) = n" using assms by (simp add: unsigned_of_nat take_bit_nat_eq_self)
  then show ?thesis using assms(1) by fastforce
qed

lemma nat_min: "nat (min a b) = min (nat a) (nat b)"
  by (cases "a \<le> b") (simp_all add: min_absorb1 min_absorb2 nat_mono)

section \<open>Properties\<close>

text \<open>
  The backoff of the default schedule is exact: the \<open>n\<close>-th retry waits \<open>100 * 2 ^ (n - 1)\<close>
  milliseconds, capped at ten seconds, with no rounding error and no overflow for any number of
  attempts the counter can hold before its sign bit. The only fact used of \<open>powi\<close> is that
  powers of two are exact.
\<close>

theorem default_backoff_exact:
  assumes "\<forall>k. powi_f64 2 k = 2 powi k" "0 < n" "n \<le> 2 ^ 31"
  shows "backoff_duration powi_f64 (of_nat n) (retry_policy_new r) = min (100 * 2 ^ (n - 1)) 10000 * 1000000"
proof -
  have z: "(of_nat n :: u32) \<noteq> 0" using assms(2,3) by (intro of_nat_nonzero) simp_all
  have "(of_nat n :: u32) - 1 = of_nat (n - 1)" using assms(2) by (simp add: of_nat_diff)
  then have e: "sint ((of_nat n :: u32) - 1) = int (n - 1)" using assms(3) by (simp add: sint_small)
  have x: "f64_mul (f64_of_int 100) (2 ^ (n - Suc 0)) = of_int (100 * 2 ^ (n - Suc 0))"
    using f64_round_scaled [of 100 "int (n - 1)"] f64_of_int_exact [of 100] by (simp add: f64_mul_def power_int_def)
  have "unat (backoff_ms powi_f64 (of_nat n) (retry_policy_new r))
      = min (nat (f64_as_u64 (of_int (100 * 2 ^ (n - 1))))) 10000"
    using z assms(1) unfolding backoff_ms_def retry_policy_new_def retry_policy_default_def
    by (simp add: Let_def e x backoff_word del: of_int_mult of_int_power)
  also have "nat (f64_as_u64 (of_int (100 * 2 ^ (n - 1)))) = min (100 * 2 ^ (n - 1)) (2 ^ 64 - 1)"
    by (subst f64_as_u64_of_int) (simp_all add: nat_min nat_mult_distrib nat_power_eq)
  also have "min (min (100 * 2 ^ (n - 1)) (2 ^ 64 - 1)) 10000 = (min (100 * 2 ^ (n - 1)) 10000 :: nat)"
    by (simp add: min.assoc)
  finally show ?thesis by (simp add: backoff_duration_def)
qed

theorem default_backoff_exact_witness:
  "backoff_duration (\<lambda>x k. x powi k) (of_nat 3) (retry_policy_new 5) = 400 * 1000000"
  by (subst default_backoff_exact) simp_all

end
