(* ===== verification/Routing.thy ===== *)
theory Routing
  imports Health_Store Account_State Capacity_Cache Execution_Plan "HOL-Library.Product_Lexorder"
begin

text \<open>
  The routing engine (\<open>crates/keycompute-routing/src/lib.rs\<close>): access modes, the choice of the
  entry protocol, and the selection of accounts by health, load, priority and rotation. The
  databases are the tables of \<open>Account_Table\<close>; health, cooldowns and load snapshots come from the
  models of their components. Arguments stand for what the engine calls outside this
  library: decryption, the requirements of a native node request, and the node index.
\<close>

section \<open>Requests and engine\<close>

datatype model_access_mode = AccountPool | Passthrough | NodeDispatchMode

record 'b request_context =
  ctx_tenant_id :: uuid
  ctx_model :: string
  ctx_access_mode :: model_access_mode
  ctx_passthrough_binding :: bool
  ctx_native_openai_chat :: "'b option"
  ctx_native_anthropic :: "'b option"
  ctx_native_openai_responses :: "'b option"

definition required_api_capability :: "'b request_context \<Rightarrow> account_api_capability" where
  "required_api_capability ctx =
     (if ctx_native_anthropic ctx \<noteq> None then Messages
      else if ctx_native_openai_responses ctx \<noteq> None then Responses
      else ChatCompletions)"

definition max_accounts_per_provider :: nat where "max_accounts_per_provider = 3"

text \<open>
  The engine's own state is the rotation counter and the health store it hydrates. \<open>eng_db\<close> is the
  writer database (none, unreachable, or its tenants and accounts), \<open>eng_crypto\<close> the global
  key's decryption, \<open>eng_loads\<close> the load snapshots of the capacity cache when a policy is set.
\<close>

datatype database = No_Database | Database_Error | Database "uuid \<rightharpoonup> string" "account list"

record 'n routing_engine =
  eng_capacity :: "(uuid \<Rightarrow> capacity_snapshot kc_result) option"
  eng_candidate_limit :: nat
  eng_rotation :: u64
  eng_account_states :: account_states
  eng_health :: health_store
  eng_db :: database
  eng_providers :: "string list"
  eng_crypto :: "(string \<Rightarrow> string + string) option"
  eng_node_ready :: "((uuid \<Rightarrow> string \<Rightarrow> bool kc_result option) \<times> (uuid \<Rightarrow> 'n \<Rightarrow> bool kc_result option)) option"

section \<open>Load scores\<close>

definition u64_sat_mul :: "u64 \<Rightarrow> u64 \<Rightarrow> u64" where
  "u64_sat_mul a b = (if unat a * unat b < 2 ^ 64 then a * b else - 1)"

definition limit_of_i32 :: "int \<Rightarrow> u64" where "limit_of_i32 n = word_of_int (max n 1)"

definition pressure :: "u64 \<Rightarrow> u64 \<Rightarrow> u64" where
  "pressure used limit = u64_sat_mul used 1000000 div limit"

definition account_capacity_score :: "account \<Rightarrow> capacity_snapshot option \<Rightarrow> bool \<times> u64" where
  "account_capacity_score a l =
     (case l of
        None \<Rightarrow> (False, 0)
      | Some s \<Rightarrow>
          let rpm = limit_of_i32 (acc_rpm_limit a); tpm = limit_of_i32 (acc_tpm_limit a);
              active = max (ucast (cs_in_flight_limit s)) 1;
              exhausted = (rpm \<le> cs_rpm s \<or> tpm \<le> cs_tpm s \<or> active \<le> cs_in_flight s)
          in (exhausted, max (max (pressure (cs_rpm s) rpm) (pressure (cs_tpm s) tpm))
                             (pressure (cs_in_flight s) active)))"

section \<open>Selection of accounts\<close>

text \<open>\<open>identities.rotate_left(sequence % len)\<close> and the position of an identity in the result.\<close>

definition rotated_identities :: "u64 \<Rightarrow> uuid list \<Rightarrow> uuid list" where
  "rotated_identities sequence ids =
     (let s = sort ids in if s = [] then [] else rotate (unat sequence mod length s) s)"

fun index_of :: "uuid list \<Rightarrow> uuid \<Rightarrow> nat" where
  "index_of [] i = 0"
| "index_of (x # xs) i = (if x = i then 0 else Suc (index_of xs i))"

text \<open>The loop that fills the shortlist with rotating candidates until the limit.\<close>

fun explore :: "nat \<Rightarrow> uuid list \<Rightarrow> uuid set \<Rightarrow> uuid set" where
  "explore limit [] selected = selected"
| "explore limit (i # is) selected =
     (if limit \<le> card selected then selected else explore limit is (insert i selected))"

definition shortlist :: "nat \<Rightarrow> (uuid \<Rightarrow> nat) \<Rightarrow> health_store \<Rightarrow> account list \<Rightarrow> account list" where
  "shortlist limit tie st accounts =
     (if limit < length accounts
      then let sorted = sort_key (\<lambda>a. (h_penalty (account_health_for a st), - acc_priority a, acc_id a)) accounts;
               selected = set (map acc_id (take max_accounts_per_provider sorted));
               exploration = sort_key tie (map acc_id sorted)
           in filter (\<lambda>a. acc_id a \<in> explore limit exploration selected) sorted
      else accounts)"

text \<open>
  The snapshots of all candidates, or the error of one of them (the first in the list; the code reads
  them concurrently and reports the first to fail).
\<close>

fun load_snapshots :: "(uuid \<Rightarrow> capacity_snapshot kc_result) \<Rightarrow> uuid list \<Rightarrow> (uuid \<rightharpoonup> capacity_snapshot) kc_result" where
  "load_snapshots f [] = Inr Map.empty"
| "load_snapshots f (i # is) =
     (case f i of
        Inl e \<Rightarrow> Inl e
      | Inr s \<Rightarrow> (case load_snapshots f is of Inl e \<Rightarrow> Inl e | Inr m \<Rightarrow> Inr (m(i \<mapsto> s))))"

definition sort_accounts ::
  "bool \<Rightarrow> (uuid \<Rightarrow> nat) \<Rightarrow> (uuid \<rightharpoonup> capacity_snapshot) \<Rightarrow> health_store \<Rightarrow> account list \<Rightarrow> account list" where
  "sort_accounts has_capacity tie loads st =
     sort_key (\<lambda>a. let score = account_capacity_score a (loads (acc_id a))
        in (fst score, h_penalty (account_health_for a st), snd score, - acc_priority a,
            if has_capacity then tie (acc_id a) else acc_id a))"

definition decrypt_upstream_api_key :: "(string \<Rightarrow> string + string) option \<Rightarrow> string \<Rightarrow> string kc_result" where
  "decrypt_upstream_api_key crypto encrypted =
     (case crypto of
        None \<Rightarrow> Inr encrypted
      | Some d \<Rightarrow> (case d encrypted of
            Inr key \<Rightarrow> Inr key | Inl e \<Rightarrow> Inl (Internal (''Failed to decrypt upstream API key: '' @ e))))"

text \<open>The target of one account, if it is not cooling, decrypts, and has an endpoint.\<close>

definition account_target ::
  "(uuid \<Rightarrow> instant) \<Rightarrow> 'n routing_engine \<Rightarrow> string \<Rightarrow> account \<Rightarrow> execution_target option" where
  "account_target clock eng provider a =
     (if is_cooling_down (clock (acc_id a)) (acc_id a) (eng_account_states eng) then None
      else case decrypt_upstream_api_key (eng_crypto eng) (acc_upstream_api_key_encrypted a) of
        Inl _ \<Rightarrow> None
      | Inr key \<Rightarrow>
          if acc_endpoint a = []
          then (case protocol_parse provider of
                  Some p \<Rightarrow> Some (new_provider provider (acc_id a) (default_endpoint p) key)
                | None \<Rightarrow> None)
          else Some (new_provider provider (acc_id a) (acc_endpoint a) key))"

fun pick_targets :: "nat \<Rightarrow> (account \<Rightarrow> execution_target option) \<Rightarrow> account list \<Rightarrow> execution_target list" where
  "pick_targets n f [] = []"
| "pick_targets n f (a # as) =
     (if n = 0 then []
      else case f a of
        Some t \<Rightarrow> t # pick_targets (n - 1) f as
      | None \<Rightarrow> pick_targets n f as)"

definition hydrate_all :: "account list \<Rightarrow> health_store \<Rightarrow> health_store" where
  "hydrate_all accounts st = fold (\<lambda>a s. fst (hydrate_account_health a s)) accounts st"

text \<open>
  \<open>select_best_accounts\<close>. \<open>clock\<close> and \<open>clock'\<close> give the clock readings of the cooldown checks
  before and after the load snapshots.
\<close>

definition select_best_accounts ::
  "(uuid \<Rightarrow> instant) \<Rightarrow> (uuid \<Rightarrow> instant) \<Rightarrow> string \<Rightarrow> account list \<Rightarrow> account_api_capability
     \<Rightarrow> 'n routing_engine \<Rightarrow> 'n routing_engine \<times> execution_target list kc_result" where
  "select_best_accounts clock clock' provider rows capability eng0 =
     (let accounts = filter (\<lambda>a. capability_as_str capability \<in> set (acc_api_capabilities a)) rows
      in if accounts = [] then (eng0, Inr [])
         else
           let st = hydrate_all accounts (eng_health eng0);
               sequence = eng_rotation eng0;
               eng = eng0\<lparr>eng_health := st, eng_rotation := sequence + 1\<rparr>;
               routable = filter (\<lambda>a. account_is_routable a st) accounts;
               tie = index_of (rotated_identities sequence (map acc_id routable))
           in case eng_capacity eng of
                None \<Rightarrow>
                  (eng, Inr (pick_targets max_accounts_per_provider (account_target clock' eng provider)
                               (sort_accounts False tie Map.empty st routable)))
              | Some loads_of \<Rightarrow>
                  let awake = filter (\<lambda>a. \<not> is_cooling_down (clock (acc_id a)) (acc_id a) (eng_account_states eng)) routable;
                      candidates = shortlist (eng_candidate_limit eng) tie st awake
                  in case load_snapshots loads_of (map acc_id candidates) of
                       Inl e \<Rightarrow> (eng, Inl e)
                     | Inr loads \<Rightarrow>
                         (eng, Inr (pick_targets max_accounts_per_provider (account_target clock' eng provider)
                                      (sort_accounts True tie loads st candidates))))"

section \<open>Routing\<close>

definition select_fallback_account :: "instant \<Rightarrow> uuid \<Rightarrow> string \<Rightarrow> 'n routing_engine \<Rightarrow> execution_target list" where
  "select_fallback_account now new_id provider eng =
     (if is_cooling_down now new_id (eng_account_states eng) then []
      else [new_provider provider new_id (''https://api.'' @ provider @ ''.com/v1'') ''mock-api-key''])"

definition load_accounts ::
  "(uuid \<rightharpoonup> string) \<Rightarrow> account list \<Rightarrow> string \<Rightarrow> uuid \<Rightarrow> string \<Rightarrow> account_api_capability \<Rightarrow> account list" where
  "load_accounts tenants tbl provider tenant model capability =
     filter (\<lambda>a. acc_provider a = provider)
       (if model = [] then find_enabled_by_tenant tenants tenant tbl
        else find_by_model tenants tenant model (capability_as_str capability) tbl)"

definition select_account_for_model ::
  "(uuid \<Rightarrow> instant) \<Rightarrow> (uuid \<Rightarrow> instant) \<Rightarrow> instant \<Rightarrow> uuid \<Rightarrow> string \<Rightarrow> uuid \<Rightarrow> string \<Rightarrow> account_api_capability
     \<Rightarrow> 'n routing_engine \<Rightarrow> 'n routing_engine \<times> execution_target list kc_result" where
  "select_account_for_model clock clock' now new_id provider tenant model capability eng =
     (case eng_db eng of
        No_Database \<Rightarrow> (eng, Inr (select_fallback_account now new_id provider eng))
      | Database_Error \<Rightarrow> (eng, Inr (select_fallback_account now new_id provider eng))
      | Database tenants tbl \<Rightarrow>
          select_best_accounts clock clock' provider
            (load_accounts tenants tbl provider tenant model capability) capability eng)"

definition rank_providers :: "string list \<Rightarrow> string \<Rightarrow> string list" where
  "rank_providers providers entry_protocol = filter (\<lambda>p. eq_ignore_ascii_case p entry_protocol) providers"

text \<open>The targets of every ranked provider in turn; the first error ends the loop.\<close>

fun collect_targets ::
  "('n routing_engine \<Rightarrow> string \<Rightarrow> 'n routing_engine \<times> execution_target list kc_result) \<Rightarrow> string list
     \<Rightarrow> 'n routing_engine \<Rightarrow> 'n routing_engine \<times> execution_target list kc_result" where
  "collect_targets f [] eng = (eng, Inr [])"
| "collect_targets f (p # ps) eng =
     (case f eng p of
        (eng', Inl e) \<Rightarrow> (eng', Inl e)
      | (eng', Inr ts) \<Rightarrow>
          (case collect_targets f ps eng' of
             (eng'', Inl e) \<Rightarrow> (eng'', Inl e)
           | (eng'', Inr us) \<Rightarrow> (eng'', Inr (ts @ us))))"

definition entry_protocol :: "'b request_context \<Rightarrow> string" where
  "entry_protocol ctx = (if ctx_native_anthropic ctx \<noteq> None then ''anthropic'' else ''openai'')"

definition native_count :: "'b request_context \<Rightarrow> nat" where
  "native_count ctx = (if ctx_native_openai_chat ctx \<noteq> None then 1 else 0)
     + (if ctx_native_anthropic ctx \<noteq> None then 1 else 0)
     + (if ctx_native_openai_responses ctx \<noteq> None then 1 else 0)"

text \<open>
  The native body a node would receive, responses before messages before chat; \<open>requirements\<close>
  derives what a node must support, or rejects the body. A lookup that times out is \<open>None\<close>.
\<close>

definition route_node ::
  "('b \<Rightarrow> string + 'n) \<Rightarrow> 'b request_context \<Rightarrow> 'n routing_engine \<Rightarrow> execution_plan kc_result" where
  "route_node requirements ctx eng =
     (if 1 < native_count ctx \<or> ctx_passthrough_binding ctx
      then Inl (InvalidRequest ''Conflicting NodeDispatch request provenance'')
      else case eng_node_ready eng of
        None \<Rightarrow> Inl (ServiceUnavailable ''NodeDispatch metadata service unavailable'')
      | Some (has_ready_node, has_ready_native) \<Rightarrow>
          (case (case (ctx_native_openai_responses ctx, ctx_native_anthropic ctx) of
                   (Some b, _) \<Rightarrow> Some b
                 | (None, Some b) \<Rightarrow> Some b
                 | (None, None) \<Rightarrow> ctx_native_openai_chat ctx) of
             Some b \<Rightarrow>
               (case requirements b of
                  Inl e \<Rightarrow> Inl (InvalidRequest e)
                | Inr needed \<Rightarrow>
                    (case has_ready_native (ctx_tenant_id ctx) needed of
                       None \<Rightarrow> Inl (ServiceUnavailable ''Node capability lookup timed out'')
                     | Some (Inl e) \<Rightarrow> Inl e
                     | Some (Inr ready) \<Rightarrow>
                         if \<not> ready then Inl (NoReadyNode (ctx_model ctx)) else Inr (plan_new (new_node (ctx_model ctx)))))
           | None \<Rightarrow>
               (case has_ready_node (ctx_tenant_id ctx) (ctx_model ctx) of
                  None \<Rightarrow> Inl (ServiceUnavailable ''Node capability lookup timed out'')
                | Some (Inl e) \<Rightarrow> Inl e
                | Some (Inr ready) \<Rightarrow>
                    if \<not> ready then Inl (NoReadyNode (ctx_model ctx)) else Inr (plan_new (new_node (ctx_model ctx))))))"

text \<open>
  \<open>route_inner\<close>. \<open>clock\<close> readings are per provider; \<open>fresh\<close> is the identifier a fallback target
  of a provider would get.
\<close>

definition route ::
  "('b \<Rightarrow> string + 'n) \<Rightarrow> (string \<Rightarrow> uuid \<Rightarrow> instant) \<Rightarrow> (string \<Rightarrow> uuid \<Rightarrow> instant) \<Rightarrow> (string \<Rightarrow> instant)
     \<Rightarrow> (string \<Rightarrow> uuid) \<Rightarrow> 'b request_context \<Rightarrow> 'n routing_engine \<Rightarrow> 'n routing_engine \<times> execution_plan kc_result" where
  "route requirements clock clock' now fresh ctx eng =
     (case ctx_access_mode ctx of
        Passthrough \<Rightarrow> (eng, Inl (InvalidRequest ''Passthrough requires an account grant resolver''))
      | NodeDispatchMode \<Rightarrow> (eng, route_node requirements ctx eng)
      | AccountPool \<Rightarrow>
          (case collect_targets
                  (\<lambda>e p. select_account_for_model (clock p) (clock' p) (now p) (fresh p) p (ctx_tenant_id ctx)
                           (ctx_model ctx) (required_api_capability ctx) e)
                  (rank_providers (eng_providers eng) (entry_protocol ctx)) eng of
             (eng', Inl e) \<Rightarrow> (eng', Inl e)
           | (eng', Inr []) \<Rightarrow> (eng', Inl (RoutingFailed (ctx_model ctx)))
           | (eng', Inr (t # ts)) \<Rightarrow> (eng', Inr \<lparr>plan_primary = t, plan_fallback_chain = ts\<rparr>)))"

definition add_provider :: "string \<Rightarrow> 'n routing_engine \<Rightarrow> 'n routing_engine" where
  "add_provider p eng =
     (if p \<in> set (eng_providers eng) then eng else eng\<lparr>eng_providers := eng_providers eng @ [p]\<rparr>)"

definition remove_provider :: "string \<Rightarrow> 'n routing_engine \<Rightarrow> 'n routing_engine" where
  "remove_provider p eng = eng\<lparr>eng_providers := filter (\<lambda>q. q \<noteq> p) (eng_providers eng)\<rparr>"

end
