(* ===== verification/Routing_Correct.thy ===== *)
theory Routing_Correct
  imports Routing Health_Sync
begin

text \<open>
  Correctness of the routing engine: what every selected target satisfies, which accounts are
  preferred, how the shortlist is formed, and how the load score reads.
\<close>

section \<open>Hydration does not change what routing reads\<close>

lemma hydrate_read_self: "account_health_for a (fst (hydrate_account_health a st)) = account_health_for a st"
proof (cases "hs_account_health st (acc_id a)")
  case None
  then show ?thesis by (simp add: hydrate_account_health_def account_health_for_def Let_def from_account_def)
next
  case (Some h)
  then show ?thesis
    by (cases "h_configuration_updated_at h")
      (auto simp: hydrate_account_health_def account_health_for_def Let_def from_account_def)
qed

lemma hydrate_read_other:
  "acc_id b \<noteq> acc_id a \<Longrightarrow> account_health_for a (fst (hydrate_account_health b st)) = account_health_for a st"
  by (auto simp: hydrate_account_health_def account_health_for_def Let_def split: option.split)

lemma hydrate_all_read:
  assumes "\<forall>b \<in> set as. acc_id b = acc_id a \<longrightarrow> b = a"
  shows "account_health_for a (hydrate_all as st) = account_health_for a st"
  using assms
proof (induction as arbitrary: st)
  case (Cons b as)
  have "account_health_for a (fst (hydrate_account_health b st)) = account_health_for a st"
    using Cons.prems hydrate_read_self hydrate_read_other by (cases "acc_id b = acc_id a") auto
  then show ?case using Cons by (simp add: hydrate_all_def)
qed (simp add: hydrate_all_def)

section \<open>Picking targets\<close>

lemma pick_targets_take: "pick_targets n f as = take n (List.map_filter f as)"
  by (induction as arbitrary: n) (auto simp: List.map_filter_def take_Cons' split: option.splits)

lemma pick_targets_mem: "t \<in> set (pick_targets n f as) \<Longrightarrow> \<exists>a \<in> set as. f a = Some t"
  by (induction as arbitrary: n) (auto split: if_splits option.splits)

lemma length_pick_targets: "length (pick_targets n f as) \<le> n"
  by (simp add: pick_targets_take)

lemma set_sort_accounts [simp]: "set (sort_accounts c tie loads st as) = set as"
  by (simp add: sort_accounts_def)

lemma set_shortlist: "set (shortlist n tie st as) \<subseteq> set as"
  by (auto simp: shortlist_def Let_def)

section \<open>Every selected target\<close>

text \<open>What the selection promises of an account it turns into a target.\<close>

definition eligible_account ::
  "(uuid \<Rightarrow> instant) \<Rightarrow> string \<Rightarrow> account_api_capability \<Rightarrow> 'n routing_engine \<Rightarrow> account \<Rightarrow> execution_target \<Rightarrow> bool" where
  "eligible_account clock' provider capability eng a t \<longleftrightarrow>
     capability_as_str capability \<in> set (acc_api_capabilities a)
     \<and> account_is_routable a (eng_health eng)
     \<and> account_target clock' eng provider a = Some t"

definition same_view :: "account list \<Rightarrow> 'n routing_engine \<Rightarrow> 'n routing_engine \<Rightarrow> bool" where
  "same_view tbl eng eng' \<longleftrightarrow>
     eng_account_states eng' = eng_account_states eng \<and> eng_crypto eng' = eng_crypto eng
     \<and> eng_db eng' = eng_db eng \<and> eng_capacity eng' = eng_capacity eng
     \<and> (\<forall>a \<in> set tbl. account_health_for a (eng_health eng') = account_health_for a (eng_health eng))"

lemma same_view_refl [simp]: "same_view tbl eng eng" by (simp add: same_view_def)

lemma same_view_trans: "same_view tbl a b \<Longrightarrow> same_view tbl b c \<Longrightarrow> same_view tbl a c"
  by (simp add: same_view_def)

lemma same_view_target: "same_view tbl eng eng' \<Longrightarrow> account_target clock eng' p a = account_target clock eng p a"
  by (simp add: same_view_def account_target_def)

lemma select_best_accounts_cases:
  assumes "select_best_accounts clock clock' provider rows capability eng = (eng', r)"
  obtains "eng' = eng" "r = Inr []" "filter (\<lambda>a. capability_as_str capability \<in> set (acc_api_capabilities a)) rows = []"
  | st candidates tie loads routable where
      "routable = filter (\<lambda>a. account_is_routable a st)
         (filter (\<lambda>a. capability_as_str capability \<in> set (acc_api_capabilities a)) rows)"
      "st = hydrate_all (filter (\<lambda>a. capability_as_str capability \<in> set (acc_api_capabilities a)) rows) (eng_health eng)"
      "eng' = eng\<lparr>eng_health := st, eng_rotation := eng_rotation eng + 1\<rparr>"
      "set candidates \<subseteq> set routable" "eng_capacity eng = None \<Longrightarrow> candidates = routable \<and> loads = Map.empty"
      "(\<exists>e. r = Inl e) \<or> r = Inr (pick_targets max_accounts_per_provider (account_target clock' eng' provider)
         (sort_accounts (eng_capacity eng \<noteq> None) tie loads st candidates))"
proof (cases "filter (\<lambda>a. capability_as_str capability \<in> set (acc_api_capabilities a)) rows = []")
  case True
  then show thesis using assms that(1) by (simp add: select_best_accounts_def Let_def)
next
  case False
  let ?acc = "filter (\<lambda>a. capability_as_str capability \<in> set (acc_api_capabilities a)) rows"
  let ?st = "hydrate_all ?acc (eng_health eng)"
  let ?eng = "eng\<lparr>eng_health := ?st, eng_rotation := eng_rotation eng + 1\<rparr>"
  let ?routable = "filter (\<lambda>a. account_is_routable a ?st) ?acc"
  let ?tie = "index_of (rotated_identities (eng_rotation eng) (map acc_id ?routable))"
  show thesis
  proof (cases "eng_capacity eng")
    case None
    show thesis
      by (rule that(2) [of ?routable ?st ?routable Map.empty ?tie])
        (use assms False None in \<open>auto simp: select_best_accounts_def Let_def\<close>)
  next
    case (Some f)
    let ?awake = "filter (\<lambda>a. \<not> is_cooling_down (clock (acc_id a)) (acc_id a) (eng_account_states eng)) ?routable"
    let ?c = "shortlist (eng_candidate_limit eng) ?tie ?st ?awake"
    have sub: "set ?c \<subseteq> set ?routable" using set_shortlist [of "eng_candidate_limit eng" ?tie ?st ?awake] by auto
    show thesis
    proof (cases "load_snapshots f (map acc_id ?c)")
      case (Inl e)
      then have e: "eng' = ?eng" "r = Inl e"
        using assms False Some by (simp_all add: select_best_accounts_def Let_def)
      show thesis
        by (rule that(2) [of ?routable ?st ?c Map.empty ?tie]) (rule refl e sub | simp add: Some e)+
    next
      case (Inr loads)
      then have "select_best_accounts clock clock' provider rows capability eng = (?eng,
         Inr (pick_targets max_accounts_per_provider (account_target clock' ?eng provider)
           (sort_accounts True ?tie loads ?st ?c)))"
        using False Some by (simp add: select_best_accounts_def Let_def)
      then have e: "eng' = ?eng" "r = Inr (pick_targets max_accounts_per_provider (account_target clock' eng' provider)
         (sort_accounts True ?tie loads ?st ?c))" unfolding assms by blast+
      show thesis
        by (rule that(2) [of ?routable ?st ?c loads ?tie]) (rule refl e(1) sub | simp add: Some e(2))+
    qed
  qed
qed

lemma rows_view:
  assumes "distinct (map acc_id tbl)" "set rows \<subseteq> set tbl" "a \<in> set tbl"
  shows "account_health_for a (hydrate_all (filter P rows) st) = account_health_for a st"
proof (rule hydrate_all_read, intro ballI impI)
  fix b
  assume "b \<in> set (filter P rows)" "acc_id b = acc_id a"
  then show "b = a" using assms by (auto simp: distinct_map dest: inj_onD)
qed

lemma select_best_sound:
  assumes "select_best_accounts clock clock' provider rows capability eng = (eng', r)"
    and "distinct (map acc_id tbl)" "set rows \<subseteq> set tbl"
  shows "same_view tbl eng eng'"
    "r = Inr ts \<Longrightarrow> t \<in> set ts \<Longrightarrow> \<exists>a \<in> set rows. eligible_account clock' provider capability eng a t"
    "r = Inr ts \<Longrightarrow> length ts \<le> 3"
proof -
  have "same_view tbl eng eng' \<and> (\<forall>ts. r = Inr ts \<longrightarrow> length ts \<le> 3 \<and>
      (\<forall>t \<in> set ts. \<exists>a \<in> set rows. eligible_account clock' provider capability eng a t))"
    using assms(1)
  proof (cases rule: select_best_accounts_cases)
    case (2 st candidates tie loads routable)
    have v: "account_health_for a st = account_health_for a (eng_health eng)" if "a \<in> set tbl" for a
      unfolding 2(2) using rows_view [OF assms(2,3) that] .
    then have sv: "same_view tbl eng eng'" using 2(3) by (simp add: same_view_def)
    have el: "\<exists>a \<in> set rows. eligible_account clock' provider capability eng a t"
      if "a \<in> set candidates" "account_target clock' eng' provider a = Some t" for a t
    proof -
      have a: "a \<in> set rows" "capability_as_str capability \<in> set (acc_api_capabilities a)"
        "account_is_routable a st" using that(1) 2(1,4) by auto
      have "account_is_routable a (eng_health eng)"
        using a v assms(3) by (auto simp: account_is_routable_def)
      then show ?thesis using a that(2) same_view_target [OF sv, of clock' provider a]
        by (auto simp: eligible_account_def)
    qed
    have "length ts \<le> 3 \<and> (\<forall>t \<in> set ts. \<exists>a \<in> set rows. eligible_account clock' provider capability eng a t)"
      if "r = Inr ts" for ts
    proof -
      have ts: "ts = pick_targets max_accounts_per_provider (account_target clock' eng' provider)
         (sort_accounts (eng_capacity eng \<noteq> None) tie loads st candidates)" using 2(6) that by auto
      show ?thesis
        unfolding ts using length_pick_targets [of max_accounts_per_provider] el
        by (auto dest!: pick_targets_mem simp: max_accounts_per_provider_def)
    qed
    with sv show ?thesis by blast
  qed simp
  then show "same_view tbl eng eng'"
    "r = Inr ts \<Longrightarrow> t \<in> set ts \<Longrightarrow> \<exists>a \<in> set rows. eligible_account clock' provider capability eng a t"
    "r = Inr ts \<Longrightarrow> length ts \<le> 3" by blast+
qed

lemma load_accounts_mem:
  assumes "a \<in> set (load_accounts tenants tbl provider tenant model capability)"
  shows "a \<in> set tbl" "acc_provider a = provider" "non_pt_predicate tenants tenant a"
    "model \<noteq> [] \<Longrightarrow> model \<in> set (acc_models_supported a)"
  using assms
  by (auto simp: load_accounts_def find_enabled_by_tenant_def find_by_model_def order_by_priority_def split: if_splits)

text \<open>What routing promises of a target of the account pool.\<close>

definition pool_target ::
  "(string \<Rightarrow> uuid \<Rightarrow> instant) \<Rightarrow> 'b request_context \<Rightarrow> (uuid \<rightharpoonup> string) \<Rightarrow> account list \<Rightarrow> 'n routing_engine
     \<Rightarrow> execution_target \<Rightarrow> bool" where
  "pool_target clock' ctx tenants tbl eng t \<longleftrightarrow>
     (\<exists>a \<in> set tbl. \<exists>endpoint key. t = UpstreamAccount (acc_provider a) (acc_id a) endpoint (Sensitive key) Pool
        \<and> decrypt_upstream_api_key (eng_crypto eng) (acc_upstream_api_key_encrypted a) = Inr key
        \<and> eq_ignore_ascii_case (acc_provider a) (entry_protocol ctx)
        \<and> non_pt_predicate tenants (ctx_tenant_id ctx) a
        \<and> (ctx_model ctx = [] \<or> ctx_model ctx \<in> set (acc_models_supported a))
        \<and> capability_as_str (required_api_capability ctx) \<in> set (acc_api_capabilities a)
        \<and> is_routable (account_health_for a (eng_health eng))
        \<and> (is_cooling_down (clock' (acc_provider a) (acc_id a)) (acc_id a) (eng_account_states eng) = False))"

lemma account_target_fields:
  assumes "account_target clock eng provider a = Some t"
  shows "\<exists>endpoint key. t = UpstreamAccount provider (acc_id a) endpoint (Sensitive key) Pool
     \<and> decrypt_upstream_api_key (eng_crypto eng) (acc_upstream_api_key_encrypted a) = Inr key
     \<and> \<not> is_cooling_down (clock (acc_id a)) (acc_id a) (eng_account_states eng)"
  using assms
  by (auto simp: account_target_def new_provider_def split: if_splits sum.splits option.splits)

lemma select_account_sound:
  assumes "select_account_for_model (clock p) (clock' p) now i p (ctx_tenant_id ctx) (ctx_model ctx)
             (required_api_capability ctx) eng = (eng', r)"
    and db: "eng_db eng = Database tenants tbl" and d: "distinct (map acc_id tbl)"
    and p: "eq_ignore_ascii_case p (entry_protocol ctx)"
  shows "same_view tbl eng eng'" "r = Inr ts \<Longrightarrow> t \<in> set ts \<Longrightarrow> pool_target clock' ctx tenants tbl eng t"
proof -
  let ?rows = "load_accounts tenants tbl p (ctx_tenant_id ctx) (ctx_model ctx) (required_api_capability ctx)"
  have s: "select_best_accounts (clock p) (clock' p) p ?rows (required_api_capability ctx) eng = (eng', r)"
    using assms(1) db by (simp add: select_account_for_model_def)
  have sub: "set ?rows \<subseteq> set tbl" using load_accounts_mem(1) by blast
  note sound = select_best_sound [OF s d sub]
  show "same_view tbl eng eng'" by (rule sound(1))
  assume "r = Inr ts" "t \<in> set ts"
  then obtain a where a: "a \<in> set ?rows" "eligible_account (clock' p) p (required_api_capability ctx) eng a t"
    using sound(2) by blast
  note m = load_accounts_mem [OF a(1)]
  obtain endpoint key where "t = UpstreamAccount p (acc_id a) endpoint (Sensitive key) Pool"
    "decrypt_upstream_api_key (eng_crypto eng) (acc_upstream_api_key_encrypted a) = Inr key"
    "\<not> is_cooling_down (clock' p (acc_id a)) (acc_id a) (eng_account_states eng)"
    using a(2) account_target_fields unfolding eligible_account_def by blast
  with a(2) m p show "pool_target clock' ctx tenants tbl eng t"
    unfolding pool_target_def eligible_account_def account_is_routable_def by blast
qed

lemma pool_target_view: "same_view tbl eng eng' \<Longrightarrow> pool_target clock' ctx tenants tbl eng' t \<Longrightarrow> pool_target clock' ctx tenants tbl eng t"
  by (auto simp: pool_target_def same_view_def)

lemma collect_targets_sound:
  assumes "collect_targets (\<lambda>e p. select_account_for_model (clock p) (clock' p) (now p) (fresh p) p (ctx_tenant_id ctx)
             (ctx_model ctx) (required_api_capability ctx) e) ps eng = (eng', Inr ts)"
    and "eng_db eng = Database tenants tbl" "distinct (map acc_id tbl)"
    and "\<forall>p \<in> set ps. eq_ignore_ascii_case p (entry_protocol ctx)" "t \<in> set ts"
  shows "pool_target clock' ctx tenants tbl eng t"
  using assms
proof (induction ps arbitrary: eng ts)
  case (Cons p ps)
  obtain eng1 r where s: "select_account_for_model (clock p) (clock' p) (now p) (fresh p) p (ctx_tenant_id ctx)
      (ctx_model ctx) (required_api_capability ctx) eng = (eng1, r)" by fastforce
  with Cons.prems(1) obtain ts1 ts2 where ts: "r = Inr ts1" "ts = ts1 @ ts2"
      "collect_targets (\<lambda>e p. select_account_for_model (clock p) (clock' p) (now p) (fresh p) p (ctx_tenant_id ctx)
             (ctx_model ctx) (required_api_capability ctx) e) ps eng1 = (eng', Inr ts2)"
    by (auto split: sum.splits prod.splits)
  have p: "eq_ignore_ascii_case p (entry_protocol ctx)" using Cons.prems(4) by simp
  note sound = select_account_sound [where clock = clock and clock' = clock', OF s Cons.prems(2,3) p]
  have db: "eng_db eng1 = Database tenants tbl" using sound(1) Cons.prems(2) by (simp add: same_view_def)
  show ?case
  proof (cases "t \<in> set ts1")
    case True
    then show ?thesis using sound(2) ts(1) by blast
  next
    case False
    then have "t \<in> set ts2" using Cons.prems(5) ts(2) by simp
    from Cons.IH [OF ts(3) db Cons.prems(3) _ this] Cons.prems(4)
    show ?thesis by (intro pool_target_view [OF sound(1)]) simp
  qed
qed simp

text \<open>
  With no database, or when its query fails, each provider yields one placeholder: a new account identity with the provider's public
  endpoint and a mock key.
\<close>

definition fallback_target ::
  "(string \<Rightarrow> instant) \<Rightarrow> (string \<Rightarrow> uuid) \<Rightarrow> 'b request_context \<Rightarrow> 'n routing_engine \<Rightarrow> execution_target \<Rightarrow> bool" where
  "fallback_target now fresh ctx eng t \<longleftrightarrow>
     (\<exists>p \<in> set (eng_providers eng). eq_ignore_ascii_case p (entry_protocol ctx)
        \<and> (is_cooling_down (now p) (fresh p) (eng_account_states eng) = False)
        \<and> t = UpstreamAccount p (fresh p) (''https://api.'' @ p @ ''.com/v1'') (Sensitive ''mock-api-key'') Pool)"

lemma collect_targets_fallback:
  assumes "eng_db eng = No_Database \<or> eng_db eng = Database_Error"
  shows "collect_targets (\<lambda>e p. select_account_for_model (clock p) (clock' p) (now p) (fresh p) p tenant model capability e) ps eng
     = (eng, Inr (concat (map (\<lambda>p. select_fallback_account (now p) (fresh p) p eng) ps)))"
  using assms by (induction ps) (auto simp: select_account_for_model_def)

text \<open>Account identities are the key of the account table.\<close>

definition table_keyed :: "'n routing_engine \<Rightarrow> bool" where
  "table_keyed eng = (case eng_db eng of Database tenants tbl \<Rightarrow> distinct (map acc_id tbl) | _ \<Rightarrow> True)"

lemma pool_plan_target:
  assumes r: "route requirements clock clock' now fresh ctx eng = (eng', Inr plan)" "ctx_access_mode ctx = AccountPool"
    and k: "table_keyed eng" and t: "t \<in> set (all_targets plan)"
  shows "case eng_db eng of
       Database tenants tbl \<Rightarrow> pool_target clock' ctx tenants tbl eng t
     | _ \<Rightarrow> fallback_target now fresh ctx eng t"
proof -
  let ?ps = "rank_providers (eng_providers eng) (entry_protocol ctx)"
  obtain ts where c: "collect_targets (\<lambda>e p. select_account_for_model (clock p) (clock' p) (now p) (fresh p) p
      (ctx_tenant_id ctx) (ctx_model ctx) (required_api_capability ctx) e) ?ps eng = (eng', Inr ts)" "all_targets plan = ts"
    using r by (auto simp: route_def all_targets_def split: prod.splits sum.splits list.splits)
  have ranked: "\<forall>p \<in> set ?ps. eq_ignore_ascii_case p (entry_protocol ctx)" by (simp add: rank_providers_def)
  have fallback: "fallback_target now fresh ctx eng t" if "eng_db eng = No_Database \<or> eng_db eng = Database_Error"
  proof -
    have "t \<in> set (concat (map (\<lambda>p. select_fallback_account (now p) (fresh p) p eng) ?ps))"
      using c t unfolding collect_targets_fallback [OF that] by (auto simp del: set_concat)
    then show ?thesis
      by (auto simp: fallback_target_def select_fallback_account_def new_provider_def rank_providers_def split: if_splits)
  qed
  show ?thesis
  proof (cases "eng_db eng")
    case (Database tenants tbl)
    have d: "distinct (map acc_id tbl)" using k Database by (simp add: table_keyed_def)
    have "pool_target clock' ctx tenants tbl eng t"
      by (rule collect_targets_sound [OF c(1) Database d ranked]) (use t c(2) in simp)
    then show ?thesis using Database by simp
  qed (use fallback in simp_all)
qed

section \<open>Preference\<close>

text \<open>The administrator-visible rank of an account: dynamic penalty, then priority, then identity.\<close>

definition account_rank :: "health_store \<Rightarrow> account \<Rightarrow> int \<times> int \<times> uuid" where
  "account_rank st a = (h_penalty (account_health_for a st), - acc_priority a, acc_id a)"

lemma map_filter_sorted:
  "sorted (map k as) \<Longrightarrow> sorted (map k (filter (\<lambda>a. f a \<noteq> None) as))"
  by (rule sorted_filter)

lemma map_filter_the: "List.map_filter f as = map (\<lambda>a. the (f a)) (filter (\<lambda>a. f a \<noteq> None) as)"
  by (induction as) (simp_all add: List.map_filter_def)

lemma sorted_by_no_load: "sorted (map (account_rank st) (sort_accounts False tie Map.empty st as))"
proof -
  let ?k = "\<lambda>a. (False, h_penalty (account_health_for a st), 0 :: u64, - acc_priority a, acc_id a)"
  have "sort_accounts False tie Map.empty st as = sort_key ?k as"
    by (simp add: sort_accounts_def account_capacity_score_def)
  moreover have "sorted (map ?k (sort_key ?k as))" by simp
  ultimately have "sorted_wrt (\<lambda>a b. ?k a \<le> ?k b) (sort_accounts False tie Map.empty st as)"
    by (simp only: sorted_map)
  moreover have "?k a \<le> ?k b \<Longrightarrow> account_rank st a \<le> account_rank st b" for a b
    by (auto simp: account_rank_def less_eq_prod_def)
  ultimately show ?thesis unfolding sorted_map by (rule sorted_wrt_mono_rel [rotated]) auto
qed

lemma take_prefers:
  assumes "sorted (map k xs)" "a \<in> set (take n xs)" "b \<in> set xs" "b \<notin> set (take n xs)"
  shows "k a \<le> (k b :: 'k::linorder)"
proof -
  have "b \<in> set (drop n xs)" using assms(3,4) by (metis Un_iff append_take_drop_id set_append)
  moreover have "sorted (map k (take n xs @ drop n xs))" using assms(1) by simp
  ultimately show ?thesis using assms(2) by (auto simp del: append_take_drop_id simp add: sorted_append)
qed

lemma filter_sort_accounts:
  "set (filter P (sort_accounts c tie loads st as)) = set (filter P as)"
  "length (filter P (sort_accounts c tie loads st as)) = length (filter P as)"
proof -
  have "mset (filter P (sort_accounts c tie loads st as)) = mset (filter P as)"
    by (simp add: sort_accounts_def mset_filter)
  then show "length (filter P (sort_accounts c tie loads st as)) = length (filter P as)" by (rule mset_eq_length)
qed simp

section \<open>Shortlist\<close>

lemma explore_spec:
  assumes "finite S" "card S \<le> n"
  shows "S \<subseteq> explore n is S \<and> explore n is S \<subseteq> S \<union> set is \<and> card (explore n is S) = min n (card (S \<union> set is))"
  using assms
proof (induction "is" arbitrary: S)
  case (Cons i "is")
  show ?case
  proof (cases "n \<le> card S")
    case True
    then have "card S \<le> card (S \<union> set (i # is))" using Cons.prems by (intro card_mono) auto
    then show ?thesis using True Cons.prems by auto
  next
    case False
    then have "card (insert i S) \<le> n" using Cons.prems by (simp add: card_insert_if)
    from Cons.IH [OF _ this] Cons.prems False show ?thesis by auto
  qed
qed simp

lemma length_filter_ids:
  assumes "distinct (map acc_id as)" "S \<subseteq> acc_id ` set as"
  shows "length (filter (\<lambda>a. acc_id a \<in> S) as) = card S"
proof -
  have d: "distinct (map acc_id (filter (\<lambda>a. acc_id a \<in> S) as))" using assms(1) by (simp add: distinct_map_filter)
  have "S = set (map acc_id (filter (\<lambda>a. acc_id a \<in> S) as))" using assms(2) by auto
  then have "card S = length (map acc_id (filter (\<lambda>a. acc_id a \<in> S) as))" using distinct_card [OF d] by simp
  then show ?thesis by simp
qed

section \<open>Load scores\<close>

lemma pressure_iff:
  assumes "0 < limit" "unat limit < 2 ^ 32"
  shows "limit \<le> used \<longleftrightarrow> 1000000 \<le> pressure used limit"
proof (cases "unat used * 1000000 < 2 ^ 64")
  case True
  have l: "0 < unat limit" using assms(1) by (simp add: word_less_nat_alt)
  have "unat (used * 1000000) = unat used * 1000000" using True by (simp add: unat_word_ariths)
  then have "unat (pressure used limit) = unat used * 1000000 div unat limit"
    using True by (simp add: pressure_def u64_sat_mul_def unat_div_distrib)
  moreover have "unat limit \<le> unat used \<longleftrightarrow> 1000000 \<le> unat used * 1000000 div unat limit"
    using l by (simp add: less_eq_div_iff_mult_less_eq mult.commute)
  ultimately show ?thesis by (simp add: word_le_nat_alt)
next
  case False
  have l: "0 < unat limit" using assms(1) by (simp add: word_less_nat_alt)
  have "unat limit \<le> unat used" using False assms(2) by simp
  moreover have "unat (pressure used limit) = (2 ^ 64 - 1) div unat limit"
    using False by (simp add: pressure_def u64_sat_mul_def unat_div_distrib unsigned_minus_1_eq_mask mask_eq_exp_minus_1)
  moreover have "1000000 \<le> (2 ^ 64 - 1) div unat limit"
    using l assms(2) by (simp add: less_eq_div_iff_mult_less_eq)
  ultimately show ?thesis by (simp add: word_le_nat_alt)
qed

lemma limit_of_i32_range:
  assumes "int4 n"
  shows "0 < limit_of_i32 n" "unat (limit_of_i32 n) < 2 ^ 32"
proof -
  have r: "0 < max n 1" "max n 1 < 2 ^ 32" using assms by (auto simp: int4_def)
  then have "uint (limit_of_i32 n) = max n 1"
    by (simp add: limit_of_i32_def uint_word_of_int take_bit_int_eq_self del: max_less_iff_conj)
  then show "0 < limit_of_i32 n" "unat (limit_of_i32 n) < 2 ^ 32"
    using r by (simp_all add: word_less_def unat_eq_nat_uint)
qed

lemma in_flight_limit_range: "0 < max (ucast (l :: u32)) (1 :: u64)" "unat (max (ucast (l :: u32)) (1 :: u64)) < 2 ^ 32"
proof -
  have l: "unat l < 2 ^ LENGTH(32)" by (rule unsigned_less)
  then have "take_bit 64 (unat l) = unat l" by (intro take_bit_nat_eq_self) simp
  then have "unat (ucast l :: u64) < 2 ^ 32" using l by (simp add: unsigned_ucast_eq)
  then show "unat (max (ucast l) (1 :: u64)) < 2 ^ 32" by (simp add: max_def)
  show "0 < max (ucast l) (1 :: u64)" by (simp add: less_max_iff_disj)
qed

section \<open>Properties\<close>

definition example_context :: "unit request_context" where
  "example_context = \<lparr>ctx_tenant_id = 1, ctx_model = ''m'', ctx_access_mode = AccountPool,
     ctx_passthrough_binding = False, ctx_native_openai_chat = None, ctx_native_anthropic = None,
     ctx_native_openai_responses = None\<rparr>"

definition example_engine :: "unit routing_engine" where
  "example_engine = \<lparr>eng_capacity = None, eng_candidate_limit = 32, eng_rotation = 0,
     eng_account_states = Map.empty, eng_health = health_store_new,
     eng_db = Database [1 \<mapsto> ''active''] [example_account], eng_providers = [''openai'', ''anthropic''],
     eng_crypto = None, eng_node_ready = None\<rparr>"

lemma example_route:
  "snd (route (\<lambda>_. Inl []) (\<lambda>_ _. 0) (\<lambda>_ _. 0) (\<lambda>_. 0) (\<lambda>_. 9) example_context example_engine)
     = Inr \<lparr>plan_primary = UpstreamAccount ''openai'' 7 ''https://api.openai.com/v1'' (Sensitive ''k'') Pool,
            plan_fallback_chain = []\<rparr>"
  by code_simp

lemma example_fallback_route:
  "snd (route (\<lambda>_. Inl []) (\<lambda>_ _. 0) (\<lambda>_ _. 0) (\<lambda>_. 0) (\<lambda>_. 9) example_context (example_engine\<lparr>eng_db := Database_Error\<rparr>))
     = Inr \<lparr>plan_primary = UpstreamAccount ''openai'' 9 ''https://api.openai.com/v1'' (Sensitive ''mock-api-key'') Pool,
            plan_fallback_chain = []\<rparr>"
  by code_simp

text \<open>
  C9: pool routing is sound and tenant-isolated. When the account table can be read, every target of a pool plan is
  an account of the table that speaks the entry protocol, is enabled in the pool and owned by the
  platform or by the caller's own active tenant, supports the model and the required API, is
  not quarantined, is not cooling, and carries its own decrypted key. With no database, or on a query
  error, no account is used: every target is the placeholder of a configured provider that speaks the
  entry protocol, with a fresh identity and a mock key.
\<close>

theorem route_pool_sound:
  assumes "route requirements clock clock' now fresh ctx eng = (eng', Inr plan)"
    and "ctx_access_mode ctx = AccountPool" "table_keyed eng" "t \<in> set (all_targets plan)"
  shows "case eng_db eng of
       Database tenants tbl \<Rightarrow> pool_target clock' ctx tenants tbl eng t
     | No_Database \<Rightarrow> fallback_target now fresh ctx eng t
     | Database_Error \<Rightarrow> fallback_target now fresh ctx eng t"
  using pool_plan_target [OF assms] by (cases "eng_db eng") simp_all

theorem route_pool_sound_witness:
  "pool_target (\<lambda>_ _. 0) example_context [1 \<mapsto> ''active''] [example_account] example_engine
     (UpstreamAccount ''openai'' 7 ''https://api.openai.com/v1'' (Sensitive ''k'') Pool) \<and>
   fallback_target (\<lambda>_. 0) (\<lambda>_. 9) example_context (example_engine\<lparr>eng_db := Database_Error\<rparr>)
     (UpstreamAccount ''openai'' 9 ''https://api.openai.com/v1'' (Sensitive ''mock-api-key'') Pool)"
proof
  let ?r = "\<lambda>eng. route (\<lambda>_. Inl []) (\<lambda>_ _. 0) (\<lambda>_ _. 0) (\<lambda>_. 0) (\<lambda>_. 9) example_context eng"
  have "?r example_engine = (fst (?r example_engine),
      Inr \<lparr>plan_primary = UpstreamAccount ''openai'' 7 ''https://api.openai.com/v1'' (Sensitive ''k'') Pool, plan_fallback_chain = []\<rparr>)"
    using example_route by (metis prod.collapse)
  from route_pool_sound [OF this]
  show "pool_target (\<lambda>_ _. 0) example_context [1 \<mapsto> ''active''] [example_account] example_engine
     (UpstreamAccount ''openai'' 7 ''https://api.openai.com/v1'' (Sensitive ''k'') Pool)"
    by (simp add: example_context_def example_engine_def all_targets_def table_keyed_def)
  let ?e = "example_engine\<lparr>eng_db := Database_Error\<rparr>"
  have "?r ?e = (fst (?r ?e), Inr \<lparr>plan_primary = UpstreamAccount ''openai'' 9 ''https://api.openai.com/v1'' (Sensitive ''mock-api-key'') Pool,
      plan_fallback_chain = []\<rparr>)"
    using example_fallback_route by (metis prod.collapse)
  from route_pool_sound [OF this]
  show "fallback_target (\<lambda>_. 0) (\<lambda>_. 9) example_context ?e
     (UpstreamAccount ''openai'' 9 ''https://api.openai.com/v1'' (Sensitive ''mock-api-key'') Pool)"
    by (simp add: example_context_def example_engine_def all_targets_def table_keyed_def)
qed

text \<open>
  C23: access modes do not leak into each other: a passthrough request is never routed here, a
  node request gets exactly one node target and no account as fallback, and a pool request
  never gets a node, whether the account table can be read or not.
\<close>

theorem route_modes_isolated:
  assumes "route requirements clock clock' now fresh ctx eng = (eng', Inr plan)" "table_keyed eng"
  shows "case ctx_access_mode ctx of
       Passthrough \<Rightarrow> False
     | NodeDispatchMode \<Rightarrow> all_targets plan = [NodeDispatch (ctx_model ctx)] \<and> eng' = eng
     | AccountPool \<Rightarrow> list_all (\<lambda>t. is_node t = False) (all_targets plan)"
proof (cases "ctx_access_mode ctx")
  case AccountPool
  have "is_node t = False" if "t \<in> set (all_targets plan)" for t
    using pool_plan_target [OF assms(1) AccountPool assms(2) that]
    by (cases "eng_db eng") (auto simp: pool_target_def fallback_target_def)
  then show ?thesis using AccountPool by (simp add: list_all_iff)
next
  case NodeDispatchMode
  then show ?thesis
    using assms(1)
    by (auto simp: route_def route_node_def plan_new_def new_node_def all_targets_def
        split: if_splits option.splits sum.splits prod.splits)
qed (use assms(1) in \<open>simp add: route_def\<close>)

theorem route_modes_isolated_witness:
  "list_all (\<lambda>t. is_node t = False)
     [UpstreamAccount ''openai'' 7 ''https://api.openai.com/v1'' (Sensitive ''k'') Pool]"
proof -
  let ?r = "route (\<lambda>_. Inl []) (\<lambda>_ _. 0) (\<lambda>_ _. 0) (\<lambda>_. 0) (\<lambda>_. 9) example_context example_engine"
  have "?r = (fst ?r, Inr \<lparr>plan_primary = UpstreamAccount ''openai'' 7 ''https://api.openai.com/v1'' (Sensitive ''k'') Pool,
            plan_fallback_chain = []\<rparr>)"
    using example_route by (metis prod.collapse)
  from route_modes_isolated [OF this] show ?thesis
    by (simp add: example_context_def example_engine_def all_targets_def table_keyed_def)
qed

text \<open>
  C24: without load hints the selection takes the best usable accounts: the chosen ones are as many as
  the limit of three and the pool allow, in order of penalty, priority and identity, and no
  usable account left out ranks before a chosen one.
\<close>

theorem selection_prefers_best:
  assumes "select_best_accounts clock clock' provider rows capability eng = (eng', Inr ts)"
    and "eng_capacity eng = None" "distinct (map acc_id rows)"
    and "usable = filter (\<lambda>a. capability_as_str capability \<in> set (acc_api_capabilities a)
           \<and> account_is_routable a (eng_health eng) \<and> account_target clock' eng provider a \<noteq> None) rows"
  shows "\<exists>chosen. ts = map (\<lambda>a. the (account_target clock' eng provider a)) chosen
     \<and> sorted (map (account_rank (eng_health eng)) chosen) \<and> length chosen = min 3 (length usable)
     \<and> set chosen \<subseteq> set usable
     \<and> (\<forall>a \<in> set chosen. \<forall>b \<in> set usable - set chosen.
          account_rank (eng_health eng) a \<le> account_rank (eng_health eng) b)"
  using assms(1)
proof (cases rule: select_best_accounts_cases)
  case 1
  have "usable = []" using 1(3) unfolding assms(4) by (auto simp: filter_empty_conv)
  then show ?thesis using 1(2) by simp
next
  case (2 st candidates tie loads routable)
  have v: "account_health_for a st = account_health_for a (eng_health eng)" if "a \<in> set rows" for a
    unfolding 2(2) by (rule rows_view [OF assms(3) subset_refl that])
  let ?f = "account_target clock' eng provider"
  have f: "account_target clock' eng' provider = ?f" by (rule ext) (simp add: 2(3) account_target_def)
  let ?s = "filter (\<lambda>a. ?f a \<noteq> None) (sort_accounts False tie Map.empty st routable)"
  have ts: "ts = take 3 (map (\<lambda>a. the (?f a)) ?s)"
    using 2(5,6) assms(2) by (simp add: f pick_targets_take map_filter_the max_accounts_per_provider_def)
  have "filter (\<lambda>a. ?f a \<noteq> None) routable = usable"
    unfolding assms(4) 2(1) by (auto simp: account_is_routable_def v intro!: filter_cong)
  then have set_s: "set ?s = set usable" and len_s: "length ?s = length usable"
    using filter_sort_accounts [of "\<lambda>a. ?f a \<noteq> None" False tie Map.empty st routable] by simp_all
  have "sorted (map (account_rank st) ?s)" by (intro map_filter_sorted sorted_by_no_load)
  moreover have "map (account_rank st) ?s = map (account_rank (eng_health eng)) ?s"
    by (rule map_cong [OF refl]) (auto simp: account_rank_def 2(1) v)
  ultimately have so: "sorted (map (account_rank (eng_health eng)) ?s)" by (simp only:)
  show ?thesis
  proof (intro exI [of _ "take 3 ?s"] conjI ballI)
    show "ts = map (\<lambda>a. the (?f a)) (take 3 ?s)" by (simp add: ts take_map)
    show "sorted (map (account_rank (eng_health eng)) (take 3 ?s))" using so by (simp add: sorted_wrt_take flip: take_map)
    show "length (take 3 ?s) = min 3 (length usable)" using len_s by simp
    show "set (take 3 ?s) \<subseteq> set usable" using set_s set_take_subset by metis
    show "account_rank (eng_health eng) a \<le> account_rank (eng_health eng) b"
      if "a \<in> set (take 3 ?s)" "b \<in> set usable - set (take 3 ?s)" for a b
      using take_prefers [OF so that(1)] that(2) set_s by blast
  qed
qed

theorem selection_prefers_best_witness:
  "\<exists>chosen. [UpstreamAccount ''openai'' 7 ''https://api.openai.com/v1'' (Sensitive ''k'') Pool]
       = map (\<lambda>a. the (account_target (\<lambda>_. 0) example_engine ''openai'' a)) chosen
     \<and> length chosen = 1 \<and> sorted (map (account_rank health_store_new) chosen)"
proof -
  let ?r = "select_best_accounts (\<lambda>_. 0) (\<lambda>_. 0) ''openai'' [example_account] ChatCompletions example_engine"
  have "snd ?r = Inr [UpstreamAccount ''openai'' 7 ''https://api.openai.com/v1'' (Sensitive ''k'') Pool]" by code_simp
  then have r: "?r = (fst ?r, Inr [UpstreamAccount ''openai'' 7 ''https://api.openai.com/v1'' (Sensitive ''k'') Pool])"
    by (metis prod.collapse)
  have u: "length (filter (\<lambda>a. capability_as_str ChatCompletions \<in> set (acc_api_capabilities a)
      \<and> account_is_routable a (eng_health example_engine)
      \<and> account_target (\<lambda>_. 0) example_engine ''openai'' a \<noteq> None) [example_account]) = 1" by code_simp
  have c: "eng_capacity example_engine = None" "distinct (map acc_id [example_account])"
    "eng_health example_engine = health_store_new" by (simp_all add: example_engine_def)
  from selection_prefers_best [OF r c(1,2) refl] show ?thesis
    unfolding u unfolding c(3) by (elim exE conjE) (intro exI conjI, assumption, simp, assumption)
qed

text \<open>
  The shortlist of load reads is exactly as long as configured and always contains the three
  best-ranked accounts, whatever the rotation, so that exploration never displaces a leader.
\<close>

theorem shortlist_keeps_leaders:
  assumes "limit < length accounts" "3 \<le> limit" "distinct (map acc_id accounts)"
  shows "length (shortlist limit tie st accounts) = limit
     \<and> set (take 3 (sort_key (account_rank st) accounts)) \<subseteq> set (shortlist limit tie st accounts)"
proof -
  let ?s = "sort_key (account_rank st) accounts"
  let ?S = "set (map acc_id (take 3 ?s))"
  let ?E = "explore limit (sort_key tie (map acc_id ?s)) ?S"
  have sl: "shortlist limit tie st accounts = filter (\<lambda>a. acc_id a \<in> ?E) ?s"
    using assms(1) by (simp add: shortlist_def Let_def max_accounts_per_provider_def account_rank_def [abs_def])
  have d: "distinct (map acc_id ?s)"
    using assms(3) mset_eq_imp_distinct_iff [of "map acc_id ?s" "map acc_id accounts"] by simp
  have "card ?S \<le> limit" using card_length [of "map acc_id (take 3 ?s)"] assms(2) by simp
  from explore_spec [OF _ this, of "sort_key tie (map acc_id ?s)"]
  have E: "?S \<subseteq> ?E" "?E \<subseteq> ?S \<union> acc_id ` set accounts" "card ?E = min limit (card (?S \<union> acc_id ` set accounts))"
    by simp_all
  have sub: "?S \<subseteq> acc_id ` set accounts" by (auto dest!: in_set_takeD)
  have "card (acc_id ` set accounts) = length accounts" using distinct_card [OF assms(3)] by simp
  then have "card ?E = limit" using E(3) sub assms(1) by (simp add: Un_absorb1)
  moreover have "?E \<subseteq> acc_id ` set accounts" using E(2) sub by (simp only: Un_absorb1)
  then have "length (filter (\<lambda>a. acc_id a \<in> ?E) ?s) = card ?E"
    by (intro length_filter_ids [OF d]) simp
  ultimately show ?thesis unfolding sl using E(1) by (auto dest: in_set_takeD)
qed

theorem shortlist_keeps_leaders_witness:
  "length (shortlist 3 (\<lambda>i. i) health_store_new
     (map (\<lambda>i. example_account\<lparr>acc_id := i\<rparr>) [4, 9, 2, 7])) = 3"
proof -
  let ?as = "map (\<lambda>i. example_account\<lparr>acc_id := i\<rparr>) [4, 9, 2, 7]"
  have "3 < length ?as" "distinct (map acc_id ?as)" by simp_all
  from shortlist_keeps_leaders [OF this(1) order_refl this(2)] show ?thesis by (rule conjunct1)
qed

text \<open>
  The two components of a load score agree: an account counts as exhausted exactly when its
  fixed-point pressure reaches one million, for every load and every limit the columns can hold,
  saturated products included.
\<close>

theorem score_flags_exhaustion:
  assumes "int4 (acc_rpm_limit a)" "int4 (acc_tpm_limit a)"
  shows "fst (account_capacity_score a (Some s)) \<longleftrightarrow> 1000000 \<le> snd (account_capacity_score a (Some s))"
  using pressure_iff [OF limit_of_i32_range [OF assms(1)]] pressure_iff [OF limit_of_i32_range [OF assms(2)]]
    pressure_iff [OF in_flight_limit_range]
  by (simp add: account_capacity_score_def Let_def le_max_iff_disj)

theorem score_flags_exhaustion_witness:
  "1000000 \<le> snd (account_capacity_score example_account
     (Some \<lparr>cs_rpm = 61, cs_tpm = 5, cs_in_flight = 0, cs_in_flight_limit = 4\<rparr>))"
proof -
  have "int4 (acc_rpm_limit example_account)" "int4 (acc_tpm_limit example_account)"
    by (simp_all add: example_account_def int4_def)
  note score_flags_exhaustion [OF this,
      of "\<lparr>cs_rpm = 61, cs_tpm = 5, cs_in_flight = 0, cs_in_flight_limit = 4\<rparr>"]
  moreover have "fst (account_capacity_score example_account
     (Some \<lparr>cs_rpm = 61, cs_tpm = 5, cs_in_flight = 0, cs_in_flight_limit = 4\<rparr>))"
    by (simp add: account_capacity_score_def Let_def limit_of_i32_def example_account_def)
  ultimately show ?thesis by blast
qed

end
