(* ===== verification/Identity.thy ===== *)
theory Identity
  imports Prelude
begin

text \<open>
  Roles, scopes and the identity tables: \<open>crates/keycompute-types/src/tenant.rs\<close>, the tables \<open>users\<close>,
  \<open>tenants\<close> and \<open>tenant_memberships\<close> of the writer database, and the console authority of
  \<open>crates/keycompute-db/src/models/financial_scope.rs\<close>, which every financial command checks again under its
  locks. The nil identifier is \<open>0\<close>; \<open>now\<close> is \<open>Utc::now().timestamp()\<close> and \<open>clock_timestamp()\<close> in seconds, the
  unit of the session's expiry.
\<close>

section \<open>Roles and states\<close>

datatype platform_role = Root | Operator | No_Platform_Role
datatype tenant_role = Tenant_Admin_Role | Tenant_Member_Role
datatype credential_kind = Jwt | Api_Key_Credential | Node_Credential | System_Credential
datatype user_status = User_Active | User_Suspended
datatype tenant_status = Tenant_Active | Tenant_Inactive
datatype membership_status = Membership_Active | Membership_Suspended | Membership_Removed
datatype audit_scope_type = Audit_Platform | Audit_Tenant | Audit_User | Audit_System
datatype audit_result = Audit_Success | Audit_Denied | Audit_Failure

fun platform_role_as_str :: "platform_role \<Rightarrow> string" where
  "platform_role_as_str Root = ''root''"
| "platform_role_as_str Operator = ''operator''"
| "platform_role_as_str No_Platform_Role = ''none''"

definition platform_role_parse :: "string \<Rightarrow> platform_role option" where
  "platform_role_parse s =
     (if s = ''root'' then Some Root else if s = ''operator'' then Some Operator
      else if s = ''none'' then Some No_Platform_Role else None)"

fun tenant_role_as_str :: "tenant_role \<Rightarrow> string" where
  "tenant_role_as_str Tenant_Admin_Role = ''admin''"
| "tenant_role_as_str Tenant_Member_Role = ''member''"

definition tenant_role_parse :: "string \<Rightarrow> tenant_role option" where
  "tenant_role_parse s =
     (if s = ''admin'' then Some Tenant_Admin_Role else if s = ''member'' then Some Tenant_Member_Role else None)"

fun is_platform_admin :: "platform_role \<Rightarrow> bool" where
  "is_platform_admin No_Platform_Role \<longleftrightarrow> False"
| "is_platform_admin _ \<longleftrightarrow> True"

fun can_manage_tenant :: "tenant_role \<Rightarrow> bool" where
  "can_manage_tenant Tenant_Admin_Role \<longleftrightarrow> True"
| "can_manage_tenant Tenant_Member_Role \<longleftrightarrow> False"

lemma platform_role_parse_iff: "platform_role_parse s = Some r \<longleftrightarrow> s = platform_role_as_str r"
  by (cases r) (auto simp: platform_role_parse_def)

lemma tenant_role_parse_iff: "tenant_role_parse s = Some r \<longleftrightarrow> s = tenant_role_as_str r"
  by (cases r) (auto simp: tenant_role_parse_def)

section \<open>Tables\<close>

record user_row =
  us_id :: uuid
  us_status :: user_status
  us_platform_role :: platform_role
  us_token_version :: int

record tenant_row =
  tn_id :: uuid
  tn_status :: tenant_status
  tn_authz_version :: int

record membership_row =
  ms_tenant_id :: uuid
  ms_user_id :: uuid
  ms_tenant_role :: tenant_role
  ms_status :: membership_status
  ms_authz_version :: int

text \<open>The primary key of the memberships, and the index that allows one current tenant per user.\<close>

definition memberships_ok :: "membership_row list \<Rightarrow> bool" where
  "memberships_ok ms \<longleftrightarrow>
     distinct (map (\<lambda>m. (ms_tenant_id m, ms_user_id m)) ms)
     \<and> distinct (map ms_user_id (filter (\<lambda>m. ms_status m \<noteq> Membership_Removed) ms))"

definition has_tenant :: "uuid \<Rightarrow> tenant_row list \<Rightarrow> bool" where
  "has_tenant t ts \<longleftrightarrow> list_ex (\<lambda>r. tn_id r = t) ts"

definition has_user :: "uuid \<Rightarrow> user_row list \<Rightarrow> bool" where
  "has_user u us \<longleftrightarrow> list_ex (\<lambda>r. us_id r = u) us"

definition has_membership :: "uuid \<Rightarrow> uuid \<Rightarrow> membership_row list \<Rightarrow> bool" where
  "has_membership t u ms \<longleftrightarrow> list_ex (\<lambda>m. ms_tenant_id m = t \<and> ms_user_id m = u) ms"

definition tenant_is_active :: "uuid \<Rightarrow> tenant_row list \<Rightarrow> bool" where
  "tenant_is_active t ts \<longleftrightarrow> list_ex (\<lambda>r. tn_id r = t \<and> tn_status r = Tenant_Active) ts"

definition user_is_active :: "uuid \<Rightarrow> user_row list \<Rightarrow> bool" where
  "user_is_active u us \<longleftrightarrow> list_ex (\<lambda>r. us_id r = u \<and> us_status r = User_Active) us"

text \<open>\<open>TenantMembership::find\<close>: an active membership of an active user in an active tenant.\<close>

definition find_membership ::
  "uuid \<Rightarrow> uuid \<Rightarrow> tenant_row list \<Rightarrow> user_row list \<Rightarrow> membership_row list \<Rightarrow> membership_row option" where
  "find_membership t u ts us ms =
     (if tenant_is_active t ts \<and> user_is_active u us
      then find (\<lambda>m. ms_tenant_id m = t \<and> ms_user_id m = u \<and> ms_status m = Membership_Active) ms else None)"

section \<open>Scopes\<close>

record platform_scope =
  ps_user_id :: uuid
  ps_platform_role :: platform_role

definition platform_scope_checked :: "uuid \<Rightarrow> platform_role \<Rightarrow> string + platform_scope" where
  "platform_scope_checked u r =
     (if u = 0 \<or> r = No_Platform_Role then Inl ''platform scope requires a real privileged user''
      else Inr \<lparr>ps_user_id = u, ps_platform_role = r\<rparr>)"

record tenant_scope =
  ts_tenant_id :: uuid
  ts_user_id :: uuid
  ts_tenant_role :: tenant_role

definition tenant_scope_checked :: "uuid \<Rightarrow> uuid \<Rightarrow> tenant_role \<Rightarrow> string + tenant_scope" where
  "tenant_scope_checked t u r =
     (if t = 0 \<or> u = 0 then Inl ''tenant scope requires real tenant and user IDs''
      else Inr \<lparr>ts_tenant_id = t, ts_user_id = u, ts_tenant_role = r\<rparr>)"

section \<open>Financial authority\<close>

record financial_membership =
  fm_tenant_id :: uuid
  fm_tenant_role :: tenant_role
  fm_tenant_authz_version :: int
  fm_membership_authz_version :: int

record financial_session =
  fs_user_id :: uuid
  fs_credential_kind :: credential_kind
  fs_token_version :: int
  fs_expires_at :: int
  fs_selected :: "financial_membership option"

datatype financial_access = Personal | Tenant_Admin | Platform_Tenant | Platform_Global

record financial_scope =
  sc_session :: financial_session
  sc_access :: financial_access
  sc_tenant_id :: "uuid option"
  sc_platform_role :: platform_role

datatype authority_error = Authority_Denied | Authority_Not_Found string uuid

definition validate_session :: "int \<Rightarrow> financial_session \<Rightarrow> authority_error + unit" where
  "validate_session now s =
     ensure (\<not> (fs_user_id s = 0 \<or> fs_credential_kind s \<noteq> Jwt \<or> fs_token_version s < 0 \<or> fs_expires_at s \<le> now
        \<or> (case fs_selected s of None \<Rightarrow> False
           | Some m \<Rightarrow> fm_tenant_id m = 0 \<or> fm_tenant_authz_version m \<le> 0 \<or> fm_membership_authz_version m \<le> 0)))
       Authority_Denied"

definition scope_selected :: "int \<Rightarrow> tenant_scope \<Rightarrow> financial_session \<Rightarrow> bool \<Rightarrow> authority_error + financial_scope" where
  "scope_selected now scope s admin =
     and_then (validate_session now s) (\<lambda>_.
     and_then (ok_or (fs_selected s) Authority_Denied) (\<lambda>m.
       if fs_user_id s \<noteq> ts_user_id scope \<or> fm_tenant_id m \<noteq> ts_tenant_id scope
          \<or> fm_tenant_role m \<noteq> ts_tenant_role scope \<or> admin \<and> fm_tenant_role m \<noteq> Tenant_Admin_Role
       then Inl Authority_Denied
       else Inr \<lparr>sc_session = s, sc_access = (if admin then Tenant_Admin else Personal),
                 sc_tenant_id = Some (fm_tenant_id m), sc_platform_role = No_Platform_Role\<rparr>))"

definition scope_personal :: "int \<Rightarrow> tenant_scope \<Rightarrow> financial_session \<Rightarrow> authority_error + financial_scope" where
  "scope_personal now scope s = scope_selected now scope s False"

definition scope_tenant_admin :: "int \<Rightarrow> tenant_scope \<Rightarrow> financial_session \<Rightarrow> authority_error + financial_scope" where
  "scope_tenant_admin now scope s = scope_selected now scope s True"

definition scope_platform_global :: "int \<Rightarrow> platform_scope \<Rightarrow> financial_session \<Rightarrow> authority_error + financial_scope" where
  "scope_platform_global now scope s =
     and_then (validate_session now s) (\<lambda>_.
       if ps_user_id scope \<noteq> fs_user_id s \<or> fs_selected s \<noteq> None \<or> \<not> is_platform_admin (ps_platform_role scope)
       then Inl Authority_Denied
       else Inr \<lparr>sc_session = s, sc_access = Platform_Global, sc_tenant_id = None, sc_platform_role = ps_platform_role scope\<rparr>)"

definition scope_platform_tenant ::
  "int \<Rightarrow> platform_scope \<Rightarrow> financial_session \<Rightarrow> uuid \<Rightarrow> authority_error + financial_scope" where
  "scope_platform_tenant now scope s t =
     and_then (scope_platform_global now scope s) (\<lambda>r.
       if t = 0 then Inl Authority_Denied else Inr (r\<lparr>sc_access := Platform_Tenant, sc_tenant_id := Some t\<rparr>))"

definition scope_tenant_id :: "financial_scope \<Rightarrow> authority_error + uuid" where
  "scope_tenant_id sc = ok_or (sc_tenant_id sc) Authority_Denied"

definition scope_user_id :: "financial_scope \<Rightarrow> uuid" where "scope_user_id sc = fs_user_id (sc_session sc)"

definition require_personal :: "financial_scope \<Rightarrow> authority_error + unit" where
  "require_personal sc = ensure (sc_access sc = Personal) Authority_Denied"

definition require_admin :: "financial_scope \<Rightarrow> authority_error + unit" where
  "require_admin sc = ensure (sc_access sc = Tenant_Admin \<or> sc_access sc = Platform_Tenant) Authority_Denied"

definition require_platform_tenant :: "financial_scope \<Rightarrow> authority_error + unit" where
  "require_platform_tenant sc = ensure (sc_access sc = Platform_Tenant) Authority_Denied"

definition require_platform_global :: "financial_scope \<Rightarrow> authority_error + unit" where
  "require_platform_global sc =
     ensure (sc_access sc = Platform_Global \<and> is_platform_admin (sc_platform_role sc)) Authority_Denied"

definition is_platform_access :: "financial_access \<Rightarrow> bool" where
  "is_platform_access a \<longleftrightarrow> a = Platform_Tenant \<or> a = Platform_Global"

text \<open>
  \<open>predicate()\<close> with the parameters of \<open>values()\<close>: the actor is active, its token is current and not expired; a
  platform actor still has the asserted role; a selected membership is still active with the asserted role
  and versions in an active tenant; the target tenant exists and is active unless the actor is of the platform.
\<close>

definition financial_predicate ::
  "int \<Rightarrow> financial_scope \<Rightarrow> user_row list \<Rightarrow> tenant_row list \<Rightarrow> membership_row list \<Rightarrow> bool" where
  "financial_predicate now sc us ts ms \<longleftrightarrow>
     (let s = sc_session sc; platform = is_platform_access (sc_access sc)
      in list_ex (\<lambda>a. us_id a = fs_user_id s \<and> us_status a = User_Active \<and> us_token_version a = fs_token_version s
             \<and> now < fs_expires_at s
             \<and> (\<not> platform \<or> (case fs_selected s of
                    None \<Rightarrow> us_platform_role a = sc_platform_role sc
                  | Some m \<Rightarrow> platform_role_as_str (us_platform_role a) = tenant_role_as_str (fm_tenant_role m)))
             \<and> (case fs_selected s of
                  None \<Rightarrow> platform
                | Some m \<Rightarrow> list_ex (\<lambda>r. ms_user_id r = fs_user_id s \<and> ms_tenant_id r = fm_tenant_id m
                       \<and> ms_status r = Membership_Active \<and> ms_tenant_role r = fm_tenant_role m
                       \<and> ms_authz_version r = fm_membership_authz_version m
                       \<and> list_ex (\<lambda>t. tn_id t = ms_tenant_id r \<and> tn_status t = Tenant_Active
                             \<and> tn_authz_version t = fm_tenant_authz_version m) ts) ms)
             \<and> (case sc_tenant_id sc of
                  None \<Rightarrow> True
                | Some target \<Rightarrow> list_ex (\<lambda>t. tn_id t = target \<and> (platform \<or> tn_status t = Tenant_Active)) ts)) us)"

record audit_context =
  ac_actor_user_id :: uuid
  ac_credential_kind :: credential_kind
  ac_platform_role :: platform_role
  ac_tenant_role :: "tenant_role option"
  ac_request_id :: "uuid option"

definition current_actor ::
  "int \<Rightarrow> financial_scope \<Rightarrow> user_row list \<Rightarrow> tenant_row list \<Rightarrow> membership_row list \<Rightarrow> authority_error + audit_context" where
  "current_actor now sc us ts ms =
     (if \<not> financial_predicate now sc us ts ms then Inl Authority_Denied
      else case find (\<lambda>a. us_id a = scope_user_id sc) us of
        None \<Rightarrow> Inl Authority_Denied
      | Some a \<Rightarrow>
          if us_platform_role a \<noteq> sc_platform_role sc then Inl Authority_Denied
          else Inr \<lparr>ac_actor_user_id = scope_user_id sc, ac_credential_kind = Jwt, ac_platform_role = us_platform_role a,
                    ac_tenant_role = map_option fm_tenant_role (fs_selected (sc_session sc)), ac_request_id = None\<rparr>)"

text \<open>
  \<open>lock_related\<close> without extra rows, which is \<open>lock\<close>. It takes the administrative fence (not modelled: the
  transaction is atomic), checks the actor, locks the tenants and users involved, and checks the actor again
  at a later reading of the clock.
\<close>

definition scope_lock ::
  "int \<Rightarrow> int \<Rightarrow> int \<Rightarrow> financial_scope \<Rightarrow> audit_context \<Rightarrow> user_row list \<Rightarrow> tenant_row list \<Rightarrow> membership_row list
     \<Rightarrow> authority_error + audit_context" where
  "scope_lock now1 now2 now3 sc audit us ts ms =
     (let s = sc_session sc
      in and_then (validate_session now1 s) (\<lambda>_.
         if ac_actor_user_id audit \<noteq> fs_user_id s \<or> ac_credential_kind audit \<noteq> Jwt
            \<or> ac_platform_role audit \<noteq> sc_platform_role sc
            \<or> ac_tenant_role audit \<noteq> map_option fm_tenant_role (fs_selected s)
            \<or> (case ac_request_id audit of None \<Rightarrow> True | Some i \<Rightarrow> i = 0)
         then Inl Authority_Denied
         else and_then (current_actor now2 sc us ts ms) (\<lambda>_.
              let parents = sort (remdups ((case sc_tenant_id sc of None \<Rightarrow> [] | Some t \<Rightarrow> [t])
                                @ (case fs_selected s of None \<Rightarrow> [] | Some m \<Rightarrow> [fm_tenant_id m])))
              in case find (\<lambda>t. \<not> has_tenant t ts) parents of
                   Some t \<Rightarrow> Inl (Authority_Not_Found ''Tenant'' t)
                 | None \<Rightarrow>
                     if \<not> has_user (fs_user_id s) us then Inl (Authority_Not_Found ''User'' (fs_user_id s))
                     else if (case fs_selected s of None \<Rightarrow> False | Some m \<Rightarrow> \<not> has_membership (fm_tenant_id m) (fs_user_id s) ms)
                     then Inl Authority_Denied
                     else and_then (current_actor now3 sc us ts ms) (\<lambda>actor.
                            Inr (actor\<lparr>ac_request_id := ac_request_id audit\<rparr>)))))"

section \<open>What a lock proves\<close>

lemma scope_lock_authority:
  assumes "scope_lock now1 now2 now3 sc audit us ts ms = Inr actor"
  shows "financial_predicate now3 sc us ts ms \<and> ac_actor_user_id actor = scope_user_id sc
     \<and> (\<exists>a \<in> set us. us_id a = scope_user_id sc \<and> us_platform_role a = sc_platform_role sc)"
  using assms
  by (auto simp: scope_lock_def current_actor_def and_then_Inr_iff Let_def find_Some_iff split: option.splits if_splits)

end
