(* ===== verification/Wallet_Table.thy ===== *)
theory Wallet_Table
  imports Identity
begin

text \<open>
  The money tables of the writer database (\<open>migrations/001_init.sql\<close>, \<open>models/user_balance.rs\<close>):
  one wallet row per tenant and user, the reservations that own part of its frozen funds, the
  append-only ledger of balance movements and the audit events of reservations, with the constraints,
  unique indexes and the trigger of the schema. A \<open>DECIMAL(20, 10)\<close> column is the number
  of its units of \<open>10 ^ -10\<close>, so the additions and comparisons of \<open>Decimal\<close> values of at most ten
  decimals are exact, and a value of \<open>10 ^ 20\<close> units does not fit the column. Columns no operation
  reads back (row identities of wallets, \<open>updated_at\<close>, the currency) are left out.
\<close>

section \<open>Rows\<close>

type_synonym money = int

definition money_ok :: "money \<Rightarrow> bool" where "money_ok x \<longleftrightarrow> \<bar>x\<bar> < 10 ^ 20"

datatype transaction_type = Recharge | Consume | Freeze | Unfreeze | Tip_Credit

fun transaction_type_as_str :: "transaction_type \<Rightarrow> string" where
  "transaction_type_as_str Recharge = ''recharge''"
| "transaction_type_as_str Consume = ''consume''"
| "transaction_type_as_str Freeze = ''freeze''"
| "transaction_type_as_str Unfreeze = ''unfreeze''"
| "transaction_type_as_str Tip_Credit = ''tip_credit''"

definition transaction_type_parse :: "string \<Rightarrow> transaction_type option" where
  "transaction_type_parse s =
     (if s = ''recharge'' then Some Recharge
      else if s = ''consume'' then Some Consume
      else if s = ''freeze'' then Some Freeze
      else if s = ''unfreeze'' then Some Unfreeze
      else if s = ''tip_credit'' then Some Tip_Credit
      else None)"

record user_balance =
  ub_tenant_id :: uuid
  ub_user_id :: uuid
  ub_available :: money
  ub_frozen :: money
  ub_recharged :: money
  ub_consumed :: money

datatype reservation_status = Active | Settled | Released | Expired

datatype release_kind = Automatic | Administrative

record reservation =
  br_id :: uuid
  br_request_id :: uuid
  br_owner_token :: uuid
  br_tenant_id :: uuid
  br_user_id :: uuid
  br_amount :: money
  br_status :: reservation_status
  br_usage_log_id :: "uuid option"
  br_expires_at :: datetime
  br_settled_at :: "datetime option"
  br_released_at :: "datetime option"
  br_release_kind :: "release_kind option"
  br_release_reason :: "string option"
  br_released_by :: "uuid option"
  br_created_at :: datetime

datatype reservation_event_type =
  Reserved_Event | Reowned_Event | Resized_Event | Settled_Event | Released_Event | Expired_Event | Updated_Event

record balance_transaction =
  bt_id :: uuid
  bt_tenant_id :: uuid
  bt_user_id :: uuid
  bt_order_id :: "uuid option"
  bt_usage_log_id :: "uuid option"
  bt_type :: transaction_type
  bt_amount :: money
  bt_before :: money
  bt_after :: money
  bt_description :: "string option"

record wallet_db =
  wd_tenants :: "tenant_row list"
  wd_users :: "user_row list"
  wd_members :: "membership_row list"
  wd_balances :: "user_balance list"
  wd_reservations :: "reservation list"
  wd_events :: "(reservation_event_type \<times> reservation) list"
  wd_transactions :: "balance_transaction list"

text \<open>
  The variants of \<open>DbError\<close> the wallet reaches, and the constraint violations PostgreSQL reports. Texts
  are kept without the identifiers the code formats into them.
\<close>

datatype wallet_error =
    Wallet_Not_Found string uuid
  | Wallet_Insufficient money money
  | Wallet_Tenant_Mismatch uuid uuid uuid
  | Wallet_Other string
  | Wallet_Numeric_Overflow
  | Wallet_Check_Violation
  | Wallet_Duplicate_Key
  | Wallet_Foreign_Key

type_synonym 'a wallet_result = "wallet_error + 'a"

fun is_insufficient_balance :: "wallet_error \<Rightarrow> bool" where
  "is_insufficient_balance (Wallet_Insufficient _ _) = True"
| "is_insufficient_balance _ = False"

abbreviation ub_key :: "user_balance \<Rightarrow> uuid \<times> uuid" where "ub_key b \<equiv> (ub_tenant_id b, ub_user_id b)"
abbreviation br_key :: "reservation \<Rightarrow> uuid \<times> uuid" where "br_key r \<equiv> (br_tenant_id r, br_user_id r)"
abbreviation bt_key :: "balance_transaction \<Rightarrow> uuid \<times> uuid" where "bt_key x \<equiv> (bt_tenant_id x, bt_user_id x)"

section \<open>Constraints\<close>

definition balance_checks :: "user_balance \<Rightarrow> bool" where
  "balance_checks b \<longleftrightarrow> 0 \<le> ub_frozen b \<and> 0 \<le> ub_recharged b \<and> 0 \<le> ub_consumed b"

definition balance_fits :: "user_balance \<Rightarrow> bool" where
  "balance_fits b \<longleftrightarrow> money_ok (ub_available b) \<and> money_ok (ub_frozen b) \<and> money_ok (ub_recharged b) \<and> money_ok (ub_consumed b)"

definition checked_balance :: "user_balance \<Rightarrow> user_balance wallet_result" where
  "checked_balance b =
     (if \<not> balance_fits b then Inl Wallet_Numeric_Overflow
      else if \<not> balance_checks b then Inl Wallet_Check_Violation else Inr b)"

text \<open>\<open>BTRIM\<close> removes spaces at both ends.\<close>

definition btrim :: "string \<Rightarrow> string" where
  "btrim s = rev (dropWhile (\<lambda>c. c = CHR '' '') (rev (dropWhile (\<lambda>c. c = CHR '' '') s)))"

definition reservation_checks :: "reservation \<Rightarrow> bool" where
  "reservation_checks r \<longleftrightarrow> 0 \<le> br_amount r
     \<and> (br_status r = Released \<and> br_released_at r \<noteq> None \<and> br_release_kind r \<noteq> None
          \<and> (case br_release_reason r of None \<Rightarrow> False | Some s \<Rightarrow> btrim s \<noteq> [] \<and> length (btrim s) \<le> 1000)
        \<or> br_status r \<noteq> Released \<and> br_released_at r = None \<and> br_release_kind r = None
          \<and> br_release_reason r = None \<and> br_released_by r = None)
     \<and> (br_status r = Settled \<and> br_usage_log_id r \<noteq> None \<and> br_settled_at r \<noteq> None
        \<or> br_status r \<noteq> Settled \<and> br_usage_log_id r = None \<and> br_settled_at r = None)"

section \<open>Statements\<close>

definition find_balance :: "uuid \<Rightarrow> uuid \<Rightarrow> wallet_db \<Rightarrow> user_balance option" where
  "find_balance t u db = find (\<lambda>b. ub_tenant_id b = t \<and> ub_user_id b = u) (wd_balances db)"

definition find_reservation :: "uuid \<Rightarrow> wallet_db \<Rightarrow> reservation option" where
  "find_reservation i db = find (\<lambda>r. br_request_id r = i) (wd_reservations db)"

definition find_consumption_by_usage_log :: "uuid \<Rightarrow> wallet_db \<Rightarrow> balance_transaction option" where
  "find_consumption_by_usage_log l db =
     find (\<lambda>x. bt_usage_log_id x = Some l \<and> bt_type x = Consume) (wd_transactions db)"

text \<open>\<open>UPDATE user_balances SET ... WHERE tenant_id = t AND user_id = u RETURNING *\<close>\<close>

definition update_balance ::
  "uuid \<Rightarrow> uuid \<Rightarrow> (user_balance \<Rightarrow> user_balance) \<Rightarrow> wallet_db \<Rightarrow> (user_balance option \<times> wallet_db) wallet_result" where
  "update_balance t u f db =
     (case find_balance t u db of
        None \<Rightarrow> Inr (None, db)
      | Some b \<Rightarrow> and_then (checked_balance (f b)) (\<lambda>b'.
          Inr (Some b', db\<lparr>wd_balances := map (\<lambda>x. if ub_key x = (t, u) then b' else x) (wd_balances db)\<rparr>)))"

definition insert_balance :: "user_balance \<Rightarrow> wallet_db \<Rightarrow> (user_balance \<times> wallet_db) wallet_result" where
  "insert_balance b db = and_then (checked_balance b) (\<lambda>b'. Inr (b', db\<lparr>wd_balances := wd_balances db @ [b']\<rparr>))"

text \<open>The trigger \<open>record_balance_reservation_event\<close>.\<close>

definition reservation_event_type_of :: "reservation \<Rightarrow> reservation \<Rightarrow> reservation_event_type" where
  "reservation_event_type_of old new =
     (if br_owner_token new \<noteq> br_owner_token old then Reowned_Event
      else if br_status new \<noteq> br_status old
      then (case br_status new of
              Settled \<Rightarrow> Settled_Event | Released \<Rightarrow> Released_Event | Expired \<Rightarrow> Expired_Event | Active \<Rightarrow> Updated_Event)
      else if br_amount new \<noteq> br_amount old then Resized_Event
      else Updated_Event)"

definition insert_reservation :: "reservation \<Rightarrow> wallet_db \<Rightarrow> (reservation \<times> wallet_db) wallet_result" where
  "insert_reservation r db =
     (if \<not> money_ok (br_amount r) then Inl Wallet_Numeric_Overflow
      else if \<not> reservation_checks r then Inl Wallet_Check_Violation
      else if br_id r \<in> set (map br_id (wd_reservations db)) \<or> br_request_id r \<in> set (map br_request_id (wd_reservations db))
      then Inl Wallet_Duplicate_Key
      else Inr (r, db\<lparr>wd_reservations := wd_reservations db @ [r], wd_events := wd_events db @ [(Reserved_Event, r)]\<rparr>))"

text \<open>
  \<open>UPDATE balance_reservations SET ... WHERE ... RETURNING *\<close>, with the partial unique index on the usage
  log and one audit event per row.
\<close>

definition update_reservations ::
  "(reservation \<Rightarrow> bool) \<Rightarrow> (reservation \<Rightarrow> reservation) \<Rightarrow> wallet_db \<Rightarrow> (reservation list \<times> wallet_db) wallet_result" where
  "update_reservations w f db =
     (let old = filter w (wd_reservations db);
          rows = map (\<lambda>r. if w r then f r else r) (wd_reservations db)
      in if \<not> list_all (\<lambda>r. money_ok (br_amount (f r))) old then Inl Wallet_Numeric_Overflow
         else if \<not> list_all (\<lambda>r. reservation_checks (f r)) old then Inl Wallet_Check_Violation
         else if \<not> distinct (List.map_filter br_usage_log_id rows) then Inl Wallet_Duplicate_Key
         else Inr (map f old,
                db\<lparr>wd_reservations := rows,
                   wd_events := wd_events db @ map (\<lambda>r. (reservation_event_type_of r (f r), f r)) old\<rparr>))"

text \<open>\<open>BalanceTransaction::create_internal\<close> with the partial unique indexes on orders and usage logs.\<close>

definition create_internal ::
  "uuid \<Rightarrow> uuid \<Rightarrow> uuid \<Rightarrow> uuid option \<Rightarrow> uuid option \<Rightarrow> transaction_type \<Rightarrow> money \<Rightarrow> money \<Rightarrow> money \<Rightarrow> string option
     \<Rightarrow> wallet_db \<Rightarrow> (balance_transaction \<times> wallet_db) wallet_result" where
  "create_internal i t u order_id usage_log_id typ amount before after description db =
     (let x = \<lparr>bt_id = i, bt_tenant_id = t, bt_user_id = u, bt_order_id = order_id, bt_usage_log_id = usage_log_id,
               bt_type = typ, bt_amount = amount, bt_before = before, bt_after = after, bt_description = description\<rparr>
      in if \<not> (money_ok amount \<and> money_ok before \<and> money_ok after) then Inl Wallet_Numeric_Overflow
         else if i \<in> set (map bt_id (wd_transactions db)) then Inl Wallet_Duplicate_Key
         else if typ = Recharge \<and> order_id \<noteq> None
              \<and> list_ex (\<lambda>y. bt_type y = Recharge \<and> bt_order_id y = order_id) (wd_transactions db) then Inl Wallet_Duplicate_Key
         else if typ = Consume \<and> usage_log_id \<noteq> None
              \<and> list_ex (\<lambda>y. bt_type y = Consume \<and> bt_usage_log_id y = usage_log_id) (wd_transactions db) then Inl Wallet_Duplicate_Key
         else Inr (x, db\<lparr>wd_transactions := wd_transactions db @ [x]\<rparr>))"

definition lock_tenant :: "uuid \<Rightarrow> wallet_db \<Rightarrow> unit wallet_result" where
  "lock_tenant t db = ensure (has_tenant t (wd_tenants db)) (Wallet_Not_Found ''tenant'' t)"

text \<open>A transaction: an error rolls every statement back.\<close>

definition in_transaction :: "wallet_db \<Rightarrow> ('a \<times> wallet_db) wallet_result \<Rightarrow> wallet_db \<times> 'a wallet_result" where
  "in_transaction db r = (case r of Inl e \<Rightarrow> (db, Inl e) | Inr (x, db') \<Rightarrow> (db', Inr x))"

end
