(* ===== verification/Wallet.thy ===== *)
theory Wallet
  imports Wallet_Table
begin

text \<open>
  The wallet operations of \<open>crates/keycompute-db/src/models/user_balance.rs\<close>. Every operation runs in one
  transaction that holds the lock of the wallet rows it changes, so it is a function of the tables;
  \<open>now\<close> is the transaction's \<open>NOW()\<close>, \<open>app_now\<close> the reading of \<open>Utc::now()\<close>, and \<open>new_id\<close> the
  identifier the database generates for an inserted row. Amounts are in units of \<open>10 ^ -10\<close>.
\<close>

section \<open>Reclaiming expired reservations\<close>

definition is_administrative_release_tombstone :: "reservation_status \<Rightarrow> release_kind option \<Rightarrow> bool" where
  "is_administrative_release_tombstone status kind \<longleftrightarrow> status = Released \<and> kind = Some Administrative"

definition settlement_available_balances :: "money \<Rightarrow> money \<Rightarrow> money \<Rightarrow> money \<times> money" where
  "settlement_available_balances available reserved consumed =
     (let before = available + reserved in (before, before - consumed))"

definition decimal_max :: money where "decimal_max = 79228162514264337593543950335 * 10 ^ 10"

definition amount_to_reserve :: "money \<Rightarrow> money \<Rightarrow> money \<Rightarrow> money wallet_result" where
  "amount_to_reserve available requested minimum_available =
     (if minimum_available < 0 then Inl (Wallet_Other ''minimum available balance must not be negative'')
      else if requested < 0 then Inl (Wallet_Other ''balance reservation amount must not be negative'')
      else if available < minimum_available then Inl (Wallet_Insufficient minimum_available available)
      else let amount = max requested minimum_available
           in if available < amount then Inl (Wallet_Insufficient amount available) else Inr amount)"

definition active_total_by_user :: "uuid \<Rightarrow> uuid \<Rightarrow> wallet_db \<Rightarrow> money" where
  "active_total_by_user t u db =
     sum_rows (\<lambda>r. br_tenant_id r = t \<and> br_user_id r = u \<and> br_status r = Active) br_amount (wd_reservations db)"

text \<open>\<open>GROUP BY tenant_id, user_id\<close>.\<close>

definition group_by_key :: "reservation list \<Rightarrow> ((uuid \<times> uuid) \<times> reservation list) list" where
  "group_by_key rows = map (\<lambda>k. (k, filter (\<lambda>r. br_key r = k) rows)) (remdups (map br_key rows))"

text \<open>
  The candidate aggregate: per wallet the active sum, the expired part of it and the number of
  expired rows. The statement selects the users and the tenants of the locked wallets separately.
\<close>

definition reclaim_candidates ::
  "datetime \<Rightarrow> uuid list \<Rightarrow> uuid list \<Rightarrow> wallet_db \<Rightarrow> ((uuid \<times> uuid) \<times> money \<times> money \<times> nat) list" where
  "reclaim_candidates now users tenants db =
     map (\<lambda>(k, rs). (k, sum_rows (\<lambda>_. True) br_amount rs, sum_rows (\<lambda>r. br_expires_at r \<le> now) br_amount rs,
                      length (filter (\<lambda>r. br_expires_at r \<le> now) rs)))
       (group_by_key (filter (\<lambda>r. br_user_id r \<in> set users \<and> br_tenant_id r \<in> set tenants \<and> br_status r = Active)
          (wd_reservations db)))"

text \<open>The loop that returns the reclaimed amounts to the locked wallets.\<close>

fun reclaim_balances ::
  "((uuid \<times> uuid) \<rightharpoonup> money \<times> nat) \<Rightarrow> user_balance list \<Rightarrow> wallet_db \<Rightarrow> (user_balance list \<times> wallet_db) wallet_result" where
  "reclaim_balances summaries [] db = Inr ([], db)"
| "reclaim_balances summaries (b # bs) db =
     (case summaries (ub_key b) of
        None \<Rightarrow> and_then (reclaim_balances summaries bs db) (\<lambda>(bs', db'). Inr (b # bs', db'))
      | Some (amount, _) \<Rightarrow>
          if amount = 0 then and_then (reclaim_balances summaries bs db) (\<lambda>(bs', db'). Inr (b # bs', db'))
          else and_then (update_balance (ub_tenant_id b) (ub_user_id b)
                           (\<lambda>x. x\<lparr>ub_available := ub_available x + amount, ub_frozen := ub_frozen x - amount\<rparr>) db)
                 (\<lambda>(b', db1). and_then (ok_or b' (Wallet_Not_Found ''UserBalance'' (ub_user_id b)))
                   (\<lambda>b''. and_then (reclaim_balances summaries bs db1) (\<lambda>(bs', db'). Inr (b'' # bs', db')))))"

record reclaimed_state =
  rs_balances :: "user_balance list"
  rs_active_totals :: "(uuid \<times> uuid) \<rightharpoonup> money"
  rs_reclaimed :: nat

text \<open>
  The second half, once the wallets to reclaim are known: mark the expired rows, check that they are
  the expected ones, and move their amounts back.
\<close>

definition reclaim_valid ::
  "datetime \<Rightarrow> (uuid \<times> uuid) list \<Rightarrow> ((uuid \<times> uuid) \<times> money \<times> money \<times> nat) list \<Rightarrow> ((uuid \<times> uuid) \<rightharpoonup> money)
     \<Rightarrow> user_balance list \<Rightarrow> wallet_db \<Rightarrow> (reclaimed_state \<times> wallet_db) wallet_result" where
  "reclaim_valid now valid expected active_totals balances db =
     and_then (update_reservations (\<lambda>r. br_key r \<in> set valid \<and> br_status r = Active \<and> br_expires_at r \<le> now)
         (\<lambda>r. r\<lparr>br_status := Expired\<rparr>) db) (\<lambda>(rows, db1).
       let summaries = map (\<lambda>(k, rs). (k, sum_rows (\<lambda>_. True) br_amount rs, length rs)) (group_by_key rows);
           remaining = (\<lambda>k. case active_totals k of None \<Rightarrow> None
             | Some a \<Rightarrow> Some (a - unwrap_or (map_of (map (\<lambda>(k, a, e, n). (k, e)) expected) k) 0))
       in if length summaries \<noteq> length expected
          then Inl (Wallet_Other ''expired reservation reclamation returned unexpected user summaries'')
          else if list_ex (\<lambda>(k, a, e, n). map_of summaries k \<noteq> Some (e, n)) expected
          then Inl (Wallet_Other ''expired reservation reclamation changed unexpected rows'')
          else and_then (reclaim_balances (map_of summaries) balances db1) (\<lambda>(balances', db2).
                 Inr (\<lparr>rs_balances = balances', rs_active_totals = remaining,
                       rs_reclaimed = sum_list (map (\<lambda>(k, a, e, n). n) expected)\<rparr>, db2)))"

definition reclaim_expired_inner ::
  "bool \<Rightarrow> datetime \<Rightarrow> user_balance list \<Rightarrow> wallet_db \<Rightarrow> (reclaimed_state \<times> wallet_db) wallet_result" where
  "reclaim_expired_inner isolate now balances db =
     (if balances = [] then Inr (\<lparr>rs_balances = [], rs_active_totals = Map.empty, rs_reclaimed = 0\<rparr>, db)
      else
        let candidates = reclaim_candidates now (map ub_user_id balances) (map ub_tenant_id balances) db;
            totals = map_of (map (\<lambda>(k, a, e, n). (k, a)) candidates);
            active_totals = (\<lambda>k. case totals k of Some a \<Rightarrow> Some a | None \<Rightarrow> if k \<in> set (map ub_key balances) then Some 0 else None);
            expired_by_user = filter (\<lambda>(k, a, e, n). 0 < n) candidates;
            invalid = map ub_key (filter (\<lambda>b. ub_frozen b < unwrap_or (active_totals (ub_key b)) 0) balances);
            valid = filter (\<lambda>k. k \<notin> set invalid) (map ub_key balances)
        in if list_ex (\<lambda>(k, a, e, n). a < 0 \<or> e < 0 \<or> a < e) candidates
           then Inl (Wallet_Other ''invalid balance reservation reclaim aggregate'')
           else if invalid \<noteq> [] \<and> \<not> isolate
           then Inl (Wallet_Other ''active balance reservations exceed frozen balance'')
           else if expired_by_user = [] \<or> valid = []
           then Inr (\<lparr>rs_balances = balances, rs_active_totals = active_totals, rs_reclaimed = 0\<rparr>, db)
           else reclaim_valid now valid (filter (\<lambda>(k, a, e, n). k \<notin> set invalid) expired_by_user) active_totals balances db)"

text \<open>One locked wallet after reclamation, and its remaining active sum.\<close>

definition reclaim_locked :: "datetime \<Rightarrow> user_balance \<Rightarrow> wallet_db \<Rightarrow> ((user_balance \<times> money) \<times> wallet_db) wallet_result" where
  "reclaim_locked now b db =
     and_then (reclaim_expired_inner False now [b] db)
       (\<lambda>(st, db'). Inr ((last (rs_balances st), unwrap_or (rs_active_totals st (ub_key b)) 0), db'))"

text \<open>
  The background sweep. \<open>locked\<close> tells the rows another transaction holds (\<open>SKIP LOCKED\<close>). Both
  subqueries select the reservations of the user, in whatever tenant.
\<close>

definition sweep_rows :: "datetime \<Rightarrow> (user_balance \<Rightarrow> bool) \<Rightarrow> nat \<Rightarrow> wallet_db \<Rightarrow> user_balance list" where
  "sweep_rows now locked batch_size db =
     take batch_size (filter (\<lambda>b. \<not> locked b)
       (sort_key ub_user_id
         (filter (\<lambda>b. list_ex (\<lambda>r. br_user_id r = ub_user_id b \<and> br_status r = Active \<and> br_expires_at r \<le> now) (wd_reservations db)
                     \<and> sum_rows (\<lambda>r. br_user_id r = ub_user_id b \<and> br_status r = Active) br_amount (wd_reservations db) \<le> ub_frozen b)
            (wd_balances db))))"

definition reclaim_expired ::
  "datetime \<Rightarrow> (user_balance \<Rightarrow> bool) \<Rightarrow> nat \<Rightarrow> wallet_db \<Rightarrow> wallet_db \<times> nat wallet_result" where
  "reclaim_expired now locked batch_size db =
     (if batch_size = 0 then (db, Inr 0)
      else if 2 ^ 63 \<le> batch_size then (db, Inl (Wallet_Other ''reservation reclaim batch size is too large''))
      else in_transaction db
        (and_then (reclaim_expired_inner True now (sweep_rows now locked batch_size db) db)
           (\<lambda>(st, db'). Inr (rs_reclaimed st, db'))))"

section \<open>Request reservations\<close>

text \<open>
  What a request already holds: nothing, or the row to reuse with the amount it still owns. Settled
  requests and administrative tombstones cannot be reserved again.
\<close>

definition reusable_request :: "uuid \<Rightarrow> uuid \<Rightarrow> uuid \<Rightarrow> wallet_db \<Rightarrow> (reservation option \<times> money) wallet_result" where
  "reusable_request t u request_id db =
     (case find_reservation request_id db of
        None \<Rightarrow> Inr (None, 0)
      | Some existing \<Rightarrow>
          if br_key existing \<noteq> (t, u) then Inl (Wallet_Other ''balance reservation belongs to another principal'')
          else if br_status existing = Settled then Inl (Wallet_Other ''balance reservation is already settled'')
          else if is_administrative_release_tombstone (br_status existing) (br_release_kind existing)
          then Inl (Wallet_Other ''balance reservation was administratively released and cannot be reactivated'')
          else Inr (Some existing, if br_status existing = Active then br_amount existing else 0))"

definition reserve_rows ::
  "datetime \<Rightarrow> uuid \<Rightarrow> uuid \<Rightarrow> uuid \<Rightarrow> uuid \<Rightarrow> uuid \<Rightarrow> datetime \<Rightarrow> reservation option \<Rightarrow> money \<Rightarrow> wallet_db
     \<Rightarrow> (reservation \<times> wallet_db) wallet_result" where
  "reserve_rows now new_id t u request_id owner_token expires_at reusable amount db =
     (case reusable of
        None \<Rightarrow>
          insert_reservation
            \<lparr>br_id = new_id, br_request_id = request_id, br_owner_token = owner_token, br_tenant_id = t,
             br_user_id = u, br_amount = amount, br_status = Active, br_usage_log_id = None,
             br_expires_at = expires_at, br_settled_at = None, br_released_at = None, br_release_kind = None,
             br_release_reason = None, br_released_by = None, br_created_at = now\<rparr> db
      | Some _ \<Rightarrow>
          and_then (update_reservations (\<lambda>r. br_request_id r = request_id)
              (\<lambda>r. r\<lparr>br_owner_token := owner_token, br_amount := amount, br_status := Active, br_usage_log_id := None,
                    br_expires_at := expires_at, br_settled_at := None, br_released_at := None,
                    br_release_kind := None, br_release_reason := None, br_released_by := None\<rparr>) db)
            (\<lambda>(rows, db'). and_then (ok_or (case rows of [] \<Rightarrow> None | r # _ \<Rightarrow> Some r)
                 (Wallet_Other ''create balance reservation failed'')) (\<lambda>r. Inr (r, db'))))"

definition move_to_frozen :: "uuid \<Rightarrow> uuid \<Rightarrow> money \<Rightarrow> wallet_db \<Rightarrow> wallet_db wallet_result" where
  "move_to_frozen t u delta db =
     (if delta = 0 then Inr db
      else and_then (update_balance t u (\<lambda>x. x\<lparr>ub_available := ub_available x - delta, ub_frozen := ub_frozen x + delta\<rparr>) db)
             (\<lambda>(_, db'). Inr db'))"

definition reserve_in_tx ::
  "datetime \<Rightarrow> uuid \<Rightarrow> uuid \<Rightarrow> uuid \<Rightarrow> uuid \<Rightarrow> uuid \<Rightarrow> money \<Rightarrow> money \<Rightarrow> datetime
     \<Rightarrow> wallet_db \<Rightarrow> (reservation \<times> wallet_db) wallet_result" where
  "reserve_in_tx now new_id t u request_id owner_token requested minimum_available expires_at db =
     and_then (lock_tenant t db) (\<lambda>_.
     and_then (ok_or (find_balance t u db) (Wallet_Insufficient minimum_available 0)) (\<lambda>b0.
     and_then (reclaim_locked now b0 db) (\<lambda>((b, _), db1).
     and_then (reusable_request t u request_id db1) (\<lambda>(reusable, replaced).
     and_then (amount_to_reserve (ub_available b + replaced) requested minimum_available) (\<lambda>amount.
     and_then (move_to_frozen t u (amount - replaced) db1) (\<lambda>db2.
       reserve_rows now new_id t u request_id owner_token expires_at reusable amount db2))))))"

definition balance_reserve ::
  "datetime \<Rightarrow> datetime \<Rightarrow> uuid \<Rightarrow> uuid \<Rightarrow> uuid \<Rightarrow> uuid \<Rightarrow> uuid \<Rightarrow> money \<Rightarrow> money \<Rightarrow> datetime
     \<Rightarrow> wallet_db \<Rightarrow> wallet_db \<times> reservation wallet_result" where
  "balance_reserve app_now now new_id t u request_id owner_token requested minimum_available expires_at db =
     (case amount_to_reserve decimal_max requested minimum_available of
        Inl e \<Rightarrow> (db, Inl e)
      | Inr _ \<Rightarrow>
          if expires_at \<le> app_now then (db, Inl (Wallet_Other ''balance reservation expiry must be in the future''))
          else in_transaction db
                 (reserve_in_tx now new_id t u request_id owner_token requested minimum_available expires_at db))"

definition settle_rows :: "datetime \<Rightarrow> uuid \<Rightarrow> uuid \<Rightarrow> wallet_db \<Rightarrow> wallet_db wallet_result" where
  "settle_rows now usage_log_id request_id db =
     and_then (update_reservations (\<lambda>r. br_request_id r = request_id)
         (\<lambda>r. r\<lparr>br_status := Settled, br_usage_log_id := Some usage_log_id, br_settled_at := Some now\<rparr>) db)
       (\<lambda>(_, db'). Inr db')"

text \<open>
  The three branches of a settlement under the locks: a replay of a settled request, the release of the
  whole reservation when the usage log was already charged, and the charge itself.
\<close>

definition settle_replay ::
  "reservation \<Rightarrow> user_balance \<Rightarrow> money \<Rightarrow> uuid \<Rightarrow> wallet_db
     \<Rightarrow> ((user_balance \<times> balance_transaction) option \<times> wallet_db) wallet_result" where
  "settle_replay reservation b amount usage_log_id db =
     (if br_usage_log_id reservation \<noteq> Some usage_log_id
      then Inl (Wallet_Other ''balance reservation is already bound to another usage log'')
      else and_then (ok_or (find_consumption_by_usage_log usage_log_id db)
               (Wallet_Other ''settled balance reservation has no consumption transaction'')) (\<lambda>x.
           if bt_user_id x \<noteq> br_user_id reservation \<or> bt_amount x \<noteq> - amount
           then Inl (Wallet_Other ''usage log is already bound to a different balance consumption'')
           else Inr (Some (b, x), db)))"

definition settle_charged ::
  "datetime \<Rightarrow> reservation \<Rightarrow> balance_transaction \<Rightarrow> money \<Rightarrow> uuid \<Rightarrow> wallet_db
     \<Rightarrow> ((user_balance \<times> balance_transaction) option \<times> wallet_db) wallet_result" where
  "settle_charged now reservation x amount usage_log_id db =
     (if bt_user_id x \<noteq> br_user_id reservation \<or> bt_amount x \<noteq> - amount
      then Inl (Wallet_Other ''usage log is already bound to a different balance consumption'')
      else and_then (update_balance (br_tenant_id reservation) (br_user_id reservation)
               (\<lambda>y. y\<lparr>ub_available := ub_available y + br_amount reservation,
                     ub_frozen := ub_frozen y - br_amount reservation\<rparr>) db) (\<lambda>(b', db1).
           and_then (ok_or b' (Wallet_Not_Found ''UserBalance'' (br_user_id reservation))) (\<lambda>b''.
           and_then (settle_rows now usage_log_id (br_request_id reservation) db1) (\<lambda>db2. Inr (Some (b'', x), db2)))))"

definition settle_charge ::
  "datetime \<Rightarrow> uuid \<Rightarrow> reservation \<Rightarrow> user_balance \<Rightarrow> money \<Rightarrow> uuid \<Rightarrow> string option \<Rightarrow> wallet_db
     \<Rightarrow> ((user_balance \<times> balance_transaction) option \<times> wallet_db) wallet_result" where
  "settle_charge now new_id reservation b amount usage_log_id description db =
     (let (before, after) = settlement_available_balances (ub_available b) (br_amount reservation) amount
      in and_then (update_balance (br_tenant_id reservation) (br_user_id reservation)
             (\<lambda>y. y\<lparr>ub_available := ub_available y + br_amount reservation - amount,
                   ub_frozen := ub_frozen y - br_amount reservation,
                   ub_consumed := ub_consumed y + amount\<rparr>) db) (\<lambda>(b', db1).
         and_then (ok_or b' (Wallet_Not_Found ''UserBalance'' (br_user_id reservation))) (\<lambda>b''.
         and_then (create_internal new_id (br_tenant_id reservation) (br_user_id reservation) None (Some usage_log_id)
             Consume (- amount) before after description db1) (\<lambda>(x, db2).
         and_then (settle_rows now usage_log_id (br_request_id reservation) db2) (\<lambda>db3. Inr (Some (b'', x), db3))))))"

text \<open>
  \<open>settle\<close> and \<open>release\<close> first look the request up outside the transaction to learn its wallet, and read
  it again under the locks. The wallet of a request never changes, its status and owner may.
\<close>

definition settle_in_tx ::
  "datetime \<Rightarrow> uuid \<Rightarrow> uuid \<Rightarrow> uuid \<Rightarrow> uuid \<Rightarrow> uuid option \<Rightarrow> money \<Rightarrow> uuid \<Rightarrow> string option \<Rightarrow> wallet_db
     \<Rightarrow> ((user_balance \<times> balance_transaction) option \<times> wallet_db) wallet_result" where
  "settle_in_tx now new_id t u request_id expected_owner amount usage_log_id description db =
     and_then (lock_tenant t db) (\<lambda>_.
     and_then (ok_or (find_balance t u db) (Wallet_Not_Found ''UserBalance'' u)) (\<lambda>b.
     and_then (ok_or (find_reservation request_id db)
         (Wallet_Other ''balance reservation disappeared during settlement'')) (\<lambda>reservation.
       if br_status reservation = Settled then settle_replay reservation b amount usage_log_id db
       else if br_status reservation \<noteq> Active then Inr (None, db)
       else if Some (br_owner_token reservation) \<noteq> expected_owner then Inr (None, db)
       else if ub_frozen b < br_amount reservation then Inl (Wallet_Other ''balance reservation exceeds frozen balance'')
       else case find_consumption_by_usage_log usage_log_id db of
              Some x \<Rightarrow> settle_charged now reservation x amount usage_log_id db
            | None \<Rightarrow> settle_charge now new_id reservation b amount usage_log_id description db)))"

definition settle ::
  "datetime \<Rightarrow> uuid \<Rightarrow> uuid \<Rightarrow> uuid \<Rightarrow> uuid \<Rightarrow> uuid option \<Rightarrow> money \<Rightarrow> uuid \<Rightarrow> string option
     \<Rightarrow> wallet_db \<Rightarrow> wallet_db \<times> (user_balance \<times> balance_transaction) option wallet_result" where
  "settle now new_id t u request_id expected_owner amount usage_log_id description db =
     (if amount < 0 then (db, Inl (Wallet_Other ''balance settlement amount must not be negative''))
      else case find_reservation request_id db of
        None \<Rightarrow> (db, Inr None)
      | Some snapshot \<Rightarrow>
          if br_key snapshot \<noteq> (t, u) then (db, Inl (Wallet_Tenant_Mismatch u t (br_tenant_id snapshot)))
          else in_transaction db (settle_in_tx now new_id t u request_id expected_owner amount usage_log_id description db))"

definition release_in_tx ::
  "datetime \<Rightarrow> uuid \<Rightarrow> uuid \<Rightarrow> uuid \<Rightarrow> uuid \<Rightarrow> wallet_db \<Rightarrow> (bool \<times> wallet_db) wallet_result" where
  "release_in_tx now t u request_id owner_token db =
     and_then (lock_tenant t db) (\<lambda>_.
     and_then (ok_or (find_balance t u db) (Wallet_Not_Found ''UserBalance'' u)) (\<lambda>b.
     and_then (ok_or (find_reservation request_id db)
         (Wallet_Other ''balance reservation disappeared during release'')) (\<lambda>reservation.
       if br_status reservation \<noteq> Active \<or> br_owner_token reservation \<noteq> owner_token then Inr (False, db)
       else if ub_frozen b < br_amount reservation then Inl (Wallet_Other ''balance reservation exceeds frozen balance'')
       else and_then (if 0 < br_amount reservation
                      then move_to_frozen (br_tenant_id reservation) (br_user_id reservation) (- br_amount reservation) db
                      else Inr db) (\<lambda>db1.
            and_then (update_reservations (\<lambda>r. br_request_id r = request_id)
                (\<lambda>r. r\<lparr>br_status := Released, br_released_at := Some now, br_release_kind := Some Automatic,
                      br_release_reason := Some ''dispatch aborted before settlement'', br_released_by := None\<rparr>) db1)
              (\<lambda>(_, db2). Inr (True, db2))))))"

definition balance_release :: "datetime \<Rightarrow> uuid \<Rightarrow> uuid \<Rightarrow> uuid \<Rightarrow> uuid \<Rightarrow> wallet_db \<Rightarrow> wallet_db \<times> bool wallet_result" where
  "balance_release now t u request_id owner_token db =
     (case find_reservation request_id db of
        None \<Rightarrow> (db, Inr False)
      | Some snapshot \<Rightarrow>
          if br_key snapshot \<noteq> (t, u) \<or> br_owner_token snapshot \<noteq> owner_token then (db, Inr False)
          else in_transaction db (release_in_tx now t u request_id owner_token db))"

section \<open>Wallet movements\<close>

definition total_balance :: "user_balance \<Rightarrow> money" where "total_balance b = ub_available b + ub_frozen b"

definition can_deduct :: "user_balance \<Rightarrow> money \<Rightarrow> bool" where "can_deduct b amount \<longleftrightarrow> amount \<le> ub_available b"

definition new_balance :: "uuid \<Rightarrow> uuid \<Rightarrow> user_balance" where
  "new_balance t u = \<lparr>ub_tenant_id = t, ub_user_id = u, ub_available = 0, ub_frozen = 0, ub_recharged = 0, ub_consumed = 0\<rparr>"

definition require_member :: "uuid \<Rightarrow> uuid \<Rightarrow> wallet_db \<Rightarrow> unit wallet_result" where
  "require_member t u db =
     and_then (ensure (has_user u (wd_users db)) (Wallet_Not_Found ''user'' u)) (\<lambda>_.
       ensure (find_membership t u (wd_tenants db) (wd_users db) (wd_members db) \<noteq> None) (Wallet_Tenant_Mismatch u t t))"

definition get_or_create :: "uuid \<Rightarrow> uuid \<Rightarrow> wallet_db \<Rightarrow> wallet_db \<times> user_balance wallet_result" where
  "get_or_create t u db = in_transaction db
     (and_then (lock_tenant t db) (\<lambda>_.
      and_then (require_member t u db) (\<lambda>_.
      case find_balance t u db of
        Some b \<Rightarrow> Inr (b, db)
      | None \<Rightarrow> insert_balance (new_balance t u) db)))"

definition recharge_in_tx ::
  "uuid \<Rightarrow> uuid \<Rightarrow> uuid \<Rightarrow> money \<Rightarrow> uuid option \<Rightarrow> string option
     \<Rightarrow> wallet_db \<Rightarrow> ((user_balance \<times> balance_transaction) \<times> wallet_db) wallet_result" where
  "recharge_in_tx new_id t u amount order_id description db =
     and_then (ensure (0 < amount) (Wallet_Other ''balance recharge amount must be greater than zero'')) (\<lambda>_.
     and_then (lock_tenant t db) (\<lambda>_.
     and_then (case find_balance t u db of
          Some b \<Rightarrow> Inr (b, db)
        | None \<Rightarrow> if has_membership t u (wd_members db) then insert_balance (new_balance t u) db else Inl Wallet_Foreign_Key)
       (\<lambda>(b, db1).
     and_then (update_balance t u
         (\<lambda>y. y\<lparr>ub_available := ub_available y + amount, ub_recharged := ub_recharged y + amount\<rparr>) db1) (\<lambda>(b', db2).
     and_then (ok_or b' (Wallet_Other ''recharge balance update failed'')) (\<lambda>b''.
     and_then (create_internal new_id t u order_id None Recharge amount (ub_available b) (ub_available b + amount) description db2)
       (\<lambda>(x, db3). Inr ((b'', x), db3)))))))"

definition recharge ::
  "uuid \<Rightarrow> uuid \<Rightarrow> uuid \<Rightarrow> money \<Rightarrow> uuid option \<Rightarrow> string option
     \<Rightarrow> wallet_db \<Rightarrow> wallet_db \<times> (user_balance \<times> balance_transaction) wallet_result" where
  "recharge new_id t u amount order_id description db =
     (if amount \<le> 0 then (db, Inl (Wallet_Other ''balance recharge amount must be greater than zero''))
      else in_transaction db (recharge_in_tx new_id t u amount order_id description db))"

text \<open>The wallet row under its lock, after reclamation, as \<open>consume\<close>, \<open>freeze\<close> and \<open>unfreeze\<close> see it.\<close>

definition locked_wallet :: "datetime \<Rightarrow> uuid \<Rightarrow> uuid \<Rightarrow> wallet_db \<Rightarrow> ((user_balance \<times> money) \<times> wallet_db) wallet_result" where
  "locked_wallet now t u db =
     and_then (lock_tenant t db) (\<lambda>_.
     and_then (ok_or (find_balance t u db) (Wallet_Not_Found ''UserBalance'' u)) (\<lambda>b. reclaim_locked now b db))"

text \<open>The update of the wallet row and the ledger entry that records it.\<close>

definition record_movement ::
  "uuid \<Rightarrow> uuid \<Rightarrow> uuid \<Rightarrow> uuid option \<Rightarrow> transaction_type \<Rightarrow> money \<Rightarrow> user_balance \<Rightarrow> (user_balance \<Rightarrow> user_balance)
     \<Rightarrow> string option \<Rightarrow> wallet_db \<Rightarrow> ((user_balance \<times> balance_transaction) \<times> wallet_db) wallet_result" where
  "record_movement new_id t u usage_log_id typ signed_amount b f description db =
     and_then (update_balance t u f db) (\<lambda>(b', db1).
     and_then (ok_or b' (Wallet_Not_Found ''UserBalance'' u)) (\<lambda>b''.
     and_then (create_internal new_id t u None usage_log_id typ signed_amount (ub_available b)
         (ub_available b + signed_amount) description db1) (\<lambda>(x, db2). Inr ((b'', x), db2))))"

definition consume_in_tx ::
  "datetime \<Rightarrow> uuid \<Rightarrow> uuid \<Rightarrow> uuid \<Rightarrow> money \<Rightarrow> uuid option \<Rightarrow> string option
     \<Rightarrow> wallet_db \<Rightarrow> ((user_balance \<times> balance_transaction) \<times> wallet_db) wallet_result" where
  "consume_in_tx now new_id t u amount usage_log_id description db =
     and_then (locked_wallet now t u db) (\<lambda>((b, _), db1).
       let charge =
         (if ub_available b < amount \<and> usage_log_id = None then Inl (Wallet_Insufficient amount (ub_available b))
          else record_movement new_id t u usage_log_id Consume (- amount) b
                 (\<lambda>y. y\<lparr>ub_available := ub_available y - amount, ub_consumed := ub_consumed y + amount\<rparr>) description db1)
       in case (case usage_log_id of None \<Rightarrow> None | Some l \<Rightarrow> find_consumption_by_usage_log l db1) of
            Some x \<Rightarrow>
              if bt_user_id x \<noteq> u \<or> bt_amount x \<noteq> - amount
              then Inl (Wallet_Other ''usage log is already bound to a different balance consumption'')
              else Inr ((b, x), db1)
          | None \<Rightarrow> charge)"

definition consume ::
  "datetime \<Rightarrow> uuid \<Rightarrow> uuid \<Rightarrow> uuid \<Rightarrow> money \<Rightarrow> uuid option \<Rightarrow> string option
     \<Rightarrow> wallet_db \<Rightarrow> wallet_db \<times> (user_balance \<times> balance_transaction) wallet_result" where
  "consume now new_id t u amount usage_log_id description db =
     (if amount < 0 \<or> amount = 0 \<and> usage_log_id = None
      then (db, Inl (Wallet_Other ''balance consumption amount must be greater than zero unless it records a zero-cost usage ledger entry''))
      else in_transaction db (consume_in_tx now new_id t u amount usage_log_id description db))"

definition freeze_in_tx ::
  "datetime \<Rightarrow> uuid \<Rightarrow> uuid \<Rightarrow> uuid \<Rightarrow> money \<Rightarrow> string option
     \<Rightarrow> wallet_db \<Rightarrow> ((user_balance \<times> balance_transaction) \<times> wallet_db) wallet_result" where
  "freeze_in_tx now new_id t u amount description db =
     and_then (locked_wallet now t u db) (\<lambda>((b, _), db1).
       if ub_available b < amount then Inl (Wallet_Insufficient amount (ub_available b))
       else record_movement new_id t u None Freeze (- amount) b
              (\<lambda>y. y\<lparr>ub_available := ub_available y - amount, ub_frozen := ub_frozen y + amount\<rparr>) description db1)"

definition freeze ::
  "datetime \<Rightarrow> uuid \<Rightarrow> uuid \<Rightarrow> uuid \<Rightarrow> money \<Rightarrow> string option
     \<Rightarrow> wallet_db \<Rightarrow> wallet_db \<times> (user_balance \<times> balance_transaction) wallet_result" where
  "freeze now new_id t u amount description db =
     (if amount \<le> 0 then (db, Inl (Wallet_Other ''balance freeze amount must be greater than zero''))
      else in_transaction db (freeze_in_tx now new_id t u amount description db))"

text \<open>
  The state of the transaction is returned with an error too: \<open>unfreeze\<close> commits the
  reclamation when only the manually frozen funds are too small.
\<close>

definition unfreeze_in_tx ::
  "datetime \<Rightarrow> uuid \<Rightarrow> uuid \<Rightarrow> uuid \<Rightarrow> money \<Rightarrow> string option
     \<Rightarrow> wallet_db \<Rightarrow> wallet_db \<times> (user_balance \<times> balance_transaction) wallet_result" where
  "unfreeze_in_tx now new_id t u amount description db =
     (case locked_wallet now t u db of
        Inl e \<Rightarrow> (db, Inl e)
      | Inr ((b, active_reserved), db1) \<Rightarrow>
          if ub_frozen b < active_reserved
          then (db1, Inl (Wallet_Other ''active balance reservations exceed frozen balance''))
          else if ub_frozen b - active_reserved < amount
          then (db1, Inl (Wallet_Insufficient amount (ub_frozen b - active_reserved)))
          else in_transaction db1 (record_movement new_id t u None Unfreeze amount b
                 (\<lambda>y. y\<lparr>ub_available := ub_available y + amount, ub_frozen := ub_frozen y - amount\<rparr>) description db1))"

definition unfreeze ::
  "datetime \<Rightarrow> uuid \<Rightarrow> uuid \<Rightarrow> uuid \<Rightarrow> money \<Rightarrow> string option
     \<Rightarrow> wallet_db \<Rightarrow> wallet_db \<times> (user_balance \<times> balance_transaction) wallet_result" where
  "unfreeze now new_id t u amount description db =
     (if amount \<le> 0 then (db, Inl (Wallet_Other ''balance unfreeze amount must be greater than zero''))
      else case unfreeze_in_tx now new_id t u amount description db of
        (db', Inr r) \<Rightarrow> (db', Inr r)
      | (db', Inl e) \<Rightarrow> (if is_insufficient_balance e then db' else db, Inl e))"

definition credit_tips ::
  "uuid \<Rightarrow> uuid \<Rightarrow> uuid \<Rightarrow> money \<Rightarrow> string option
     \<Rightarrow> wallet_db \<Rightarrow> ((user_balance \<times> balance_transaction) \<times> wallet_db) wallet_result" where
  "credit_tips new_id u t amount description db =
     and_then (ensure (0 < amount) (Wallet_Other ''balance tip credit amount must be greater than zero'')) (\<lambda>_.
     and_then (lock_tenant t db) (\<lambda>_.
     and_then (require_member t u db) (\<lambda>_.
     and_then (case find_balance t u db of
          None \<Rightarrow> insert_balance ((new_balance t u)\<lparr>ub_available := amount, ub_recharged := amount\<rparr>) db
        | Some _ \<Rightarrow> and_then (update_balance t u
              (\<lambda>y. y\<lparr>ub_available := ub_available y + amount, ub_recharged := ub_recharged y + amount\<rparr>) db)
            (\<lambda>(b', db1). and_then (ok_or b' (Wallet_Other ''credit_tips upsert failed'')) (\<lambda>b''. Inr (b'', db1))))
       (\<lambda>(b, db1).
     and_then (create_internal new_id t u None None Tip_Credit amount (ub_available b - amount) (ub_available b) description db1)
       (\<lambda>(x, db2). Inr ((b, x), db2))))))"

section \<open>Reads that reclaim first\<close>

record balance_breakdown =
  bb_balance :: user_balance
  bb_active_reserved :: money
  bb_manually_frozen :: money

definition breakdown_with_active_total :: "user_balance \<Rightarrow> money \<Rightarrow> balance_breakdown wallet_result" where
  "breakdown_with_active_total b active_reserved =
     (if ub_frozen b < active_reserved then Inl (Wallet_Other ''active balance reservations exceed frozen balance'')
      else Inr \<lparr>bb_balance = b, bb_active_reserved = active_reserved, bb_manually_frozen = ub_frozen b - active_reserved\<rparr>)"

definition find_by_user_reclaiming_expired ::
  "datetime \<Rightarrow> uuid \<Rightarrow> uuid \<Rightarrow> wallet_db \<Rightarrow> wallet_db \<times> user_balance option wallet_result" where
  "find_by_user_reclaiming_expired now t u db =
     (case find_balance t u db of
        None \<Rightarrow> (db, Inr None)
      | Some b \<Rightarrow> in_transaction db (and_then (reclaim_locked now b db) (\<lambda>((b', _), db'). Inr (Some b', db'))))"

definition find_breakdown_by_user ::
  "datetime \<Rightarrow> uuid \<Rightarrow> uuid \<Rightarrow> wallet_db \<Rightarrow> wallet_db \<times> balance_breakdown option wallet_result" where
  "find_breakdown_by_user now t u db =
     (case find_balance t u db of
        None \<Rightarrow> (db, Inr None)
      | Some b \<Rightarrow> in_transaction db
          (and_then (reclaim_locked now b db) (\<lambda>((b', active_reserved), db').
           and_then (breakdown_with_active_total b' active_reserved) (\<lambda>d. Inr (Some d, db')))))"

definition find_by_users_reclaiming_expired ::
  "datetime \<Rightarrow> uuid \<Rightarrow> uuid list \<Rightarrow> wallet_db \<Rightarrow> wallet_db \<times> (uuid \<rightharpoonup> user_balance) wallet_result" where
  "find_by_users_reclaiming_expired now t users db =
     (if users = [] then (db, Inr Map.empty)
      else in_transaction db
        (and_then (reclaim_expired_inner False now
             (sort_key ub_user_id (filter (\<lambda>b. ub_tenant_id b = t \<and> ub_user_id b \<in> set users) (wd_balances db))) db)
           (\<lambda>(st, db'). Inr (map_of (map (\<lambda>b. (ub_user_id b, b)) (rs_balances st)), db'))))"

text \<open>
  Keyset pages of the active reservations, newest first: the rows strictly before the cursor, one more
  than the page holds to learn whether another page follows.
\<close>

definition validate_page_size :: "nat \<Rightarrow> unit wallet_result" where
  "validate_page_size limit =
     ensure (1 \<le> limit \<and> limit \<le> 100) (Wallet_Other ''balance reservation page size must be between 1 and 100'')"

definition cursor_of :: "reservation \<Rightarrow> datetime \<times> uuid" where "cursor_of r = (br_created_at r, br_id r)"

definition before_cursor :: "(datetime \<times> uuid) option \<Rightarrow> reservation \<Rightarrow> bool" where
  "before_cursor cursor r =
     (case cursor of None \<Rightarrow> True
      | Some (c, i) \<Rightarrow> br_created_at r < c \<or> br_created_at r = c \<and> br_id r < i)"

definition active_page_by_user ::
  "uuid \<Rightarrow> uuid \<Rightarrow> (datetime \<times> uuid) option \<Rightarrow> nat \<Rightarrow> wallet_db \<Rightarrow> reservation list \<times> (datetime \<times> uuid) option" where
  "active_page_by_user t u cursor limit db =
     (let rows = take (limit + 1) (rev (sort_key br_created_at (sort_key br_id
            (filter (\<lambda>r. br_tenant_id r = t \<and> br_user_id r = u \<and> br_status r = Active \<and> before_cursor cursor r)
               (wd_reservations db)))));
          page = take limit rows
      in (page, if limit < length rows then Some (cursor_of (last page)) else None))"

record breakdown_page =
  bp_breakdown :: balance_breakdown
  bp_reservations :: "reservation list"
  bp_next_cursor :: "(datetime \<times> uuid) option"

definition find_breakdown_page_by_user ::
  "datetime \<Rightarrow> uuid \<Rightarrow> uuid \<Rightarrow> (datetime \<times> uuid) option \<Rightarrow> nat \<Rightarrow> wallet_db
     \<Rightarrow> wallet_db \<times> breakdown_page option wallet_result" where
  "find_breakdown_page_by_user now t u cursor limit db =
     (case validate_page_size limit of
        Inl e \<Rightarrow> (db, Inl e)
      | Inr _ \<Rightarrow>
          (case find_balance t u db of
             None \<Rightarrow> (db, Inr None)
           | Some b \<Rightarrow> in_transaction db
               (and_then (reclaim_locked now b db) (\<lambda>((b', active_reserved), db').
                and_then (breakdown_with_active_total b' active_reserved) (\<lambda>d.
                  let (rows, next) = active_page_by_user t u cursor limit db'
                  in Inr (Some \<lparr>bp_breakdown = d, bp_reservations = rows, bp_next_cursor = next\<rparr>, db'))))))"

definition breakdown_for_locked_balance :: "user_balance \<Rightarrow> wallet_db \<Rightarrow> balance_breakdown wallet_result" where
  "breakdown_for_locked_balance b db =
     breakdown_with_active_total b (active_total_by_user (ub_tenant_id b) (ub_user_id b) db)"

definition find_by_users :: "uuid \<Rightarrow> uuid list \<Rightarrow> wallet_db \<Rightarrow> uuid \<rightharpoonup> user_balance" where
  "find_by_users t users db =
     (if users = [] then Map.empty
      else map_of (map (\<lambda>b. (ub_user_id b, b))
             (filter (\<lambda>b. ub_tenant_id b = t \<and> ub_user_id b \<in> set users) (wd_balances db))))"

end
