(* ===== verification/Wallet_Reclaim.thy ===== *)
theory Wallet_Reclaim
  imports Wallet
begin

text \<open>
  The wallet invariant, and reclamation of expired reservations under it. The invariant ties each wallet
  row to the ledger and the reservations: recharged and consumed are the sums of the ledger entries,
  frozen is what active reservations hold plus what was frozen by hand, and available plus frozen is
  recharged minus consumed. A wallet that satisfies it reclaims without an error, and exactly its
  expired part.
\<close>

section \<open>What the ledger says of a wallet\<close>

definition ledger_sum :: "transaction_type set \<Rightarrow> uuid \<times> uuid \<Rightarrow> wallet_db \<Rightarrow> money" where
  "ledger_sum types k db = sum_rows (\<lambda>x. bt_key x = k \<and> bt_type x \<in> types) bt_amount (wd_transactions db)"

definition held_sum :: "uuid \<times> uuid \<Rightarrow> wallet_db \<Rightarrow> money" where
  "held_sum k db = sum_rows (\<lambda>r. br_key r = k \<and> br_status r = Active) br_amount (wd_reservations db)"

abbreviation recharged_sum where "recharged_sum \<equiv> ledger_sum {Recharge, Tip_Credit}"
abbreviation consumed_sum where "consumed_sum \<equiv> ledger_sum {Consume}"
abbreviation frozen_sum where "frozen_sum \<equiv> ledger_sum {Freeze, Unfreeze}"

text \<open>A wallet row with an amount \<open>p\<close> that left its reservations but has not been returned to it yet.\<close>

definition row_off :: "wallet_db \<Rightarrow> money \<Rightarrow> user_balance \<Rightarrow> bool" where
  "row_off db p b \<longleftrightarrow>
     ub_recharged b = recharged_sum (ub_key b) db
     \<and> ub_consumed b = - consumed_sum (ub_key b) db
     \<and> ub_frozen b = held_sum (ub_key b) db + p - frozen_sum (ub_key b) db
     \<and> ub_available b + ub_frozen b = ub_recharged b - ub_consumed b
     \<and> frozen_sum (ub_key b) db \<le> 0 \<and> balance_fits b \<and> balance_checks b"

definition rows_off :: "wallet_db \<Rightarrow> (uuid \<times> uuid \<Rightarrow> money) \<Rightarrow> bool" where
  "rows_off db p \<longleftrightarrow> distinct (map ub_key (wd_balances db)) \<and> (\<forall>b \<in> set (wd_balances db). row_off db (p (ub_key b)) b)"

definition reservations_inv :: "reservation list \<Rightarrow> bool" where
  "reservations_inv rows \<longleftrightarrow> distinct (map br_id rows) \<and> distinct (map br_request_id rows)
     \<and> (\<forall>r \<in> set rows. reservation_checks r \<and> money_ok (br_amount r)) \<and> distinct (List.map_filter br_usage_log_id rows)"

definition consumption_log :: "balance_transaction \<Rightarrow> uuid option" where
  "consumption_log x = (if bt_type x = Consume then bt_usage_log_id x else None)"

definition transactions_inv :: "balance_transaction list \<Rightarrow> bool" where
  "transactions_inv txs \<longleftrightarrow> (\<forall>x \<in> set txs. bt_after x = bt_before x + bt_amount x)
     \<and> distinct (List.map_filter consumption_log txs)"

definition wallets_cover :: "wallet_db \<Rightarrow> bool" where
  "wallets_cover db \<longleftrightarrow>
     (\<forall>r \<in> set (wd_reservations db). br_status r = Active \<longrightarrow> br_key r \<in> ub_key ` set (wd_balances db))
     \<and> (\<forall>x \<in> set (wd_transactions db). bt_key x \<in> ub_key ` set (wd_balances db))"

definition settled_charged :: "wallet_db \<Rightarrow> bool" where
  "settled_charged db \<longleftrightarrow> (\<forall>r \<in> set (wd_reservations db). br_status r = Settled \<longrightarrow>
     (\<exists>x \<in> set (wd_transactions db). consumption_log x = br_usage_log_id r \<and> bt_user_id x = br_user_id r))"

definition wallet_inv :: "wallet_db \<Rightarrow> bool" where
  "wallet_inv db \<longleftrightarrow> rows_off db (\<lambda>_. 0) \<and> reservations_inv (wd_reservations db) \<and> transactions_inv (wd_transactions db)
     \<and> wallets_cover db \<and> settled_charged db"

section \<open>Statements\<close>

lemma find_balance_Some:
  "find_balance t u db = Some b \<Longrightarrow> b \<in> set (wd_balances db) \<and> ub_key b = (t, u)"
  by (auto simp: find_balance_def dest: find_Some_mem)

lemma find_balance_eq:
  assumes "distinct (map ub_key (wd_balances db))" "b \<in> set (wd_balances db)" "ub_key b = (t, u)"
  shows "find_balance t u db = Some b"
proof -
  obtain b' where b': "find_balance t u db = Some b'"
    using assms(2,3) by (cases "find_balance t u db") (auto simp: find_balance_def find_None_iff)
  have "inj_on ub_key (set (wd_balances db))" using assms(1) by (simp add: distinct_map)
  then have "b' = b" using find_balance_Some [OF b'] assms(2,3) by (auto dest: inj_onD)
  with b' show ?thesis by simp
qed

lemma find_reservation_Some:
  "find_reservation i db = Some r \<Longrightarrow> r \<in> set (wd_reservations db) \<and> br_request_id r = i"
  by (auto simp: find_reservation_def dest: find_Some_mem)

lemma checked_balance_Inr: "checked_balance b = Inr b' \<longleftrightarrow> b' = b \<and> balance_fits b \<and> balance_checks b"
  by (auto simp: checked_balance_def)

lemma update_balance_Inr:
  assumes "update_balance t u f db = Inr (r, db')" "find_balance t u db = Some b"
  shows "r = Some (f b) \<and> balance_fits (f b) \<and> balance_checks (f b)
     \<and> db' = db\<lparr>wd_balances := map (\<lambda>x. if ub_key x = (t, u) then f b else x) (wd_balances db)\<rparr>"
  using assms by (auto simp: update_balance_def and_then_Inr_iff checked_balance_Inr)

lemma update_reservations_Inr:
  assumes "update_reservations w f db = Inr (rs, db')"
  shows "rs = map f (filter w (wd_reservations db))"
    "db' = db\<lparr>wd_reservations := map (\<lambda>r. if w r then f r else r) (wd_reservations db),
            wd_events := wd_events db @ map (\<lambda>r. (reservation_event_type_of r (f r), f r)) (filter w (wd_reservations db))\<rparr>"
    "\<forall>r \<in> set (wd_reservations db). w r \<longrightarrow> reservation_checks (f r) \<and> money_ok (br_amount (f r))"
    "distinct (List.map_filter br_usage_log_id (map (\<lambda>r. if w r then f r else r) (wd_reservations db)))"
  using assms by (auto simp: update_reservations_def Let_def list_all_iff split: if_splits)

lemma create_internal_Inr:
  assumes "create_internal i t u order_id usage_log_id typ amount before after description db = Inr (x, db')"
  shows "x = \<lparr>bt_id = i, bt_tenant_id = t, bt_user_id = u, bt_order_id = order_id, bt_usage_log_id = usage_log_id,
               bt_type = typ, bt_amount = amount, bt_before = before, bt_after = after, bt_description = description\<rparr>"
    "db' = db\<lparr>wd_transactions := wd_transactions db @ [x]\<rparr>"
    "typ = Consume \<Longrightarrow> usage_log_id \<noteq> None \<Longrightarrow> (\<forall>y \<in> set (wd_transactions db). consumption_log y \<noteq> usage_log_id)"
proof -
  let ?x = "\<lparr>bt_id = i, bt_tenant_id = t, bt_user_id = u, bt_order_id = order_id, bt_usage_log_id = usage_log_id,
               bt_type = typ, bt_amount = amount, bt_before = before, bt_after = after, bt_description = description\<rparr>"
  have *: "?x = x \<and> db\<lparr>wd_transactions := wd_transactions db @ [?x]\<rparr> = db'"
    using assms unfolding create_internal_def Let_def by (auto split: if_splits)
  then show "x = ?x" by simp
  with * show "db' = db\<lparr>wd_transactions := wd_transactions db @ [x]\<rparr>" by simp
  show "typ = Consume \<Longrightarrow> usage_log_id \<noteq> None \<Longrightarrow> (\<forall>y \<in> set (wd_transactions db). consumption_log y \<noteq> usage_log_id)"
    using assms unfolding create_internal_def Let_def
    by (simp add: list_ex_iff consumption_log_def split: if_splits)
qed

lemma update_reservations_inv:
  assumes "update_reservations w f db = Inr (rs, db')" "reservations_inv (wd_reservations db)"
    and "\<And>r. br_request_id (f r) = br_request_id r" "\<And>r. br_id (f r) = br_id r"
  shows "reservations_inv (wd_reservations db')"
proof -
  have "map br_id (wd_reservations db') = map br_id (wd_reservations db)"
    using update_reservations_Inr(2) [OF assms(1)] assms(4) by simp
  then have "distinct (map br_id (wd_reservations db'))" using assms(2) by (simp only: reservations_inv_def)
  moreover have "map br_request_id (wd_reservations db') = map br_request_id (wd_reservations db)"
    using update_reservations_Inr(2) [OF assms(1)] assms(3) by simp
  moreover from this have "distinct (map br_request_id (wd_reservations db'))" using assms(2) by (simp only: reservations_inv_def)
  moreover have "\<forall>r \<in> set (wd_reservations db'). reservation_checks r \<and> money_ok (br_amount r)"
    using update_reservations_Inr(2,3) [OF assms(1)] assms(2) by (auto simp: reservations_inv_def)
  moreover have "distinct (List.map_filter br_usage_log_id (wd_reservations db'))"
    using update_reservations_Inr(2,4) [OF assms(1)] by simp
  ultimately show ?thesis by (simp only: reservations_inv_def)
qed

lemma insert_reservation_Inr:
  assumes "insert_reservation r db = Inr (r', db')"
  shows "r' = r" "db' = db\<lparr>wd_reservations := wd_reservations db @ [r], wd_events := wd_events db @ [(Reserved_Event, r)]\<rparr>"
    "reservation_checks r" "money_ok (br_amount r)" "br_id r \<notin> br_id ` set (wd_reservations db)" "br_request_id r \<notin> br_request_id ` set (wd_reservations db)"
  using assms by (auto simp: insert_reservation_def split: if_splits)

lemma insert_reservation_inv:
  assumes "insert_reservation r db = Inr (r', db')" "reservations_inv (wd_reservations db)" "br_usage_log_id r = None"
  shows "reservations_inv (wd_reservations db')"
  using insert_reservation_Inr [OF assms(1)] assms(2,3)
  by (auto simp: reservations_inv_def List.map_filter_def)

lemma create_internal_inv:
  assumes "create_internal i t u order_id usage_log_id typ amount before after description db = Inr (x, db')"
    and "transactions_inv (wd_transactions db)" "after = before + amount"
  shows "transactions_inv (wd_transactions db')"
proof -
  note c = create_internal_Inr [OF assms(1)]
  have "l \<notin> set (List.map_filter consumption_log (wd_transactions db))" if "consumption_log x = Some l" for l
  proof -
    have "typ = Consume" "usage_log_id = Some l" using that c(1) by (auto simp: consumption_log_def split: if_splits)
    with c(3) show ?thesis by (auto simp: List.map_filter_def)
  qed
  then show ?thesis
    using assms(2,3) c(1,2) by (cases "consumption_log x") (simp_all add: transactions_inv_def List.map_filter_def)
qed

section \<open>Sums under changes of the tables\<close>

lemma held_sum_update_request:
  assumes "distinct (map br_request_id (wd_reservations db))" "r \<in> set (wd_reservations db)" "br_request_id r = i"
    and "wd_reservations db' = map (\<lambda>x. if br_request_id x = i then f x else x) (wd_reservations db)"
  shows "held_sum k db' = held_sum k db - (if br_key r = k \<and> br_status r = Active then br_amount r else 0)
     + (if br_key (f r) = k \<and> br_status (f r) = Active then br_amount (f r) else 0)"
  unfolding held_sum_def assms(4)
  by (rule sum_rows_update [OF assms(1-3)])

lemma ledger_sum_append:
  "ledger_sum types k (db\<lparr>wd_transactions := wd_transactions db @ [x]\<rparr>)
     = ledger_sum types k db + (if bt_key x = k \<and> bt_type x \<in> types then bt_amount x else 0)"
  by (simp add: ledger_sum_def)

lemma sums_frame [simp]:
  "ledger_sum types k (wd_balances_update f db) = ledger_sum types k db"
  "ledger_sum types k (wd_reservations_update g db) = ledger_sum types k db"
  "ledger_sum types k (wd_events_update h db) = ledger_sum types k db"
  "held_sum k (wd_balances_update f db) = held_sum k db"
  "held_sum k (wd_events_update h db) = held_sum k db"
  "held_sum k (wd_transactions_update j db) = held_sum k db"
  by (simp_all add: ledger_sum_def held_sum_def)

lemma row_off_frame [simp]:
  "row_off (wd_balances_update f db) p b = row_off db p b" "row_off (wd_events_update h db) p b = row_off db p b"
  by (simp_all add: row_off_def)

lemma row_off_cong:
  "wd_transactions db' = wd_transactions db \<Longrightarrow> held_sum (ub_key b) db' + p' = held_sum (ub_key b) db + p
     \<Longrightarrow> row_off db' p' b \<longleftrightarrow> row_off db p b"
  by (simp add: row_off_def ledger_sum_def)

section \<open>Reclamation\<close>

definition expired_sum :: "datetime \<Rightarrow> uuid \<times> uuid \<Rightarrow> wallet_db \<Rightarrow> money" where
  "expired_sum now k db =
     sum_rows (\<lambda>r. br_key r = k \<and> br_status r = Active \<and> br_expires_at r \<le> now) br_amount (wd_reservations db)"

abbreviation reclaimable :: "datetime \<Rightarrow> (uuid \<times> uuid) set \<Rightarrow> reservation \<Rightarrow> bool" where
  "reclaimable now V r \<equiv> br_key r \<in> V \<and> br_status r = Active \<and> br_expires_at r \<le> now"

lemma held_sum_expire:
  assumes "wd_reservations db' = map (\<lambda>r. if reclaimable now V r then r\<lparr>br_status := Expired\<rparr> else r) (wd_reservations db)"
  shows "held_sum k db' = held_sum k db - (if k \<in> V then expired_sum now k db else 0)"
proof -
  have "sum_rows (\<lambda>r. br_key r = k \<and> br_status r = Active) br_amount
      (map (\<lambda>r. if reclaimable now V r then r\<lparr>br_status := Expired\<rparr> else r) rows)
    = sum_rows (\<lambda>r. br_key r = k \<and> br_status r = Active) br_amount rows
      - (if k \<in> V then sum_rows (\<lambda>r. br_key r = k \<and> br_status r = Active \<and> br_expires_at r \<le> now) br_amount rows else 0)" for rows
    by (induction rows) auto
  then show ?thesis by (simp add: held_sum_def expired_sum_def assms)
qed

definition summary_amount :: "((uuid \<times> uuid) \<rightharpoonup> money \<times> nat) \<Rightarrow> uuid \<times> uuid \<Rightarrow> money" where
  "summary_amount S k = (case S k of None \<Rightarrow> 0 | Some (e, _) \<Rightarrow> e)"

lemma group_summaries:
  "map_of (map (\<lambda>(k, rs). (k, g rs)) (group_by_key rows)) k
     = (if k \<in> br_key ` set rows then Some (g (filter (\<lambda>r. br_key r = k) rows)) else None)"
proof -
  have "map (\<lambda>(k, rs). (k, g rs)) (group_by_key rows) = map (\<lambda>k. (k, g (filter (\<lambda>r. br_key r = k) rows))) (remdups (map br_key rows))"
    by (simp add: group_by_key_def)
  then show ?thesis by (simp add: map_of_map_restrict restrict_map_def)
qed

lemma sum_rows_filter: "sum_rows (\<lambda>_. True) f (filter p rows) = sum_rows p f rows"
  by (induction rows) auto

lemma sum_rows_map: "sum_rows p f (map g rows) = sum_rows (\<lambda>r. p (g r)) (\<lambda>r. f (g r)) rows"
  by (induction rows) auto

lemma summary_amount_expired:
  fixes now V db
  defines "rows \<equiv> map (\<lambda>r. r\<lparr>br_status := Expired\<rparr>) (filter (reclaimable now V) (wd_reservations db))"
  shows "summary_amount (map_of (map (\<lambda>(k, rs). (k, sum_rows (\<lambda>_. True) br_amount rs, length rs)) (group_by_key rows))) k
     = (if k \<in> V then expired_sum now k db else 0)"
proof -
  have sum: "sum_rows (\<lambda>_. True) br_amount (filter (\<lambda>r. br_key r = k) rows) = (if k \<in> V then expired_sum now k db else 0)"
  proof -
    have "sum_rows (\<lambda>r. br_key r = k) br_amount
        (map (\<lambda>r. r\<lparr>br_status := Expired\<rparr>) (filter (reclaimable now V) rs))
      = (if k \<in> V then sum_rows (\<lambda>r. br_key r = k \<and> br_status r = Active \<and> br_expires_at r \<le> now) br_amount rs else 0)" for rs
      by (induction rs) auto
    then show ?thesis by (simp add: sum_rows_filter rows_def expired_sum_def)
  qed
  have "filter (\<lambda>r. br_key r = k) rows = []" if "k \<notin> br_key ` set rows" using that by (auto simp: filter_empty_conv)
  then have "sum_rows (\<lambda>_. True) br_amount (filter (\<lambda>r. br_key r = k) rows) = 0" if "k \<notin> br_key ` set rows" using that by simp
  then show ?thesis unfolding summary_amount_def group_summaries
    by (cases "k \<in> br_key ` set rows") (use sum in simp_all)
qed

lemma rows_off_update:
  assumes "rows_off db p" "find_balance t u db = Some b" "ub_key b' = (t, u)" "row_off db (q (t, u)) b'"
    and "\<And>k. k \<noteq> (t, u) \<Longrightarrow> q k = p k"
  shows "rows_off (db\<lparr>wd_balances := map (\<lambda>x. if ub_key x = (t, u) then b' else x) (wd_balances db)\<rparr>) q"
proof -
  have "map ub_key (map (\<lambda>x. if ub_key x = (t, u) then b' else x) (wd_balances db)) = map ub_key (wd_balances db)"
    using assms(3) by simp
  moreover have "row_off db (q (ub_key x)) x" if "x \<in> set (map (\<lambda>x. if ub_key x = (t, u) then b' else x) (wd_balances db))" for x
  proof (cases "x = b'")
    case True
    with assms(3,4) show ?thesis by simp
  next
    case False
    with that have "x \<in> set (wd_balances db)" "ub_key x \<noteq> (t, u)" by auto
    with assms(1,5) show ?thesis by (auto simp: rows_off_def)
  qed
  moreover have "wd_balances (db\<lparr>wd_balances := bs\<rparr>) = bs" for bs by simp
  ultimately show ?thesis
    using assms(1) unfolding rows_off_def row_off_frame by (simp only: simp_thms Ball_def) blast
qed

lemma reclaim_balances_correct:
  assumes "reclaim_balances S bs db = Inr (bs', db')" "distinct (map ub_key bs)" "set bs \<subseteq> set (wd_balances db)"
    and "rows_off db (\<lambda>k. if k \<in> ub_key ` set bs then summary_amount S k else 0)"
  shows "rows_off db' (\<lambda>_. 0) \<and> map ub_key bs' = map ub_key bs \<and> set bs' \<subseteq> set (wd_balances db')
     \<and> map ub_key (wd_balances db') = map ub_key (wd_balances db) \<and> (\<exists>bal. db' = db\<lparr>wd_balances := bal\<rparr>)
     \<and> (\<forall>b \<in> set (wd_balances db). ub_key b \<notin> ub_key ` set bs \<longrightarrow> b \<in> set (wd_balances db'))"
  using assms
proof (induction bs arbitrary: db bs' db')
  case Nil
  then show ?case by (auto intro: exI [of _ "wd_balances db"])
next
  case (Cons b bs)
  let ?k = "ub_key b"
  let ?p = "\<lambda>k. if k \<in> ub_key ` set bs then summary_amount S k else 0"
  have k: "?k \<notin> ub_key ` set bs" using Cons.prems(2) by auto
  have d: "distinct (map ub_key bs)" using Cons.prems(2) by simp
  have sub: "set bs \<subseteq> set (wd_balances db)" "b \<in> set (wd_balances db)" using Cons.prems(3) by auto
  have keys: "distinct (map ub_key (wd_balances db))" using Cons.prems(4) by (simp add: rows_off_def)
  have off_b: "row_off db (summary_amount S ?k) b" using Cons.prems(4) sub(2) by (auto simp: rows_off_def)
  show ?case
  proof (cases "summary_amount S ?k = 0")
    case True
    then obtain bs'' where bs'': "reclaim_balances S bs db = Inr (bs'', db')" "bs' = b # bs''"
      using Cons.prems(1) by (auto simp: summary_amount_def and_then_Inr_iff split: option.splits if_splits prod.splits)
    have "(\<lambda>k. if k \<in> ub_key ` set (b # bs) then summary_amount S k else 0) = ?p" using True by auto
    then have "rows_off db ?p" using Cons.prems(4) by (simp only:)
    from Cons.IH [OF bs''(1) d sub(1) this] bs''(2) sub(2) k show ?thesis by auto
  next
    case False
    let ?f = "\<lambda>x. x\<lparr>ub_available := ub_available x + summary_amount S ?k, ub_frozen := ub_frozen x - summary_amount S ?k\<rparr>"
    have fb: "find_balance (ub_tenant_id b) (ub_user_id b) db = Some b" by (rule find_balance_eq [OF keys sub(2)]) simp
    obtain b1 db1 bs'' where u: "update_balance (ub_tenant_id b) (ub_user_id b) ?f db = Inr (Some b1, db1)"
      and r: "reclaim_balances S bs db1 = Inr (bs'', db')" "bs' = b1 # bs''"
      using Cons.prems(1) False
      by (auto simp: summary_amount_def and_then_Inr_iff split: option.splits if_splits prod.splits)
    note e = update_balance_Inr [OF u fb]
    have off: "row_off db (?p ?k) (?f b)"
      using off_b e k by (auto simp: row_off_def)
    have "rows_off db1 ?p"
      unfolding e [THEN conjunct2, THEN conjunct2, THEN conjunct2]
      by (rule rows_off_update [OF Cons.prems(4) fb]) (use e off in auto)
    moreover have keep: "b0 \<in> set (wd_balances db1)" if "b0 \<in> set (wd_balances db)" "ub_key b0 \<noteq> ?k" for b0
      using that e by auto
    have "ub_key x \<noteq> ?k" if "x \<in> set bs" for x
    proof
      assume "ub_key x = ?k"
      with imageI [OF that, of ub_key] have "?k \<in> ub_key ` set bs" by (simp only:)
      with k show False ..
    qed
    with keep have "set bs \<subseteq> set (wd_balances db1)" using sub(1) by blast
    ultimately have IH: "rows_off db' (\<lambda>_. 0) \<and> map ub_key bs'' = map ub_key bs \<and> set bs'' \<subseteq> set (wd_balances db')
       \<and> map ub_key (wd_balances db') = map ub_key (wd_balances db1) \<and> (\<exists>bal. db' = db1\<lparr>wd_balances := bal\<rparr>)
       \<and> (\<forall>b \<in> set (wd_balances db1). ub_key b \<notin> ub_key ` set bs \<longrightarrow> b \<in> set (wd_balances db'))"
      using Cons.IH [OF r(1) d] by blast
    have "map ub_key (wd_balances db1) = map ub_key (wd_balances db)" using e by simp
    moreover have "b1 \<in> set (wd_balances db1)" "ub_key b1 = ?k" using e sub(2) by auto
    moreover have "\<exists>bal. db' = db\<lparr>wd_balances := bal\<rparr>" using IH e by auto
    moreover have "b1 \<in> set (wd_balances db')" using IH calculation(2,3) k by simp
    ultimately show ?thesis using IH r(2) keep by simp
  qed
qed

section \<open>The batch\<close>

lemma reclaim_inner_cases:
  assumes "reclaim_expired_inner isolate now bs db = Inr (st, db')"
  obtains (same) "db' = db" "rs_balances st = bs"
  | (changed) V rows db1 where "set V \<subseteq> ub_key ` set bs"
      "update_reservations (reclaimable now (set V)) (\<lambda>r. r\<lparr>br_status := Expired\<rparr>) db = Inr (rows, db1)"
      "reclaim_balances (map_of (map (\<lambda>(k, rs). (k, sum_rows (\<lambda>_. True) br_amount rs, length rs)) (group_by_key rows))) bs db1
         = Inr (rs_balances st, db')"
proof (cases "bs = []")
  case True
  with assms show ?thesis by (auto simp: reclaim_expired_inner_def intro!: same)
next
  case False
  with assms consider "db' = db \<and> rs_balances st = bs"
    | q expected totals where "reclaim_valid now (filter q (map ub_key bs)) expected totals bs db = Inr (st, db')"
    unfolding reclaim_expired_inner_def Let_def by (auto split: if_splits)
  then show ?thesis
  proof cases
    case (2 q expected totals)
    let ?V = "filter q (map ub_key bs)"
    from 2 obtain rows db1 where u:
      "update_reservations (reclaimable now (set ?V)) (\<lambda>r. r\<lparr>br_status := Expired\<rparr>) db = Inr (rows, db1)"
      unfolding reclaim_valid_def by (auto elim!: and_then_InrE simp del: set_filter)
    with 2 have "reclaim_balances (map_of (map (\<lambda>(k, rs). (k, sum_rows (\<lambda>_. True) br_amount rs, length rs)) (group_by_key rows))) bs db1
         = Inr (rs_balances st, db')"
      by (auto simp: reclaim_valid_def Let_def and_then_Inr_iff simp del: set_filter split: if_splits)
    with u show ?thesis by (intro changed [of ?V]) auto
  qed (simp add: same)
qed

lemma reclaim_inner_inv:
  assumes inv: "wallet_inv db" and r: "reclaim_expired_inner isolate now bs db = Inr (st, db')"
    and bs: "distinct (map ub_key bs)" "set bs \<subseteq> set (wd_balances db)"
  shows "wallet_inv db' \<and> map ub_key (rs_balances st) = map ub_key bs \<and> set (rs_balances st) \<subseteq> set (wd_balances db')
     \<and> map ub_key (wd_balances db') = map ub_key (wd_balances db) \<and> wd_transactions db' = wd_transactions db
     \<and> wd_tenants db' = wd_tenants db \<and> wd_users db' = wd_users db \<and> wd_members db' = wd_members db"
using r
proof (cases rule: reclaim_inner_cases)
  case same
  with inv bs show ?thesis by simp
next
  case (changed V rows db1)
  let ?S = "map_of (map (\<lambda>(k, rs). (k, sum_rows (\<lambda>_. True) br_amount rs, length rs)) (group_by_key rows))"
  let ?p = "\<lambda>k. if k \<in> ub_key ` set bs then summary_amount ?S k else 0"
  note u = update_reservations_Inr [OF changed(2)]
  have S: "summary_amount ?S k = (if k \<in> set V then expired_sum now k db else 0)" for k
    unfolding u(1) by (rule summary_amount_expired)
  have p: "?p k = (if k \<in> set V then expired_sum now k db else 0)" for k using changed(1) S by auto
  have tx1: "wd_transactions db1 = wd_transactions db" "wd_balances db1 = wd_balances db"
    "wd_tenants db1 = wd_tenants db" "wd_users db1 = wd_users db" "wd_members db1 = wd_members db" using u(2) by simp_all
  have held: "held_sum k db1 = held_sum k db - (if k \<in> set V then expired_sum now k db else 0)" for k
    by (rule held_sum_expire) (simp add: u(2))
  have "rows_off db1 ?p"
    unfolding rows_off_def
  proof (intro conjI ballI)
    show "distinct (map ub_key (wd_balances db1))" using inv tx1 by (simp add: wallet_inv_def rows_off_def)
    fix b assume "b \<in> set (wd_balances db1)"
    then have "row_off db 0 b" using inv tx1 by (simp add: wallet_inv_def rows_off_def)
    moreover have "held_sum (ub_key b) db1 + ?p (ub_key b) = held_sum (ub_key b) db + 0"
      unfolding p held by simp
    ultimately show "row_off db1 (?p (ub_key b)) b" using row_off_cong [OF tx1(1)] by blast
  qed
  moreover have "set bs \<subseteq> set (wd_balances db1)" using bs(2) tx1 by simp
  ultimately have c: "rows_off db' (\<lambda>_. 0) \<and> map ub_key (rs_balances st) = map ub_key bs
     \<and> set (rs_balances st) \<subseteq> set (wd_balances db')
     \<and> map ub_key (wd_balances db') = map ub_key (wd_balances db1) \<and> (\<exists>bal. db' = db1\<lparr>wd_balances := bal\<rparr>)"
    using reclaim_balances_correct [OF changed(3) bs(1)] by blast
  then obtain bal where bal: "db' = db1\<lparr>wd_balances := bal\<rparr>" by blast
  have "set (map ub_key (wd_balances db')) = set (map ub_key (wd_balances db))" using c tx1 by simp
  then have img: "ub_key ` set (wd_balances db') = ub_key ` set (wd_balances db)" by simp
  have rows: "wd_reservations db' = map (\<lambda>r. if reclaimable now (set V) r then r\<lparr>br_status := Expired\<rparr> else r) (wd_reservations db)"
    using bal u(2) by simp
  have "reservations_inv (wd_reservations db')"
    using update_reservations_inv [OF changed(2)] inv bal by (simp add: wallet_inv_def)
  moreover have "wallets_cover db'"
    using inv img bal tx1 unfolding wallet_inv_def wallets_cover_def rows by auto
  moreover have "settled_charged db'"
    using inv bal tx1 unfolding wallet_inv_def settled_charged_def rows by auto
  ultimately show ?thesis using c bal tx1 inv by (simp add: wallet_inv_def)
qed

section \<open>One wallet\<close>

lemma group_by_key_single:
  assumes "\<And>r. r \<in> set rows \<Longrightarrow> br_key r = k"
  shows "group_by_key rows = (if rows = [] then [] else [(k, rows)])"
proof (cases "rows = []")
  case False
  have "remdups (map br_key rows) = [k]"
    using False assms
  proof (induction rows)
    case (Cons r rows)
    then show ?case by (cases "rows = []") (auto simp: image_constant_conv)
  qed simp
  moreover have "filter (\<lambda>r. br_key r = k) rows = rows" using assms by (simp add: filter_id_conv)
  ultimately show ?thesis using False by (simp add: group_by_key_def)
qed (simp add: group_by_key_def)

lemma wallet_inv_row:
  assumes "wallet_inv db" "find_balance t u db = Some b"
  shows "row_off db 0 b" "ub_tenant_id b = t" "ub_user_id b = u" "b \<in> set (wd_balances db)"
  using assms find_balance_Some [OF assms(2)] by (auto simp: wallet_inv_def rows_off_def)

lemma wallet_inv_amounts:
  assumes "wallet_inv db" "r \<in> set (wd_reservations db)"
  shows "0 \<le> br_amount r" "money_ok (br_amount r)" "reservation_checks r"
  using assms by (auto simp: wallet_inv_def reservations_inv_def reservation_checks_def)

lemma held_sum_bounds:
  assumes "wallet_inv db"
  shows "0 \<le> held_sum k db" "0 \<le> expired_sum now k db" "expired_sum now k db \<le> held_sum k db"
proof -
  have n: "\<And>r. r \<in> set (wd_reservations db) \<Longrightarrow> 0 \<le> br_amount r" using wallet_inv_amounts [OF assms] by blast
  show "0 \<le> held_sum k db" "0 \<le> expired_sum now k db"
    unfolding held_sum_def expired_sum_def by (rule sum_rows_nonneg; use n in blast)+
  have "held_sum k db = expired_sum now k db
     + sum_rows (\<lambda>r. (br_key r = k \<and> br_status r = Active) \<and> \<not> br_expires_at r \<le> now) br_amount (wd_reservations db)"
    unfolding held_sum_def expired_sum_def
    by (subst sum_rows_split [where q = "\<lambda>r. br_expires_at r \<le> now"]) (simp add: conj_assoc)
  moreover have "0 \<le> sum_rows (\<lambda>r. (br_key r = k \<and> br_status r = Active) \<and> \<not> br_expires_at r \<le> now) br_amount (wd_reservations db)"
    by (rule sum_rows_nonneg) (use n in blast)
  ultimately show "expired_sum now k db \<le> held_sum k db" by linarith
qed

lemma expire_row_checks: "reservation_checks r \<Longrightarrow> br_status r = Active \<Longrightarrow> reservation_checks (r\<lparr>br_status := Expired\<rparr>)"
  by (auto simp: reservation_checks_def)

definition expire_rows :: "datetime \<Rightarrow> uuid \<times> uuid \<Rightarrow> reservation list \<Rightarrow> reservation list" where
  "expire_rows now k rows = map (\<lambda>r. if reclaimable now {k} r then r\<lparr>br_status := Expired\<rparr> else r) rows"

lemma map_filter_expire: "List.map_filter br_usage_log_id (expire_rows now k rows) = List.map_filter br_usage_log_id rows"
  by (induction rows) (auto simp: expire_rows_def List.map_filter_simps split: option.split)

lemma update_expire:
  assumes "wallet_inv db"
  shows "\<exists>db1. update_reservations (\<lambda>r. br_key r \<in> set [k] \<and> br_status r = Active \<and> br_expires_at r \<le> now)
       (\<lambda>r. r\<lparr>br_status := Expired\<rparr>) db
     = Inr (map (\<lambda>r. r\<lparr>br_status := Expired\<rparr>) (filter (reclaimable now {k}) (wd_reservations db)), db1)"
proof -
  have "distinct (List.map_filter br_usage_log_id (expire_rows now k (wd_reservations db)))"
    using assms by (simp add: map_filter_expire wallet_inv_def reservations_inv_def)
  moreover have "reservation_checks (r\<lparr>br_status := Expired\<rparr>)" "money_ok (br_amount (r\<lparr>br_status := Expired\<rparr>))"
    if "r \<in> set (wd_reservations db)" "br_status r = Active" for r
    using wallet_inv_amounts [OF assms that(1)] that(2) by (simp_all add: expire_row_checks)
  ultimately show ?thesis
    unfolding update_reservations_def Let_def expire_rows_def by (auto simp: list_all_iff)
qed

lemma moved_row_ok:
  assumes "row_off db 0 b" "0 \<le> d" "d \<le> ub_frozen b"
  shows "balance_fits (b\<lparr>ub_available := ub_available b + d, ub_frozen := ub_frozen b - d\<rparr>)"
    "balance_checks (b\<lparr>ub_available := ub_available b + d, ub_frozen := ub_frozen b - d\<rparr>)"
  using assms by (auto simp: row_off_def balance_fits_def balance_checks_def money_ok_def)

lemma candidates_single:
  assumes "ub_key b = (t, u)"
  shows "reclaim_candidates now (map ub_user_id [b]) (map ub_tenant_id [b]) db
     = (let rows = filter (\<lambda>r. br_key r = (t, u) \<and> br_status r = Active) (wd_reservations db)
        in if rows = [] then []
           else [((t, u), held_sum (t, u) db, expired_sum now (t, u) db, length (filter (reclaimable now {(t, u)}) (wd_reservations db)))])"
proof -
  let ?rows = "filter (\<lambda>r. br_key r = (t, u) \<and> br_status r = Active) (wd_reservations db)"
  have "filter (\<lambda>r. br_user_id r \<in> set (map ub_user_id [b]) \<and> br_tenant_id r \<in> set (map ub_tenant_id [b]) \<and> br_status r = Active)
      (wd_reservations db) = ?rows"
    using assms by (intro filter_cong) auto
  moreover have "group_by_key ?rows = (if ?rows = [] then [] else [((t, u), ?rows)])"
    by (rule group_by_key_single) auto
  moreover have "sum_rows (\<lambda>_. True) br_amount ?rows = held_sum (t, u) db" by (simp add: sum_rows_filter held_sum_def)
  moreover have "sum_rows (\<lambda>r. br_expires_at r \<le> now) br_amount (filter (\<lambda>r. br_key r = (t, u) \<and> br_status r = Active) rs)
      = sum_rows (\<lambda>r. br_key r = (t, u) \<and> br_status r = Active \<and> br_expires_at r \<le> now) br_amount rs" for rs
    by (induction rs) auto
  moreover have "filter (\<lambda>r. br_expires_at r \<le> now) ?rows = filter (reclaimable now {(t, u)}) (wd_reservations db)"
    by (auto intro: filter_cong)
  ultimately show ?thesis by (simp add: reclaim_candidates_def Let_def expired_sum_def del: filter_filter)
qed

lemma no_expired_sum: "filter (reclaimable now {k}) (wd_reservations db) = [] \<Longrightarrow> expired_sum now k db = 0"
  unfolding expired_sum_def by (rule sum_rows_none) (auto simp: filter_empty_conv)

lemma no_expired_rows: "filter (reclaimable now {k}) rows = [] \<Longrightarrow> expire_rows now k rows = rows"
  unfolding expire_rows_def by (rule map_idI) (auto simp: filter_empty_conv)

lemma reclaim_balances_single:
  assumes "find_balance t u db = Some b" "ub_tenant_id b = t" "ub_user_id b = u"
    and "balance_fits (b\<lparr>ub_available := ub_available b + e, ub_frozen := ub_frozen b - e\<rparr>)"
    and "balance_checks (b\<lparr>ub_available := ub_available b + e, ub_frozen := ub_frozen b - e\<rparr>)"
  shows "\<exists>db'. reclaim_balances [(t, u) \<mapsto> (e, n)] [b] db
    = Inr ([b\<lparr>ub_available := ub_available b + e, ub_frozen := ub_frozen b - e\<rparr>], db')"
  using assms by (cases "e = 0") (simp_all add: update_balance_def checked_balance_def)

lemma reclaim_valid_single:
  assumes inv: "wallet_inv db" and fb: "find_balance t u db = Some b"
    and ex: "filter (reclaimable now {(t, u)}) (wd_reservations db) \<noteq> []"
  shows "\<exists>db'. reclaim_valid now [(t, u)] [((t, u), a, expired_sum now (t, u) db, length (filter (reclaimable now {(t, u)}) (wd_reservations db)))]
      totals [b] db
    = Inr (\<lparr>rs_balances = [b\<lparr>ub_available := ub_available b + expired_sum now (t, u) db,
                               ub_frozen := ub_frozen b - expired_sum now (t, u) db\<rparr>],
            rs_active_totals = (\<lambda>k. case totals k of None \<Rightarrow> None
               | Some c \<Rightarrow> Some (c - (if k = (t, u) then expired_sum now (t, u) db else 0))),
            rs_reclaimed = length (filter (reclaimable now {(t, u)}) (wd_reservations db))\<rparr>, db')"
proof -
  let ?P = "reclaimable now {(t, u)}" and ?E = "expired_sum now (t, u) db"
  let ?rows = "map (\<lambda>r. r\<lparr>br_status := Expired\<rparr>) (filter ?P (wd_reservations db))"
  obtain db1 where u: "update_reservations (\<lambda>r. br_key r \<in> set [(t, u)] \<and> br_status r = Active \<and> br_expires_at r \<le> now)
       (\<lambda>r. r\<lparr>br_status := Expired\<rparr>) db = Inr (?rows, db1)"
    using update_expire [OF inv, of "(t, u)" now] by blast
  have g: "group_by_key ?rows = [((t, u), ?rows)]"
    using ex by (subst group_by_key_single [where k = "(t, u)"]) auto
  have "sum_rows (\<lambda>r. True) br_amount (map (\<lambda>r. r\<lparr>br_status := Expired\<rparr>) (filter ?P rs))
      = sum_rows (\<lambda>r. br_key r = (t, u) \<and> br_status r = Active \<and> br_expires_at r \<le> now) br_amount rs" for rs
    by (induction rs) auto
  then have s: "sum_rows (\<lambda>r. True) br_amount ?rows = ?E" by (simp add: expired_sum_def)
  have "wd_balances db1 = wd_balances db" using update_reservations_Inr(2) [OF u] by simp
  then have fb1: "find_balance t u db1 = Some b" using fb by (simp add: find_balance_def)
  note row = wallet_inv_row [OF inv fb]
  have "?E \<le> ub_frozen b" using held_sum_bounds(3) [OF inv, of now "(t, u)"] row by (auto simp: row_off_def)
  note ok = moved_row_ok [OF row(1) _ this]
  obtain db' where db': "reclaim_balances [(t, u) \<mapsto> (?E, length ?rows)] [b] db1
      = Inr ([b\<lparr>ub_available := ub_available b + ?E, ub_frozen := ub_frozen b - ?E\<rparr>], db')"
    using reclaim_balances_single [OF fb1 row(2,3) ok] held_sum_bounds(2) [OF inv] by blast
  define rows where "rows = ?rows"
  define E where "E = ?E"
  define n where "n = length (filter ?P (wd_reservations db))"
  have *: "group_by_key rows = [((t, u), rows)]" "sum_rows (\<lambda>r. True) br_amount rows = E" "length rows = n"
    "reclaim_balances [(t, u) \<mapsto> (E, length rows)] [b] db1
      = Inr ([b\<lparr>ub_available := ub_available b + E, ub_frozen := ub_frozen b - E\<rparr>], db')"
    using g s db' by (simp_all only: rows_def E_def n_def length_map)
  have "reclaim_valid now [(t, u)] [((t, u), a, E, n)] totals [b] db
    = Inr (\<lparr>rs_balances = [b\<lparr>ub_available := ub_available b + E, ub_frozen := ub_frozen b - E\<rparr>],
            rs_active_totals = (\<lambda>k. case totals k of None \<Rightarrow> None | Some c \<Rightarrow> Some (c - (if k = (t, u) then E else 0))),
            rs_reclaimed = n\<rparr>, db')"
    unfolding reclaim_valid_def u rows_def [symmetric] using *
    by (simp add: Let_def unwrap_or_def fun_eq_iff del: reclaim_balances.simps split: option.split)
  then show ?thesis unfolding E_def n_def by blast
qed

lemma find_balance_map_other:
  assumes "(t', u') \<noteq> (t, u)" "ub_key b' = (t, u)"
  shows "find (\<lambda>b. ub_tenant_id b = t' \<and> ub_user_id b = u') (map (\<lambda>x. if ub_key x = (t, u) then b' else x) bs)
    = find (\<lambda>b. ub_tenant_id b = t' \<and> ub_user_id b = u') bs"
  using assms by (induction bs) auto

lemma update_balance_frame:
  assumes "update_balance t u f db = Inr (r, db')"
  shows "\<exists>bal. db' = db\<lparr>wd_balances := bal\<rparr>"
proof (cases "find_balance t u db")
  case None
  with assms have "db' = db\<lparr>wd_balances := wd_balances db\<rparr>" by (simp add: update_balance_def)
  then show ?thesis ..
next
  case (Some b)
  with update_balance_Inr [OF assms] show ?thesis by blast
qed

lemma update_balance_other:
  assumes "update_balance t u f db = Inr (r, db')" "\<And>b. ub_key (f b) = ub_key b" "(t', u') \<noteq> (t, u)"
  shows "find_balance t' u' db' = find_balance t' u' db"
proof (cases "find_balance t u db")
  case None
  with assms show ?thesis by (simp add: update_balance_def)
next
  case (Some b)
  have "ub_key (f b) = (t, u)" using assms(2) find_balance_Some [OF Some] by (metis prod.collapse)
  with update_balance_Inr [OF assms(1) Some] find_balance_map_other [OF assms(3)] show ?thesis
    by (simp add: find_balance_def)
qed

lemma update_balance_self:
  assumes "update_balance t u f db = Inr (r, db')" "find_balance t u db = Some b" "ub_key (f b) = (t, u)"
  shows "find_balance t u db' = Some (f b)"
proof -
  have "find (\<lambda>b. ub_tenant_id b = t \<and> ub_user_id b = u) (map (\<lambda>x. if ub_key x = (t, u) then f b else x) bs) = Some (f b)"
    if "find (\<lambda>b. ub_tenant_id b = t \<and> ub_user_id b = u) bs = Some b" for bs
    using that assms(3) by (induction bs) (auto split: if_splits)
  with update_balance_Inr [OF assms(1,2)] assms(2) show ?thesis by (simp add: find_balance_def)
qed

lemma reclaim_balances_frame:
  assumes "reclaim_balances S bs db = Inr (bs', db')"
  shows "(\<exists>bal. db' = db\<lparr>wd_balances := bal\<rparr>) \<and> (\<forall>t u. (t, u) \<notin> ub_key ` set bs \<longrightarrow> find_balance t u db' = find_balance t u db)"
  using assms
proof (induction bs arbitrary: db bs')
  case Nil
  then show ?case by (auto intro: exI [of _ "wd_balances db'"])
next
  case (Cons b bs)
  consider bs'' where "reclaim_balances S bs db = Inr (bs'', db')"
    | f r db1 bs'' where "update_balance (ub_tenant_id b) (ub_user_id b) f db = Inr (r, db1)" "\<And>b. ub_key (f b) = ub_key b"
        "reclaim_balances S bs db1 = Inr (bs'', db')"
    using Cons.prems by (fastforce simp: and_then_Inr_iff split: option.splits if_splits prod.splits)
  then show ?case
  proof cases
    case 1
    from Cons.IH [OF this] show ?thesis by auto
  next
    case 2
    obtain bal where "db1 = db\<lparr>wd_balances := bal\<rparr>" using update_balance_frame [OF 2(1)] by blast
    moreover have "find_balance t u db1 = find_balance t u db" if "(t, u) \<noteq> ub_key b" for t u
      by (rule update_balance_other [OF 2(1,2)]) (use that in simp)
    ultimately show ?thesis using Cons.IH [OF 2(3)] by auto
  qed
qed

lemma reclaim_valid_frame:
  assumes "reclaim_valid now [(t, u)] expected totals bs db = Inr (st, db')"
  shows "wd_reservations db' = expire_rows now (t, u) (wd_reservations db)"
    "(t', u') \<notin> ub_key ` set bs \<Longrightarrow> find_balance t' u' db' = find_balance t' u' db"
proof -
  obtain rows db1 where u: "update_reservations (\<lambda>r. br_key r \<in> set [(t, u)] \<and> br_status r = Active \<and> br_expires_at r \<le> now)
       (\<lambda>r. r\<lparr>br_status := Expired\<rparr>) db = Inr (rows, db1)"
    using assms unfolding reclaim_valid_def by (auto elim!: and_then_InrE simp del: list.set)
  then obtain S where r: "reclaim_balances S bs db1 = Inr (rs_balances st, db')"
    using assms by (auto simp: reclaim_valid_def Let_def and_then_Inr_iff simp del: list.set split: if_splits)
  note f = reclaim_balances_frame [OF r]
  have b1: "wd_reservations db1 = expire_rows now (t, u) (wd_reservations db)" "wd_balances db1 = wd_balances db"
    using update_reservations_Inr(2) [OF u] by (simp_all add: expire_rows_def)
  with f show "wd_reservations db' = expire_rows now (t, u) (wd_reservations db)" by auto
  show "(t', u') \<notin> ub_key ` set bs \<Longrightarrow> find_balance t' u' db' = find_balance t' u' db"
    using f b1(2) by (simp add: find_balance_def)
qed

text \<open>The wallet row of a wallet after the expired part of its reservations went back to it.\<close>

definition reclaimed_row :: "datetime \<Rightarrow> wallet_db \<Rightarrow> user_balance \<Rightarrow> user_balance" where
  "reclaimed_row now db b =
     (let e = expired_sum now (ub_key b) db in b\<lparr>ub_available := ub_available b + e, ub_frozen := ub_frozen b - e\<rparr>)"

lemma ub_key_reclaimed [simp]:
  "ub_tenant_id (reclaimed_row now db b) = ub_tenant_id b" "ub_user_id (reclaimed_row now db b) = ub_user_id b"
  "ub_recharged (reclaimed_row now db b) = ub_recharged b" "ub_consumed (reclaimed_row now db b) = ub_consumed b"
  by (simp_all add: reclaimed_row_def Let_def)

lemma reclaim_inner_unfold:
  assumes "reclaim_candidates now (map ub_user_id [b]) (map ub_tenant_id [b]) db = (if R then [] else [(ub_key b, h, e, n)])"
    and "0 \<le> h" "0 \<le> e" "e \<le> h" "h \<le> ub_frozen b" "R \<Longrightarrow> h = 0" "R \<Longrightarrow> n = 0"
  obtains totals where "totals (ub_key b) = Some h"
    "reclaim_expired_inner isolate now [b] db =
       (if n = 0 then Inr (\<lparr>rs_balances = [b], rs_active_totals = totals, rs_reclaimed = 0\<rparr>, db)
        else reclaim_valid now [ub_key b] [(ub_key b, h, e, n)] totals [b] db)"
proof -
  let ?totals = "\<lambda>k. case map_of (if R then [] else [(ub_key b, h)]) k of Some a \<Rightarrow> Some a
    | None \<Rightarrow> if k \<in> set (map ub_key [b]) then Some 0 else None"
  have "?totals (ub_key b) = Some h" using assms(6) by simp
  moreover have "reclaim_expired_inner isolate now [b] db =
       (if n = 0 then Inr (\<lparr>rs_balances = [b], rs_active_totals = ?totals, rs_reclaimed = 0\<rparr>, db)
        else reclaim_valid now [ub_key b] [(ub_key b, h, e, n)] ?totals [b] db)"
    unfolding reclaim_expired_inner_def Let_def assms(1) using assms(2-)
    by (cases R; cases "n = 0") (simp_all add: unwrap_or_def)
  ultimately show ?thesis by (rule that)
qed

lemma reclaim_inner_single:
  assumes inv: "wallet_inv db" and fb: "find_balance t u db = Some b"
  obtains st db' where "reclaim_expired_inner isolate now [b] db = Inr (st, db')"
    "rs_balances st = [reclaimed_row now db b]"
    "rs_active_totals st (t, u) = Some (held_sum (t, u) db - expired_sum now (t, u) db)"
    "wd_reservations db' = expire_rows now (t, u) (wd_reservations db)"
    "\<And>t' u'. (t', u') \<noteq> (t, u) \<Longrightarrow> find_balance t' u' db' = find_balance t' u' db"
proof -
  note row = wallet_inv_row [OF inv fb]
  let ?rows = "filter (\<lambda>r. br_key r = (t, u) \<and> br_status r = Active) (wd_reservations db)"
  let ?ex = "filter (reclaimable now {(t, u)}) (wd_reservations db)"
  note cand = candidates_single [of b t u now db]
  have held0: "held_sum (t, u) db = 0" if "?rows = []"
    unfolding held_sum_def by (rule sum_rows_none) (use that in \<open>auto simp: filter_empty_conv\<close>)
  have sub: "?ex = []" if "?rows = []" using that by (auto simp: filter_empty_conv)
  have frozen: "held_sum (t, u) db \<le> ub_frozen b" using row by (auto simp: row_off_def)
  have key: "ub_key b = (t, u)" using row by simp
  have c: "reclaim_candidates now (map ub_user_id [b]) (map ub_tenant_id [b]) db
      = (if ?rows = [] then [] else [(ub_key b, held_sum (t, u) db, expired_sum now (t, u) db, length ?ex)])"
    unfolding key candidates_single [OF key] Let_def by (rule refl)
  obtain totals where totals: "totals (t, u) = Some (held_sum (t, u) db)"
    and eq: "reclaim_expired_inner isolate now [b] db =
       (if length ?ex = 0 then Inr (\<lparr>rs_balances = [b], rs_active_totals = totals, rs_reclaimed = 0\<rparr>, db)
        else reclaim_valid now [(t, u)] [((t, u), held_sum (t, u) db, expired_sum now (t, u) db, length ?ex)] totals [b] db)"
    using reclaim_inner_unfold [OF c held_sum_bounds [OF inv] frozen, of isolate thesis] held0 sub
    unfolding key by (metis (no_types, lifting) length_0_conv)
  show thesis
  proof (cases "?ex = []")
    case True
    then have e0: "expired_sum now (t, u) db = 0" by (rule no_expired_sum)
    then have same: "reclaimed_row now db b = b" using row by (simp add: reclaimed_row_def Let_def)
    from True eq have "reclaim_expired_inner isolate now [b] db = Inr (\<lparr>rs_balances = [b], rs_active_totals = totals, rs_reclaimed = 0\<rparr>, db)"
      by (simp only: list.size refl if_True)
    then show thesis by (rule that) (use same totals e0 no_expired_rows [OF True] in simp_all)
  next
    case False
    then have t: "reclaim_expired_inner isolate now [b] db
        = reclaim_valid now [(t, u)] [((t, u), held_sum (t, u) db, expired_sum now (t, u) db, length ?ex)] totals [b] db"
      using eq by (simp only: length_0_conv if_False)
    obtain db' where v: "reclaim_expired_inner isolate now [b] db
      = Inr (\<lparr>rs_balances = [reclaimed_row now db b],
              rs_active_totals = (\<lambda>k. case totals k of None \<Rightarrow> None
                 | Some c \<Rightarrow> Some (c - (if k = (t, u) then expired_sum now (t, u) db else 0))),
              rs_reclaimed = length ?ex\<rparr>, db')"
      using reclaim_valid_single [OF inv fb False, of "held_sum (t, u) db" totals] row
      unfolding t by (auto simp: reclaimed_row_def Let_def)
    note f = reclaim_valid_frame [OF v [unfolded t]]
    show thesis by (rule that [OF v]) (use f totals row in auto)
  qed
qed

lemma reclaim_locked_eq:
  assumes inv: "wallet_inv db" and fb: "find_balance t u db = Some b"
  obtains db' where
    "reclaim_locked now b db = Inr ((reclaimed_row now db b, held_sum (t, u) db - expired_sum now (t, u) db), db')"
    "wallet_inv db'" "find_balance t u db' = Some (reclaimed_row now db b)"
    "wd_reservations db' = expire_rows now (t, u) (wd_reservations db)"
    "wd_transactions db' = wd_transactions db" "wd_tenants db' = wd_tenants db"
    "\<And>t' u'. (t', u') \<noteq> (t, u) \<Longrightarrow> find_balance t' u' db' = find_balance t' u' db"
proof -
  note row = wallet_inv_row [OF inv fb]
  obtain st db' where r: "reclaim_expired_inner False now [b] db = Inr (st, db')"
    and st: "rs_balances st = [reclaimed_row now db b]"
      "rs_active_totals st (t, u) = Some (held_sum (t, u) db - expired_sum now (t, u) db)"
    and d: "wd_reservations db' = expire_rows now (t, u) (wd_reservations db)"
      "\<And>t' u'. (t', u') \<noteq> (t, u) \<Longrightarrow> find_balance t' u' db' = find_balance t' u' db"
    using reclaim_inner_single [OF inv fb, of False now] by blast
  have i: "wallet_inv db' \<and> set (rs_balances st) \<subseteq> set (wd_balances db') \<and> wd_transactions db' = wd_transactions db \<and> wd_tenants db' = wd_tenants db"
    using reclaim_inner_inv [OF inv r] row(4) by simp
  have "find_balance t u db' = Some (reclaimed_row now db b)"
    by (rule find_balance_eq) (use i st row in \<open>simp_all add: wallet_inv_def rows_off_def\<close>)
  moreover have "reclaim_locked now b db = Inr ((reclaimed_row now db b, held_sum (t, u) db - expired_sum now (t, u) db), db')"
    using r st row by (simp add: reclaim_locked_def)
  ultimately show thesis using that d i by blast
qed

lemma wallet_inv_intro:
  assumes inv: "wallet_inv db" and fb: "find_balance t u db = Some b"
    and bal: "wd_balances db' = map (\<lambda>x. if ub_key x = (t, u) then b' else x) (wd_balances db)"
    and row: "ub_key b' = (t, u)" "row_off db' 0 b'"
    and other: "\<And>k. k \<noteq> (t, u) \<Longrightarrow> held_sum k db' = held_sum k db"
      "\<And>k types. k \<noteq> (t, u) \<Longrightarrow> ledger_sum types k db' = ledger_sum types k db"
    and res: "reservations_inv (wd_reservations db')"
      "\<And>r. r \<in> set (wd_reservations db') \<Longrightarrow> br_status r = Active \<Longrightarrow> br_key r = (t, u) \<or> r \<in> set (wd_reservations db)"
    and tx: "transactions_inv (wd_transactions db')"
      "\<And>x. x \<in> set (wd_transactions db') \<Longrightarrow> bt_key x = (t, u) \<or> x \<in> set (wd_transactions db)"
    and settled: "settled_charged db'"
  shows "wallet_inv db'"
proof -
  have keys: "map ub_key (wd_balances db') = map ub_key (wd_balances db)" unfolding bal using row(1) by simp
  have "row_off db' 0 x" if "x \<in> set (wd_balances db')" for x
  proof (cases "x = b'")
    case False
    from that obtain y where "y \<in> set (wd_balances db)" "x = (if ub_key y = (t, u) then b' else y)"
      unfolding bal by auto
    with False have x: "x \<in> set (wd_balances db)" "ub_key x \<noteq> (t, u)" by (auto split: if_splits)
    then have "row_off db 0 x" using inv by (simp add: wallet_inv_def rows_off_def)
    then show ?thesis unfolding row_off_def other(1) [OF x(2)] other(2) [OF x(2)] .
  qed (use row in simp)
  then have "rows_off db' (\<lambda>_. 0)" using inv keys by (simp add: wallet_inv_def rows_off_def)
  moreover have img: "ub_key ` set (wd_balances db') = ub_key ` set (wd_balances db)" using arg_cong [OF keys, of set] by simp
  moreover have "(t, u) \<in> ub_key ` set (wd_balances db)"
    using imageI [of b "set (wd_balances db)" ub_key] find_balance_Some [OF fb] by simp
  ultimately show ?thesis
    using inv res tx settled unfolding wallet_inv_def wallets_cover_def img by blast
qed

end
