(* ===== verification/Wallet_Inv.thy ===== *)
theory Wallet_Inv
  imports Wallet_Reclaim
begin

text \<open>
  Every wallet operation keeps the wallet invariant: ledger entries, holds, settlements, releases,
  movements, new wallets, reads that reclaim, and the sweep.
\<close>

section \<open>Ledger entries\<close>

text \<open>What one ledger entry does to the wallet row it belongs to.\<close>

definition apply_entry :: "transaction_type \<Rightarrow> money \<Rightarrow> user_balance \<Rightarrow> user_balance" where
  "apply_entry typ amount b =
     b\<lparr>ub_available := ub_available b + amount,
       ub_frozen := ub_frozen b - (if typ \<in> {Freeze, Unfreeze} then amount else 0),
       ub_recharged := ub_recharged b + (if typ \<in> {Recharge, Tip_Credit} then amount else 0),
       ub_consumed := ub_consumed b - (if typ = Consume then amount else 0)\<rparr>"

lemma ub_key_apply_entry [simp]:
  "ub_tenant_id (apply_entry typ amount b) = ub_tenant_id b" "ub_user_id (apply_entry typ amount b) = ub_user_id b"
  by (simp_all add: apply_entry_def)

lemma settled_charged_mono:
  assumes "settled_charged db" "set (wd_transactions db) \<subseteq> set (wd_transactions db')"
    and "\<And>r. r \<in> set (wd_reservations db') \<Longrightarrow> br_status r = Settled \<Longrightarrow> r \<in> set (wd_reservations db)"
  shows "settled_charged db'"
  using assms unfolding settled_charged_def by (meson subsetD)

lemma row_off_apply_entry:
  assumes "row_off db 0 b" "bt_key x = ub_key b" "bt_type x = typ" "bt_amount x = amount"
    and "wd_reservations db' = wd_reservations db" "wd_transactions db' = wd_transactions db @ [x]"
    and "balance_fits (apply_entry typ amount b)" "balance_checks (apply_entry typ amount b)"
    and "typ \<in> {Freeze, Unfreeze} \<Longrightarrow> frozen_sum (ub_key b) db + amount \<le> 0"
  shows "row_off db' 0 (apply_entry typ amount b)"
proof -
  have l: "ledger_sum types (ub_key b) db' = ledger_sum types (ub_key b) db + (if typ \<in> types then amount else 0)" for types
    using assms(2-4,6) by (simp add: ledger_sum_def)
  have h: "held_sum (ub_key b) db' = held_sum (ub_key b) db" using assms(5) by (simp add: held_sum_def)
  have k: "ub_key (apply_entry typ amount b) = ub_key b" by simp
  show ?thesis
    unfolding row_off_def k l h using assms(1,7-9) by (cases "typ") (simp_all add: row_off_def apply_entry_def)
qed

lemma entry_inv:
  assumes inv: "wallet_inv db" and fb: "find_balance t u db = Some b"
    and upd: "update_balance t u f db = Inr (r, db1)" and fe: "f b = apply_entry typ amount b"
    and ins: "create_internal i t u oid ul typ amount before after description db1 = Inr (x, db2)" "after = before + amount"
    and fz: "typ \<in> {Freeze, Unfreeze} \<Longrightarrow> frozen_sum (t, u) db + amount \<le> 0"
  shows "wallet_inv db2 \<and> find_balance t u db2 = Some (apply_entry typ amount b) \<and> wd_reservations db2 = wd_reservations db
     \<and> wd_transactions db2 = wd_transactions db @ [x] \<and> wd_tenants db2 = wd_tenants db"
proof -
  note row = wallet_inv_row [OF inv fb]
  note e = update_balance_Inr [OF upd fb]
  note c = create_internal_Inr [OF ins(1)]
  have db2: "wd_balances db2 = map (\<lambda>y. if ub_key y = (t, u) then apply_entry typ amount b else y) (wd_balances db)"
    "wd_reservations db2 = wd_reservations db" "wd_transactions db2 = wd_transactions db @ [x]" "wd_tenants db2 = wd_tenants db"
    using e c(2) fe by simp_all
  have x: "bt_key x = (t, u)" "bt_type x = typ" "bt_amount x = amount" using c(1) by simp_all
  have key: "ub_key b = (t, u)" using row by simp
  have off: "row_off db2 0 (apply_entry typ amount b)"
    by (rule row_off_apply_entry [OF row(1) _ x(2,3) db2(2,3)]) (use e fe x key fz in simp_all)
  have "find_balance t u db1 = Some (f b)"
    by (rule update_balance_self [OF upd fb]) (use fe key in simp)
  then have "find_balance t u db2 = Some (apply_entry typ amount b)" using c(2) fe by (simp add: find_balance_def)
  moreover have "wallet_inv db2"
  proof (rule wallet_inv_intro [OF inv fb db2(1) _ off])
    show "ub_key (apply_entry typ amount b) = (t, u)" using key by simp
    show "held_sum k db2 = held_sum k db" for k using db2(2) by (simp add: held_sum_def)
    show "ledger_sum types k db2 = ledger_sum types k db" if "k \<noteq> (t, u)" for types k
      using db2(3) that x(1) by (simp add: ledger_sum_def)
    show "reservations_inv (wd_reservations db2)" using inv db2(2) by (simp add: wallet_inv_def)
    show "br_key r = (t, u) \<or> r \<in> set (wd_reservations db)" if "r \<in> set (wd_reservations db2)" for r using that db2(2) by simp
    have "wd_transactions db1 = wd_transactions db" using e by simp
    then show "transactions_inv (wd_transactions db2)"
      using create_internal_inv [OF ins(1) _ ins(2)] inv by (simp add: wallet_inv_def)
    show "bt_key y = (t, u) \<or> y \<in> set (wd_transactions db)" if "y \<in> set (wd_transactions db2)" for y
      using that db2(3) x(1) by auto
    show "settled_charged db2"
      by (rule settled_charged_mono [of db]) (use inv db2 in \<open>auto simp: wallet_inv_def\<close>)
  qed
  ultimately show ?thesis using db2 by simp
qed

section \<open>Holds\<close>

lemma replace_same_row:
  assumes "distinct (map ub_key bs)" "b \<in> set bs" "ub_key b = k"
  shows "map (\<lambda>x. if ub_key x = k then b else x) bs = bs"
proof (rule map_idI)
  fix x assume "x \<in> set bs"
  then show "(if ub_key x = k then b else x) = x"
    using assms inj_onD [of ub_key "set bs" x b] by (auto simp: distinct_map)
qed

lemma move_to_frozen_Inr:
  assumes inv: "wallet_inv db" and fb: "find_balance t u db = Some b" and m: "move_to_frozen t u d db = Inr db'"
  defines "b' \<equiv> b\<lparr>ub_available := ub_available b - d, ub_frozen := ub_frozen b + d\<rparr>"
  shows "db' = db\<lparr>wd_balances := map (\<lambda>x. if ub_key x = (t, u) then b' else x) (wd_balances db)\<rparr>"
    "balance_fits b'" "balance_checks b'" "find_balance t u db' = Some b'"
proof -
  note row = wallet_inv_row [OF inv fb]
  have "db' = db\<lparr>wd_balances := map (\<lambda>x. if ub_key x = (t, u) then b' else x) (wd_balances db)\<rparr>
     \<and> balance_fits b' \<and> balance_checks b' \<and> find_balance t u db' = Some b'"
  proof (cases "d = 0")
    case True
    then have b': "b' = b" by (simp add: b'_def)
    have "map (\<lambda>x. if ub_key x = (t, u) then b else x) (wd_balances db) = wd_balances db"
      by (rule replace_same_row) (use inv row in \<open>auto simp: wallet_inv_def rows_off_def\<close>)
    then show ?thesis using True m row(1) fb unfolding b' by (simp add: move_to_frozen_def row_off_def)
  next
    case False
    then obtain r where r: "update_balance t u (\<lambda>x. x\<lparr>ub_available := ub_available x - d, ub_frozen := ub_frozen x + d\<rparr>) db = Inr (r, db')"
      using m by (auto simp: move_to_frozen_def and_then_Inr_iff)
    show ?thesis
      using update_balance_Inr [OF r fb] update_balance_self [OF r fb] row by (simp add: b'_def)
  qed
  then show "db' = db\<lparr>wd_balances := map (\<lambda>x. if ub_key x = (t, u) then b' else x) (wd_balances db)\<rparr>"
    "balance_fits b'" "balance_checks b'" "find_balance t u db' = Some b'" by blast+
qed

lemma hold_inv:
  assumes inv: "wallet_inv db" and fb: "find_balance t u db = Some b"
    and bal: "wd_balances db' = map (\<lambda>x. if ub_key x = (t, u) then b' else x) (wd_balances db)"
    and b': "b' = b\<lparr>ub_available := ub_available b - d, ub_frozen := ub_frozen b + d\<rparr>" "balance_fits b'" "balance_checks b'"
    and held: "held_sum (t, u) db' = held_sum (t, u) db + d" "\<And>k. k \<noteq> (t, u) \<Longrightarrow> held_sum k db' = held_sum k db"
    and res: "reservations_inv (wd_reservations db')"
      "\<And>r. r \<in> set (wd_reservations db') \<Longrightarrow> br_status r = Active \<Longrightarrow> br_key r = (t, u) \<or> r \<in> set (wd_reservations db)"
    and tx: "wd_transactions db' = wd_transactions db"
    and settled: "settled_charged db'"
  shows "wallet_inv db'"
proof (rule wallet_inv_intro [OF inv fb bal _ _ held(2) _ res _ _ settled])
  note row = wallet_inv_row [OF inv fb]
  have l: "ledger_sum types k db' = ledger_sum types k db" for types k using tx by (simp add: ledger_sum_def)
  then show "ledger_sum types k db' = ledger_sum types k db" for types k .
  show key: "ub_key b' = (t, u)" using row b'(1) by simp
  have "row_off db 0 b" by (rule row(1))
  moreover have "ub_key b = (t, u)" using row by simp
  ultimately show "row_off db' 0 b'"
    unfolding row_off_def l key held(1) using b' by simp
  show "transactions_inv (wd_transactions db')" using inv tx by (simp add: wallet_inv_def)
  show "bt_key x = (t, u) \<or> x \<in> set (wd_transactions db)" if "x \<in> set (wd_transactions db')" for x using that tx by simp
qed

lemma request_row:
  assumes "wallet_inv db" "find_reservation i db = Some r"
  shows "r \<in> set (wd_reservations db)" "br_request_id r = i" "distinct (map br_request_id (wd_reservations db))"
    "\<And>r'. r' \<in> set (wd_reservations db) \<Longrightarrow> br_request_id r' = i \<Longrightarrow> r' = r"
proof -
  show m: "r \<in> set (wd_reservations db)" "br_request_id r = i" using find_reservation_Some [OF assms(2)] by auto
  show d: "distinct (map br_request_id (wd_reservations db))" using assms(1) by (simp add: wallet_inv_def reservations_inv_def)
  show "r' = r" if "r' \<in> set (wd_reservations db)" "br_request_id r' = i" for r'
    using d m that by (auto simp: distinct_map dest: inj_onD)
qed

text \<open>A change of the row of one request of the wallet: what it does to the held sums and to the other conditions.\<close>

lemma request_update:
  assumes inv: "wallet_inv db" and fr: "find_reservation i db = Some r" and res: "wd_reservations db0 = wd_reservations db"
    and up: "update_reservations (\<lambda>x. br_request_id x = i) f db0 = Inr (rs, db')"
    and f: "\<And>x. br_request_id (f x) = br_request_id x" "\<And>x. br_id (f x) = br_id x" "\<And>x. br_key (f x) = br_key x"
  shows "held_sum k db' = held_sum k db
      + (if br_key r = k then (if br_status (f r) = Active then br_amount (f r) else 0) - (if br_status r = Active then br_amount r else 0) else 0)"
    "reservations_inv (wd_reservations db')"
    "\<And>x. x \<in> set (wd_reservations db') \<Longrightarrow> x = f r \<or> x \<in> set (wd_reservations db)"
    "f r \<in> set (wd_reservations db')" "rs = [f r]" "find_reservation i db' = Some (f r)"
    "wd_balances db' = wd_balances db0" "wd_transactions db' = wd_transactions db0" "wd_tenants db' = wd_tenants db0"
proof -
  note q = request_row [OF inv fr]
  note u = update_reservations_Inr [OF up]
  show "wd_balances db' = wd_balances db0" "wd_transactions db' = wd_transactions db0" "wd_tenants db' = wd_tenants db0"
    using u(2) by simp_all
  have rows: "wd_reservations db' = map (\<lambda>x. if br_request_id x = i then f x else x) (wd_reservations db)" using u(2) res by simp
  show "held_sum k db' = held_sum k db
      + (if br_key r = k then (if br_status (f r) = Active then br_amount (f r) else 0) - (if br_status r = Active then br_amount r else 0) else 0)"
    using held_sum_update_request [OF q(3,1,2) rows, of k] f(3) [of r] by simp
  show "reservations_inv (wd_reservations db')"
    using update_reservations_inv [OF up] inv res f(1,2) by (simp add: wallet_inv_def)
  show "x = f r \<or> x \<in> set (wd_reservations db)" if "x \<in> set (wd_reservations db')" for x
    using that q(4) unfolding rows by auto
  show "f r \<in> set (wd_reservations db')" using q(1,2) unfolding rows by force
  have "filter (\<lambda>x. br_request_id x = i) rows = [r]" if "r \<in> set rows" "distinct (map br_request_id rows)" for rows
    using that q(2) by (induction rows) (force simp: filter_empty_conv image_iff)+
  then show "rs = [f r]" using u(1) res q(1,3) by simp
  have "find (\<lambda>x. br_request_id x = i) (map (\<lambda>x. if br_request_id x = i then f x else x) rows)
      = map_option f (find (\<lambda>x. br_request_id x = i) rows)" for rows
    using f(1) by (induction rows) auto
  then show "find_reservation i db' = Some (f r)" using fr by (simp add: find_reservation_def rows)
qed

section \<open>Operations keep the invariant\<close>

lemma settled_charged_request:
  assumes "wallet_inv db" "set (wd_transactions db) \<subseteq> set (wd_transactions db')"
    and "\<And>x. x \<in> set (wd_reservations db') \<Longrightarrow> x = r' \<or> x \<in> set (wd_reservations db)"
    and "br_status r' = Settled \<Longrightarrow>
      \<exists>x \<in> set (wd_transactions db'). consumption_log x = br_usage_log_id r' \<and> bt_user_id x = br_user_id r'"
  shows "settled_charged db'"
proof -
  have "settled_charged db" using assms(1) by (simp add: wallet_inv_def)
  then show ?thesis using assms(2-4) unfolding settled_charged_def by (metis subsetD)
qed

text \<open>Taking an active reservation off the hold and giving its amount back, as both kinds of release do.\<close>

lemma release_row_inv:
  assumes inv: "wallet_inv db" and fr: "find_reservation i db = Some r" and act: "br_status r = Active"
    and fb: "find_balance (br_tenant_id r) (br_user_id r) db = Some b"
    and b': "b' = b\<lparr>ub_available := ub_available b + br_amount r, ub_frozen := ub_frozen b - br_amount r\<rparr>" "balance_fits b'" "balance_checks b'"
    and m: "db1 = db\<lparr>wd_balances := map (\<lambda>x. if ub_key x = br_key r then b' else x) (wd_balances db)\<rparr>"
    and up: "update_reservations (\<lambda>x. br_request_id x = i) f db1 = Inr (rs, db')"
    and f: "\<And>x. br_request_id (f x) = br_request_id x" "\<And>x. br_id (f x) = br_id x" "\<And>x. br_key (f x) = br_key x"
      "br_status (f r) = Released"
  shows "wallet_inv db'" "rs = [f r]" "find_reservation i db' = Some (f r)" "wd_transactions db' = wd_transactions db"
    "wd_balances db' = map (\<lambda>x. if ub_key x = br_key r then b' else x) (wd_balances db)"
proof -
  let ?t = "br_tenant_id r" and ?u = "br_user_id r" and ?d = "- br_amount r"
  have same: "wd_reservations db1 = wd_reservations db" "wd_transactions db1 = wd_transactions db" using m by simp_all
  note ru = request_update [OF inv fr same(1) up f(1-3)]
  show "rs = [f r]" "find_reservation i db' = Some (f r)" by (rule ru)+
  show tx: "wd_transactions db' = wd_transactions db" using ru(8) same(2) by simp
  show bal: "wd_balances db' = map (\<lambda>x. if ub_key x = br_key r then b' else x) (wd_balances db)" using ru(7) m by simp
  have hold: "b' = b\<lparr>ub_available := ub_available b - ?d, ub_frozen := ub_frozen b + ?d\<rparr>" using b'(1) by simp
  show "wallet_inv db'"
  proof (rule hold_inv [OF inv fb bal hold b'(2,3)])
    show "held_sum (?t, ?u) db' = held_sum (?t, ?u) db + ?d" using ru(1) act f(4) by simp
    show "held_sum k db' = held_sum k db" if "k \<noteq> (?t, ?u)" for k using ru(1) [of k] that by auto
    show "reservations_inv (wd_reservations db')" using ru(2) by simp
    show "br_key x = (?t, ?u) \<or> x \<in> set (wd_reservations db)" if "x \<in> set (wd_reservations db')" "br_status x = Active" for x
      using ru(3) [OF that(1)] f(4) that(2) by auto
    show "wd_transactions db' = wd_transactions db" by (rule tx)
    then show "settled_charged db'" by (intro settled_charged_request [OF inv _ ru(3)]) (use f(4) in auto)
  qed
qed

lemma release_in_tx_inv:
  assumes inv: "wallet_inv db" and fr: "find_reservation i db = Some r" and k: "br_key r = (t, u)"
    and ok: "release_in_tx now t u i token db = Inr (ok', db')"
  shows "wallet_inv db'"
proof (cases "br_status r = Active \<and> br_owner_token r = token")
  case False
  with ok fr have "db' = db" by (auto simp: release_in_tx_def and_then_Inr_iff)
  with inv show ?thesis by simp
next
  case True
  note q = request_row [OF inv fr]
  let ?f = "\<lambda>x. x\<lparr>br_status := Released, br_released_at := Some now, br_release_kind := Some Automatic,
     br_release_reason := Some ''dispatch aborted before settlement'', br_released_by := None\<rparr>"
  have "0 \<le> br_amount r" using wallet_inv_amounts [OF inv q(1)] by simp
  then obtain b db1 rs where "find_balance (br_tenant_id r) (br_user_id r) db = Some b"
    "move_to_frozen (br_tenant_id r) (br_user_id r) (- br_amount r) db = Inr db1"
    "update_reservations (\<lambda>x. br_request_id x = i) ?f db1 = Inr (rs, db')"
    using ok True fr k
    by (auto simp: release_in_tx_def and_then_Inr_iff move_to_frozen_def split: if_splits)
  note c = this
  note mv = move_to_frozen_Inr [OF inv c(1,2)]
  show ?thesis
    by (rule release_row_inv(1) [OF inv fr conjunct1 [OF True] c(1) refl _ _ _ c(3)]) (use mv in simp_all)
qed

section \<open>Settlement\<close>

lemma settle_rows_update:
  assumes "settle_rows now l i db = Inr db'"
  obtains rs where "update_reservations (\<lambda>r. br_request_id r = i)
    (\<lambda>r. r\<lparr>br_status := Settled, br_usage_log_id := Some l, br_settled_at := Some now\<rparr>) db = Inr (rs, db')"
  using assms by (auto simp: settle_rows_def and_then_Inr_iff)

lemma find_consumption_Some:
  "find_consumption_by_usage_log l db = Some x \<Longrightarrow> x \<in> set (wd_transactions db) \<and> consumption_log x = Some l"
  by (auto simp: find_consumption_by_usage_log_def consumption_log_def dest: find_Some_mem)

lemma settle_charged_inv:
  assumes inv: "wallet_inv db" and fr: "find_reservation i db = Some r" and act: "br_status r = Active"
    and x: "find_consumption_by_usage_log l db = Some x"
    and fb: "find_balance (br_tenant_id r) (br_user_id r) db = Some b"
    and ok: "settle_charged now r x amount l db = Inr (res, db')"
  shows "wallet_inv db' \<and> wd_transactions db' = wd_transactions db"
proof -
  note q = request_row [OF inv fr]
  let ?t = "br_tenant_id r" and ?u = "br_user_id r" and ?d = "- br_amount r"
  let ?f = "\<lambda>x. x\<lparr>br_status := Settled, br_usage_log_id := Some l, br_settled_at := Some now\<rparr>"
  let ?g = "\<lambda>y. y\<lparr>ub_available := ub_available y + br_amount r, ub_frozen := ub_frozen y - br_amount r\<rparr>"
  from ok q(2) obtain b1 db1 where u: "update_balance ?t ?u ?g db = Inr (b1, db1)" "settle_rows now l i db1 = Inr db'"
    and usr: "bt_user_id x = ?u"
    by (auto simp: settle_charged_def and_then_Inr_iff split: if_splits)
  obtain rs where up: "update_reservations (\<lambda>r. br_request_id r = i) ?f db1 = Inr (rs, db')"
    by (rule settle_rows_update [OF u(2)])
  note e = update_balance_Inr [OF u(1) fb]
  have same: "wd_reservations db1 = wd_reservations db" "wd_transactions db1 = wd_transactions db" using e by simp_all
  have f: "\<And>x. br_request_id (?f x) = br_request_id x" "\<And>x. br_id (?f x) = br_id x" "\<And>x. br_key (?f x) = br_key x" by simp_all
  note ru = request_update [OF inv fr same(1) up f]
  have tx: "wd_transactions db' = wd_transactions db" using ru(8) same(2) by simp
  have b': "?g b = b\<lparr>ub_available := ub_available b - ?d, ub_frozen := ub_frozen b + ?d\<rparr>" by simp
  have "wallet_inv db'"
  proof (rule hold_inv [OF inv fb _ b'])
    show "wd_balances db' = map (\<lambda>x. if ub_key x = (?t, ?u) then ?g b else x) (wd_balances db)" using ru(7) e by simp
    show "balance_fits (?g b)" "balance_checks (?g b)" using e by simp_all
    show "held_sum (?t, ?u) db' = held_sum (?t, ?u) db + ?d" using ru(1) act by simp
    show "held_sum k db' = held_sum k db" if "k \<noteq> (?t, ?u)" for k using ru(1) [of k] that by auto
    show "reservations_inv (wd_reservations db')" by (rule ru(2))
    show "br_key y = (?t, ?u) \<or> y \<in> set (wd_reservations db)" if "y \<in> set (wd_reservations db')" "br_status y = Active" for y
      using ru(3) [OF that(1)] by auto
    show "wd_transactions db' = wd_transactions db" by (rule tx)
    show "settled_charged db'"
      by (intro settled_charged_request [OF inv _ ru(3)]) (use find_consumption_Some [OF x] usr tx in auto)
  qed
  with tx show ?thesis by simp
qed

lemma settle_charge_inv:
  assumes inv: "wallet_inv db" and fr: "find_reservation i db = Some r" and act: "br_status r = Active"
    and fb: "find_balance (br_tenant_id r) (br_user_id r) db = Some b"
    and ok: "settle_charge now new_id r b amount l description db = Inr (res, db')"
  shows "wallet_inv db' \<and> (\<exists>x. wd_transactions db' = wd_transactions db @ [x] \<and> consumption_log x = Some l
     \<and> bt_amount x = - amount \<and> bt_key x = br_key r \<and> (\<exists>b'. res = Some (b', x)))"
proof -
  note q = request_row [OF inv fr]
  note row = wallet_inv_row [OF inv fb]
  let ?t = "br_tenant_id r" and ?u = "br_user_id r"
  let ?f = "\<lambda>x. x\<lparr>br_status := Settled, br_usage_log_id := Some l, br_settled_at := Some now\<rparr>"
  let ?g = "\<lambda>y. y\<lparr>ub_available := ub_available y + br_amount r - amount, ub_frozen := ub_frozen y - br_amount r,
      ub_consumed := ub_consumed y + amount\<rparr>"
  from ok q(2) obtain b1 db1 x db2 where u: "update_balance ?t ?u ?g db = Inr (Some b1, db1)"
    and c: "create_internal new_id ?t ?u None (Some l) Consume (- amount) (ub_available b + br_amount r)
       (ub_available b + br_amount r - amount) description db1 = Inr (x, db2)"
    and s: "settle_rows now l i db2 = Inr db'" and res: "res = Some (b1, x)"
    by (auto simp: settle_charge_def settlement_available_balances_def Let_def and_then_Inr_iff)
  obtain rs where up: "update_reservations (\<lambda>r. br_request_id r = i) ?f db2 = Inr (rs, db')"
    by (rule settle_rows_update [OF s])
  note e = update_balance_Inr [OF u fb]
  note ci = create_internal_Inr [OF c]
  have same: "wd_reservations db2 = wd_reservations db" "wd_transactions db2 = wd_transactions db @ [x]"
    "wd_balances db2 = map (\<lambda>x. if ub_key x = (?t, ?u) then ?g b else x) (wd_balances db)"
    "wd_transactions db1 = wd_transactions db"
    using e ci(2) by simp_all
  have f: "\<And>x. br_request_id (?f x) = br_request_id x" "\<And>x. br_id (?f x) = br_id x" "\<And>x. br_key (?f x) = br_key x" by simp_all
  note ru = request_update [OF inv fr same(1) up f]
  have tx: "wd_transactions db' = wd_transactions db @ [x]" using ru(8) same(2) by simp
  have xs: "bt_key x = (?t, ?u)" "bt_type x = Consume" "bt_amount x = - amount" "bt_usage_log_id x = Some l" using ci(1) by simp_all
  have l: "ledger_sum types k db' = ledger_sum types k db + (if k = (?t, ?u) \<and> Consume \<in> types then - amount else 0)" for types k
    using tx xs by (auto simp: ledger_sum_def)
  have held: "held_sum (?t, ?u) db' = held_sum (?t, ?u) db - br_amount r" using ru(1) act by simp
  have key: "ub_key (?g b) = (?t, ?u)" "ub_key b = (?t, ?u)" using row by simp_all
  have "wallet_inv db'"
  proof (rule wallet_inv_intro [OF inv fb _ key(1)])
    show "wd_balances db' = map (\<lambda>x. if ub_key x = (?t, ?u) then ?g b else x) (wd_balances db)" using ru(7) same(3) by simp
    show "row_off db' 0 (?g b)"
      unfolding row_off_def key(1) l held using row(1) [unfolded row_off_def key(2)] e by simp
    show "held_sum k db' = held_sum k db" if "k \<noteq> (?t, ?u)" for k using ru(1) [of k] that by auto
    show "ledger_sum types k db' = ledger_sum types k db" if "k \<noteq> (?t, ?u)" for types k using l that by simp
    show "reservations_inv (wd_reservations db')" by (rule ru(2))
    show "br_key y = (?t, ?u) \<or> y \<in> set (wd_reservations db)" if "y \<in> set (wd_reservations db')" "br_status y = Active" for y
      using ru(3) [OF that(1)] by auto
    show "transactions_inv (wd_transactions db')"
      using create_internal_inv [OF c] inv same tx by (simp add: wallet_inv_def)
    show "bt_key y = (?t, ?u) \<or> y \<in> set (wd_transactions db)" if "y \<in> set (wd_transactions db')" for y
      using that tx xs(1) by auto
    show "settled_charged db'"
      by (intro settled_charged_request [OF inv _ ru(3)]) (use xs tx in \<open>auto simp: consumption_log_def\<close>)
  qed
  with tx xs res show ?thesis by (auto simp: consumption_log_def)
qed

section \<open>Requests\<close>

lemma in_transaction_inv:
  assumes "wallet_inv db" "\<And>x db'. r = Inr (x, db') \<Longrightarrow> wallet_inv db'"
  shows "wallet_inv (fst (in_transaction db r))"
  using assms by (auto simp: in_transaction_def split: sum.split prod.split)

lemma settle_in_tx_cases:
  assumes "wallet_inv db" "find_reservation i db = Some r" and k: "br_key r = (t, u)"
    and ok: "settle_in_tx now new_id t u i owner amount l description db = Inr (res, db')"
  obtains (same) "db' = db"
  | (released) x where "br_status r = Active" "owner = Some (br_owner_token r)" "find_consumption_by_usage_log l db = Some x"
      "settle_charged now r x amount l db = Inr (res, db')" "wallet_inv db'" "wd_transactions db' = wd_transactions db"
  | (charged) b x where "br_status r = Active" "owner = Some (br_owner_token r)" "find_consumption_by_usage_log l db = None"
      "settle_charge now new_id r b amount l description db = Inr (res, db')" "wallet_inv db'"
      "wd_transactions db' = wd_transactions db @ [x]" "consumption_log x = Some l" "bt_amount x = - amount" "bt_key x = br_key r"
proof -
  obtain b where fb: "find_balance (br_tenant_id r) (br_user_id r) db = Some b"
    using ok k by (auto simp: settle_in_tx_def and_then_Inr_iff)
  consider "db' = db"
    | x where "br_status r = Active" "owner = Some (br_owner_token r)" "find_consumption_by_usage_log l db = Some x"
        "settle_charged now r x amount l db = Inr (res, db')"
    | "br_status r = Active" "owner = Some (br_owner_token r)" "find_consumption_by_usage_log l db = None"
        "settle_charge now new_id r b amount l description db = Inr (res, db')"
    using ok fb k assms(2)
    by (auto simp: settle_in_tx_def settle_replay_def and_then_Inr_iff split: if_splits option.splits)
  then show thesis
  proof cases
    case (2 x)
    note c = settle_charged_inv [OF assms(1,2) 2(1,3) fb 2(4)]
    show thesis by (rule released [OF 2 conjunct1 [OF c] conjunct2 [OF c]])
  next
    case 3
    note c = settle_charge_inv [OF assms(1,2) 3(1) fb 3(4)]
    from c obtain x where "wd_transactions db' = wd_transactions db @ [x]" "consumption_log x = Some l"
      "bt_amount x = - amount" "bt_key x = br_key r" by blast
    then show thesis by (rule charged [OF 3 conjunct1 [OF c]])
  qed (rule same)
qed

lemma settle_in_tx_inv:
  assumes "wallet_inv db" "find_reservation i db = Some r" "br_key r = (t, u)"
    and "settle_in_tx now new_id t u i owner amount l description db = Inr (res, db')"
  shows "wallet_inv db'"
  using assms by (cases rule: settle_in_tx_cases) (use assms(1) in simp_all)

lemma settle_inv: "wallet_inv db \<Longrightarrow> wallet_inv (fst (settle now new_id t u i owner amount l description db))"
  unfolding settle_def
  by (simp split: option.split) (blast intro: in_transaction_inv settle_in_tx_inv)

lemma balance_release_inv: "wallet_inv db \<Longrightarrow> wallet_inv (fst (balance_release now t u i token db))"
  unfolding balance_release_def
  by (simp split: option.split) (blast intro: in_transaction_inv release_in_tx_inv)

lemma reusable_request_cases:
  assumes "reusable_request t u i db = Inr (reusable, replaced)"
  obtains (new) "find_reservation i db = None" "reusable = None" "replaced = 0"
  | (reuse) r where "find_reservation i db = Some r" "reusable = Some r" "br_key r = (t, u)" "br_status r \<noteq> Settled"
      "\<not> is_administrative_release_tombstone (br_status r) (br_release_kind r)"
      "replaced = (if br_status r = Active then br_amount r else 0)"
proof (cases "find_reservation i db")
  case None
  with assms show thesis by (intro new) (simp_all add: reusable_request_def)
next
  case (Some r)
  with assms show thesis by (intro reuse [of r]) (auto simp: reusable_request_def split: if_splits)
qed

lemma amount_to_reserve_Inr:
  "amount_to_reserve available requested minimum = Inr amount \<longleftrightarrow>
     0 \<le> minimum \<and> 0 \<le> requested \<and> amount = max requested minimum \<and> amount \<le> available"
  by (auto simp: amount_to_reserve_def Let_def)

lemma reserve_rows_correct:
  assumes inv: "wallet_inv db" and fb: "find_balance t u db = Some b"
    and ru: "reusable_request t u i db = Inr (reusable, replaced)"
    and m: "move_to_frozen t u (amount - replaced) db = Inr db1"
    and rr: "reserve_rows now new_id t u i token expires reusable amount db1 = Inr (r, db')"
  shows "wallet_inv db'" "find_reservation i db' = Some r"
    "br_status r = Active" "br_amount r = amount" "br_owner_token r = token" "br_key r = (t, u)" "br_expires_at r = expires"
    "find_balance t u db' = Some (b\<lparr>ub_available := ub_available b - (amount - replaced), ub_frozen := ub_frozen b + (amount - replaced)\<rparr>)"
    "wd_transactions db' = wd_transactions db"
proof -
  let ?d = "amount - replaced"
  let ?b' = "b\<lparr>ub_available := ub_available b - ?d, ub_frozen := ub_frozen b + ?d\<rparr>"
  note mv = move_to_frozen_Inr [OF inv fb m]
  have same: "wd_reservations db1 = wd_reservations db" "wd_transactions db1 = wd_transactions db" using mv(1) by simp_all
  have "wallet_inv db' \<and> find_reservation i db' = Some r \<and> br_status r = Active \<and> br_amount r = amount \<and> br_owner_token r = token
    \<and> br_key r = (t, u) \<and> br_expires_at r = expires \<and> wd_balances db' = wd_balances db1 \<and> wd_transactions db' = wd_transactions db"
    using ru
  proof (cases rule: reusable_request_cases)
    case new
    note fr = new(1) and repl = new(3)
    let ?r = "\<lparr>br_id = new_id, br_request_id = i, br_owner_token = token, br_tenant_id = t,
             br_user_id = u, br_amount = amount, br_status = Active, br_usage_log_id = None,
             br_expires_at = expires, br_settled_at = None, br_released_at = None, br_release_kind = None,
             br_release_reason = None, br_released_by = None, br_created_at = now\<rparr>"
    have ins: "insert_reservation ?r db1 = Inr (r, db')" using rr new(2) by (simp add: reserve_rows_def)
    note ii = insert_reservation_Inr [OF ins]
    have rows: "wd_reservations db' = wd_reservations db @ [?r]" using ii(2) same by simp
    have rest: "wd_balances db' = wd_balances db1" "wd_transactions db' = wd_transactions db" using ii(2) same by simp_all
    have "wallet_inv db'"
    proof (rule hold_inv [OF inv fb _ refl mv(2,3)])
      show "wd_balances db' = map (\<lambda>x. if ub_key x = (t, u) then ?b' else x) (wd_balances db)" using rest mv(1) by simp
      show "held_sum (t, u) db' = held_sum (t, u) db + ?d" using rows repl by (simp add: held_sum_def)
      show "held_sum k db' = held_sum k db" if "k \<noteq> (t, u)" for k using rows that by (auto simp: held_sum_def)
      show "reservations_inv (wd_reservations db')"
        by (rule insert_reservation_inv [OF ins]) (use inv same in \<open>simp_all add: wallet_inv_def\<close>)
      show "br_key x = (t, u) \<or> x \<in> set (wd_reservations db)" if "x \<in> set (wd_reservations db')" for x using that rows by auto
      show "wd_transactions db' = wd_transactions db" by (rule rest)
      show "settled_charged db'"
        by (rule settled_charged_mono [of db]) (use inv rows rest in \<open>auto simp: wallet_inv_def\<close>)
    qed
    moreover have "find_reservation i db' = Some r"
      using fr ii(1) rows by (simp add: find_reservation_def find_append)
    ultimately show ?thesis using ii(1) rest by simp
  next
    case (reuse r0)
    note fr = reuse(1) and r0 = reuse(3,6)
    let ?f = "\<lambda>r. r\<lparr>br_owner_token := token, br_amount := amount, br_status := Active, br_usage_log_id := None,
                    br_expires_at := expires, br_settled_at := None, br_released_at := None,
                    br_release_kind := None, br_release_reason := None, br_released_by := None\<rparr>"
    obtain rs where up: "update_reservations (\<lambda>r. br_request_id r = i) ?f db1 = Inr (rs, db')"
      and rs: "r = hd rs" "rs \<noteq> []"
      using rr reuse(2) by (auto simp: reserve_rows_def and_then_Inr_iff first_row_eq split: if_splits)
    have f: "\<And>x. br_request_id (?f x) = br_request_id x" "\<And>x. br_id (?f x) = br_id x" "\<And>x. br_key (?f x) = br_key x" by simp_all
    note rq = request_update [OF inv fr same(1) up f]
    have r: "r = ?f r0" using rs rq(5) by simp
    have rest: "wd_balances db' = wd_balances db1" "wd_transactions db' = wd_transactions db" using rq(7,8) same by simp_all
    have "wallet_inv db'"
    proof (rule hold_inv [OF inv fb _ refl mv(2,3)])
      show "wd_balances db' = map (\<lambda>x. if ub_key x = (t, u) then ?b' else x) (wd_balances db)" using rest mv(1) by simp
      show "held_sum (t, u) db' = held_sum (t, u) db + ?d" using rq(1) [of "(t, u)"] r0 by simp
      show "held_sum k db' = held_sum k db" if "k \<noteq> (t, u)" for k using rq(1) [of k] that r0 by auto
      show "reservations_inv (wd_reservations db')" by (rule rq(2))
      show "br_key x = (t, u) \<or> x \<in> set (wd_reservations db)" if "x \<in> set (wd_reservations db')" for x
        using rq(3) [OF that] r0(1) by auto
      show "wd_transactions db' = wd_transactions db" by (rule rest)
      then show "settled_charged db'" by (intro settled_charged_request [OF inv _ rq(3)]) auto
    qed
    then show ?thesis using r rq(6) r0(1) rest by simp
  qed
  then show "wallet_inv db'" "find_reservation i db' = Some r" "br_status r = Active" "br_amount r = amount"
    "br_owner_token r = token" "br_key r = (t, u)" "br_expires_at r = expires" "wd_transactions db' = wd_transactions db"
    "find_balance t u db' = Some ?b'"
    using mv(4) by (auto simp: find_balance_def)
qed

lemma reserve_in_tx_correct:
  assumes inv: "wallet_inv db"
    and ok: "reserve_in_tx now new_id t u i token requested minimum expires db = Inr (r, db')"
  obtains b db1 replaced where
    "find_balance t u db = Some b" "wallet_inv db'" "find_reservation i db' = Some r"
    "br_status r = Active" "br_amount r = max requested minimum" "br_owner_token r = token" "br_key r = (t, u)" "br_expires_at r = expires"
    "0 \<le> minimum" "0 \<le> requested" "max requested minimum \<le> ub_available (reclaimed_row now db b) + replaced"
    "reclaim_locked now b db = Inr ((reclaimed_row now db b, held_sum (t, u) db - expired_sum now (t, u) db), db1)"
    "replaced = (case find_reservation i db1 of None \<Rightarrow> 0 | Some r0 \<Rightarrow> if br_status r0 = Active then br_amount r0 else 0)"
    "find_balance t u db' = Some ((reclaimed_row now db b)
       \<lparr>ub_available := ub_available (reclaimed_row now db b) - (br_amount r - replaced),
        ub_frozen := ub_frozen (reclaimed_row now db b) + (br_amount r - replaced)\<rparr>)"
    "wd_transactions db' = wd_transactions db"
proof -
  obtain b where fb: "find_balance t u db = Some b"
    using ok by (auto simp: reserve_in_tx_def and_then_Inr_iff)
  obtain db1 where rl: "reclaim_locked now b db
      = Inr ((reclaimed_row now db b, held_sum (t, u) db - expired_sum now (t, u) db), db1)"
    and inv1: "wallet_inv db1" and fb1: "find_balance t u db1 = Some (reclaimed_row now db b)"
    and tx: "wd_transactions db1 = wd_transactions db"
    using reclaim_locked_eq [OF inv fb] by metis
  obtain reusable replaced amount db2 where ru: "reusable_request t u i db1 = Inr (reusable, replaced)"
    and am: "amount_to_reserve (ub_available (reclaimed_row now db b) + replaced) requested minimum = Inr amount"
    and mv: "move_to_frozen t u (amount - replaced) db1 = Inr db2"
    and rr: "reserve_rows now new_id t u i token expires reusable amount db2 = Inr (r, db')"
    using ok fb rl by (auto simp: reserve_in_tx_def and_then_Inr_iff)
  note c = reserve_rows_correct [OF inv1 fb1 ru mv rr]
  have am': "amount = max requested minimum" "0 \<le> minimum" "0 \<le> requested"
    "amount \<le> ub_available (reclaimed_row now db b) + replaced" using am unfolding amount_to_reserve_Inr by blast+
  have repl: "replaced = (case find_reservation i db1 of None \<Rightarrow> 0 | Some r0 \<Rightarrow> if br_status r0 = Active then br_amount r0 else 0)"
    using ru by (cases rule: reusable_request_cases) simp_all
  show thesis
    by (rule that [OF fb c(1-3) _ c(5-7) am'(2,3) _ rl repl]) (use c(4,8,9) am' tx in simp_all)
qed

lemma balance_reserve_inv:
  "wallet_inv db \<Longrightarrow> wallet_inv (fst (balance_reserve app_now now new_id t u i token requested minimum expires db))"
  unfolding balance_reserve_def
  by (simp split: sum.split) (blast intro: in_transaction_inv elim: reserve_in_tx_correct)

section \<open>Movements\<close>

lemma record_movement_inv:
  assumes inv: "wallet_inv db" and fb: "find_balance t u db = Some b"
    and ok: "record_movement new_id t u ul typ amount b f description db = Inr ((b', x), db')"
    and fe: "f b = apply_entry typ amount b"
    and fz: "typ \<in> {Freeze, Unfreeze} \<Longrightarrow> frozen_sum (t, u) db + amount \<le> 0"
  shows "wallet_inv db' \<and> b' = apply_entry typ amount b \<and> find_balance t u db' = Some b' \<and> wd_reservations db' = wd_reservations db
     \<and> wd_transactions db' = wd_transactions db @ [x]"
proof -
  obtain b0 db1 where up: "update_balance t u f db = Inr (b0, db1)" and b': "b0 = Some b'"
    and ins: "create_internal new_id t u None ul typ amount (ub_available b) (ub_available b + amount) description db1 = Inr (x, db')"
    using ok by (auto simp: record_movement_def and_then_Inr_iff)
  have "b0 = Some (apply_entry typ amount b)" using update_balance_Inr [OF up fb] fe by simp
  with entry_inv [OF inv fb up fe ins refl fz] b' show ?thesis by simp
qed

lemma locked_wallet_Inr:
  assumes inv: "wallet_inv db" and ok: "locked_wallet now t u db = Inr ((b, active), db1)"
  obtains b0 where "find_balance t u db = Some b0" "b = reclaimed_row now db b0" "wallet_inv db1" "find_balance t u db1 = Some b"
    "active = held_sum (t, u) db1" "wd_transactions db1 = wd_transactions db"
proof -
  obtain b0 where fb: "find_balance t u db = Some b0" and rl: "reclaim_locked now b0 db = Inr ((b, active), db1)"
    using ok by (auto simp: locked_wallet_def and_then_Inr_iff)
  obtain db' where e: "reclaim_locked now b0 db
      = Inr ((reclaimed_row now db b0, held_sum (t, u) db - expired_sum now (t, u) db), db')"
    and inv1: "wallet_inv db'" and fb1: "find_balance t u db' = Some (reclaimed_row now db b0)"
    and rows: "wd_reservations db' = expire_rows now (t, u) (wd_reservations db)"
    and tx: "wd_transactions db' = wd_transactions db"
    using reclaim_locked_eq [OF inv fb] by metis
  have "row_off db 0 b0" "ub_key b0 = (t, u)" using wallet_inv_row [OF inv fb] by simp_all
  moreover have "row_off db' 0 (reclaimed_row now db b0)" by (rule wallet_inv_row(1) [OF inv1 fb1])
  ultimately have "held_sum (t, u) db' = held_sum (t, u) db - expired_sum now (t, u) db"
    using tx by (simp add: row_off_def reclaimed_row_def Let_def ledger_sum_def)
  with e rl fb inv1 fb1 tx show thesis by (intro that [of b0]) simp_all
qed

lemma consume_in_tx_cases:
  assumes inv: "wallet_inv db" and ok: "consume_in_tx now new_id t u amount ul description db = Inr ((b', x), db')"
  obtains (replay) l where "ul = Some l" "find_consumption_by_usage_log l db = Some x" "wallet_inv db'"
      "bt_user_id x = u" "bt_amount x = - amount" "wd_transactions db' = wd_transactions db"
  | (charged) "wallet_inv db'" "wd_transactions db' = wd_transactions db @ [x]"
proof -
  obtain b active db1 where lw: "locked_wallet now t u db = Inr ((b, active), db1)"
    using ok by (auto simp: consume_in_tx_def and_then_Inr_iff)
  obtain b0 where w: "wallet_inv db1" "find_balance t u db1 = Some b" and tx: "wd_transactions db1 = wd_transactions db"
    using locked_wallet_Inr [OF inv lw] by metis
  have fc: "find_consumption_by_usage_log l db1 = find_consumption_by_usage_log l db" for l
    using tx by (simp add: find_consumption_by_usage_log_def)
  consider l where "ul = Some l" "find_consumption_by_usage_log l db = Some x" "bt_user_id x = u" "bt_amount x = - amount" "db' = db1"
    | "record_movement new_id t u ul Consume (- amount) b
          (\<lambda>y. y\<lparr>ub_available := ub_available y - amount, ub_consumed := ub_consumed y + amount\<rparr>) description db1 = Inr ((b', x), db')"
    using ok lw fc by (auto simp: consume_in_tx_def Let_def split: option.splits if_splits)
  then show thesis
  proof cases
    case (1 l)
    then show thesis using w(1) tx by (intro replay [of l]) simp_all
  next
    case 2
    have "wallet_inv db' \<and> wd_transactions db' = wd_transactions db1 @ [x]"
      using record_movement_inv [OF w 2] by (simp add: apply_entry_def)
    then show thesis using tx by (intro charged) simp_all
  qed
qed

lemma consume_inv: "wallet_inv db \<Longrightarrow> wallet_inv (fst (consume now new_id t u amount ul description db))"
proof -
  assume inv: "wallet_inv db"
  have "wallet_inv db'" if "consume_in_tx now new_id t u amount ul description db = Inr (x, db')" for x db'
    using inv that by (cases x) (auto elim: consume_in_tx_cases)
  with inv show ?thesis by (simp add: consume_def in_transaction_inv)
qed

lemma frozen_manual:
  assumes "wallet_inv db" "find_balance t u db = Some b"
  shows "- frozen_sum (t, u) db = ub_frozen b - held_sum (t, u) db"
  using wallet_inv_row [OF assms] by (simp add: row_off_def)

lemma freeze_inv: "wallet_inv db \<Longrightarrow> wallet_inv (fst (freeze now new_id t u amount description db))"
proof -
  assume inv: "wallet_inv db"
  have "wallet_inv db'" if pos: "0 < amount" and fx: "freeze_in_tx now new_id t u amount description db = Inr (x, db')" for x db'
  proof -
    obtain b active db1 where lw: "locked_wallet now t u db = Inr ((b, active), db1)"
      and rm: "record_movement new_id t u None Freeze (- amount) b
              (\<lambda>y. y\<lparr>ub_available := ub_available y - amount, ub_frozen := ub_frozen y + amount\<rparr>) description db1 = Inr (x, db')"
      using fx by (auto simp: freeze_in_tx_def and_then_Inr_iff split: if_splits)
    obtain b0 where w: "wallet_inv db1" "find_balance t u db1 = Some b" using locked_wallet_Inr [OF inv lw] by metis
    have "frozen_sum (t, u) db1 \<le> 0" using wallet_inv_row [OF w] by (simp add: row_off_def)
    with record_movement_inv [OF w, of new_id None Freeze "- amount" _ description "fst x" "snd x" db'] rm pos
    show ?thesis by (simp add: apply_entry_def)
  qed
  with inv show ?thesis by (simp add: freeze_def in_transaction_inv)
qed

lemma unfreeze_inv: "wallet_inv db \<Longrightarrow> wallet_inv (fst (unfreeze now new_id t u amount description db))"
proof -
  assume inv: "wallet_inv db"
  let ?f = "\<lambda>y. y\<lparr>ub_available := ub_available y + amount, ub_frozen := ub_frozen y - amount\<rparr>"
  have "wallet_inv (fst (unfreeze_in_tx now new_id t u amount description db))" if pos: "0 < amount"
  proof (cases "locked_wallet now t u db")
    case (Inl e)
    with inv show ?thesis by (simp add: unfreeze_in_tx_def)
  next
    case (Inr p)
    obtain b active db1 where p: "p = ((b, active), db1)" by (metis surj_pair)
    with Inr have lw: "locked_wallet now t u db = Inr ((b, active), db1)" by simp
    obtain b0 where w: "wallet_inv db1" "find_balance t u db1 = Some b" and a: "active = held_sum (t, u) db1"
      using locked_wallet_Inr [OF inv lw] by metis
    have "wallet_inv db'" if "amount \<le> ub_frozen b - active"
      "record_movement new_id t u None Unfreeze amount b ?f description db1 = Inr (x, db')" for x db'
      using record_movement_inv [OF w, of new_id None Unfreeze amount ?f description "fst x" "snd x" db'] that frozen_manual [OF w] a
      by (simp add: apply_entry_def)
    then show ?thesis using w(1) by (auto simp: unfreeze_in_tx_def lw intro!: in_transaction_inv)
  qed
  with inv show ?thesis
    by (auto simp: unfreeze_def split: prod.split sum.split)
qed

section \<open>New wallets\<close>

lemma sums_of_no_wallet:
  assumes "wallets_cover db" "k \<notin> ub_key ` set (wd_balances db)"
  shows "held_sum k db = 0" "ledger_sum types k db = 0"
proof -
  show "held_sum k db = 0" unfolding held_sum_def
    by (rule sum_rows_none) (use assms in \<open>auto simp: wallets_cover_def\<close>)
  show "ledger_sum types k db = 0" unfolding ledger_sum_def
    by (rule sum_rows_none) (use assms in \<open>auto simp: wallets_cover_def\<close>)
qed

lemma new_wallet_inv:
  assumes inv: "wallet_inv db" and nb: "find_balance t u db = None"
  shows "wallet_inv (db\<lparr>wd_balances := wd_balances db @ [new_balance t u]\<rparr>)" (is "wallet_inv ?db'")
    "find_balance t u (db\<lparr>wd_balances := wd_balances db @ [new_balance t u]\<rparr>) = Some (new_balance t u)"
proof -
  have k: "(t, u) \<notin> ub_key ` set (wd_balances db)" using nb by (auto simp: find_balance_def find_None_iff)
  have cov: "wallets_cover db" using inv by (simp add: wallet_inv_def)
  have sums: "held_sum k' ?db' = held_sum k' db" "ledger_sum types k' ?db' = ledger_sum types k' db" for k' types
    by (simp_all add: held_sum_def ledger_sum_def)
  have key: "ub_tenant_id (new_balance t u) = t" "ub_user_id (new_balance t u) = u" by (simp_all add: new_balance_def)
  have new: "row_off ?db' 0 (new_balance t u)"
    unfolding row_off_def key sums sums_of_no_wallet [OF cov k]
    by (simp add: new_balance_def balance_fits_def balance_checks_def money_ok_def)
  have old: "row_off ?db' 0 b" if "row_off db 0 b" for b using that unfolding row_off_def sums .
  have "distinct (map ub_key (wd_balances ?db'))" using inv k key by (simp add: wallet_inv_def rows_off_def image_iff)
  then have "rows_off ?db' (\<lambda>_. 0)" using inv new old by (auto simp: wallet_inv_def rows_off_def)
  moreover have "wallets_cover ?db'" using cov by (auto simp: wallets_cover_def)
  moreover have "settled_charged ?db'" using inv by (simp add: wallet_inv_def settled_charged_def)
  ultimately show "wallet_inv ?db'" using inv by (simp add: wallet_inv_def)
  show "find_balance t u ?db' = Some (new_balance t u)" using nb by (simp add: find_balance_def find_append key)
qed

lemma insert_new_balance_Inr:
  "insert_balance (new_balance t u) db = Inr (new_balance t u, db\<lparr>wd_balances := wd_balances db @ [new_balance t u]\<rparr>)"
  by (simp add: insert_balance_def checked_balance_def new_balance_def balance_fits_def balance_checks_def money_ok_def)

lemma wallet_get_or_create_inv: "wallet_inv db \<Longrightarrow> wallet_inv (fst (get_or_create t u db))"
  unfolding get_or_create_def
  by (rule in_transaction_inv) (auto simp: and_then_Inr_iff insert_new_balance_Inr new_wallet_inv split: option.splits)

lemma recharge_in_tx_inv:
  assumes inv: "wallet_inv db" and ok: "recharge_in_tx new_id t u amount order_id description db = Inr (x, db')"
  shows "wallet_inv db'"
proof -
  obtain b db1 b' db2 y where start: "(case find_balance t u db of
          Some b \<Rightarrow> Inr (b, db)
        | None \<Rightarrow> if has_membership t u (wd_members db) then insert_balance (new_balance t u) db else Inl Wallet_Foreign_Key) = Inr (b, db1)"
    and up: "update_balance t u (\<lambda>y. y\<lparr>ub_available := ub_available y + amount, ub_recharged := ub_recharged y + amount\<rparr>) db1 = Inr (b', db2)"
    and ins: "create_internal new_id t u order_id None Recharge amount (ub_available b) (ub_available b + amount) description db2 = Inr (y, db')"
    using ok by (auto simp: recharge_in_tx_def and_then_Inr_iff)
  have "wallet_inv db1 \<and> find_balance t u db1 = Some b"
    using start inv new_wallet_inv [OF inv] by (auto simp: insert_new_balance_Inr split: option.splits if_splits)
  then show ?thesis using entry_inv [OF _ _ up _ ins refl] by (simp add: apply_entry_def)
qed

lemma recharge_inv: "wallet_inv db \<Longrightarrow> wallet_inv (fst (recharge new_id t u amount order_id description db))"
  unfolding recharge_def by (simp) (blast intro: in_transaction_inv recharge_in_tx_inv)

lemma credit_tips_inv:
  assumes inv: "wallet_inv db" and ok: "credit_tips new_id u t amount description db = Inr (x, db')"
  shows "wallet_inv db'"
proof -
  let ?f = "\<lambda>y. y\<lparr>ub_available := ub_available y + amount, ub_recharged := ub_recharged y + amount\<rparr>"
  let ?new = "db\<lparr>wd_balances := wd_balances db @ [new_balance t u]\<rparr>"
  obtain b db1 y where row: "(case find_balance t u db of
          None \<Rightarrow> insert_balance ((new_balance t u)\<lparr>ub_available := amount, ub_recharged := amount\<rparr>) db
        | Some _ \<Rightarrow> and_then (update_balance t u ?f db)
            (\<lambda>(b', db1). and_then (ok_or b' (Wallet_Other ''credit_tips upsert failed'')) (\<lambda>b''. Inr (b'', db1)))) = Inr (b, db1)"
    and ins: "create_internal new_id t u None None Tip_Credit amount (ub_available b - amount) (ub_available b) description db1 = Inr (y, db')"
    using ok by (auto simp: credit_tips_def and_then_Inr_iff)
  have "\<exists>db0 b0. wallet_inv db0 \<and> find_balance t u db0 = Some b0 \<and> update_balance t u ?f db0 = Inr (Some b, db1)"
  proof (cases "find_balance t u db")
    case None
    let ?b = "(new_balance t u)\<lparr>ub_available := amount, ub_recharged := amount\<rparr>"
    have c: "balance_fits ?b" "balance_checks ?b" "b = ?b" "db1 = db\<lparr>wd_balances := wd_balances db @ [?b]\<rparr>"
      using row None by (auto simp: insert_balance_def and_then_Inr_iff checked_balance_Inr)
    have old: "map (\<lambda>x. if ub_key x = (t, u) then ?b else x) (wd_balances db) = wd_balances db"
      using None by (intro map_idI) (auto simp: find_balance_def find_None_iff)
    have fe: "?f (new_balance t u) = ?b" by (simp add: new_balance_def)
    have "update_balance t u ?f ?new = Inr (Some ?b, db1)"
      using new_wallet_inv(2) [OF inv None] c old fe
      by (simp add: update_balance_def checked_balance_def) (simp add: new_balance_def)
    then show ?thesis using new_wallet_inv [OF inv None] c(3) by blast
  next
    case (Some b0)
    with row inv show ?thesis by (auto simp: and_then_Inr_iff)
  qed
  then obtain db0 b0 where *: "wallet_inv db0" "find_balance t u db0 = Some b0" "update_balance t u ?f db0 = Inr (Some b, db1)" by blast
  show ?thesis using entry_inv [OF * _ ins] by (simp add: apply_entry_def)
qed

section \<open>Reads and the sweep\<close>

lemma reclaim_locked_inv:
  assumes "wallet_inv db" "find_balance t u db = Some b" "reclaim_locked now b db = Inr (x, db')"
  shows "wallet_inv db'"
  using reclaim_locked_eq [OF assms(1,2), of now thesis] assms(3) by (metis Inr_inject prod.inject reclaim_locked_eq [OF assms(1,2)])

lemma find_by_user_inv: "wallet_inv db \<Longrightarrow> wallet_inv (fst (find_by_user_reclaiming_expired now t u db))"
  unfolding find_by_user_reclaiming_expired_def
  by (auto split: option.split simp: and_then_Inr_iff intro!: in_transaction_inv intro: reclaim_locked_inv)

lemma find_breakdown_inv: "wallet_inv db \<Longrightarrow> wallet_inv (fst (find_breakdown_by_user now t u db))"
  unfolding find_breakdown_by_user_def
  by (auto split: option.split simp: and_then_Inr_iff intro!: in_transaction_inv intro: reclaim_locked_inv)

lemma find_breakdown_page_inv: "wallet_inv db \<Longrightarrow> wallet_inv (fst (find_breakdown_page_by_user now t u cursor limit db))"
  unfolding find_breakdown_page_by_user_def
  by (auto split: option.split sum.split simp: and_then_Inr_iff case_prod_unfold Let_def intro!: in_transaction_inv intro: reclaim_locked_inv)

lemma wallet_inv_distinct: "wallet_inv db \<Longrightarrow> distinct (map ub_key (wd_balances db))"
  by (simp add: wallet_inv_def rows_off_def)

lemma find_by_users_inv:
  assumes inv: "wallet_inv db"
  shows "wallet_inv (fst (find_by_users_reclaiming_expired now t users db))"
proof -
  define rows where "rows = sort_key ub_user_id (filter (\<lambda>b. ub_tenant_id b = t \<and> ub_user_id b \<in> set users) (wd_balances db))"
  have "distinct (map ub_key rows)" "set rows \<subseteq> set (wd_balances db)"
    unfolding rows_def by (intro distinct_sort_filter wallet_inv_distinct inv) auto
  then have "wallet_inv db'" if "reclaim_expired_inner False now rows db = Inr (st, db')" for st db'
    using reclaim_inner_inv [OF inv that] by blast
  then show ?thesis
    unfolding find_by_users_reclaiming_expired_def rows_def [symmetric]
    using inv by (auto simp: and_then_Inr_iff intro!: in_transaction_inv)
qed

lemma sweep_rows_ok:
  assumes "wallet_inv db"
  shows "distinct (map ub_key (sweep_rows now locked n db))" "set (sweep_rows now locked n db) \<subseteq> set (wd_balances db)"
proof -
  show "distinct (map ub_key (sweep_rows now locked n db))"
    unfolding sweep_rows_def take_map [symmetric] by (intro distinct_take distinct_map_filter distinct_sort_filter wallet_inv_distinct assms)
  show "set (sweep_rows now locked n db) \<subseteq> set (wd_balances db)"
    unfolding sweep_rows_def by (auto dest!: in_set_takeD)
qed

lemma reclaim_expired_inv:
  assumes inv: "wallet_inv db"
  shows "wallet_inv (fst (reclaim_expired now locked n db))"
proof -
  have "wallet_inv db'" if "reclaim_expired_inner True now (sweep_rows now locked n db) db = Inr (st, db')" for st db'
    using reclaim_inner_inv [OF inv that sweep_rows_ok [OF inv]] by blast
  with inv show ?thesis by (auto simp: reclaim_expired_def and_then_Inr_iff intro!: in_transaction_inv)
qed

end
