(* ===== verification/Wallet_Admin.thy ===== *)
theory Wallet_Admin
  imports Wallet_Inv
begin

text \<open>
  Administrative recovery of a reservation on the wallet tables
  (\<open>crates/keycompute-db/src/models/user_balance_reservation_admin.rs\<close>): a platform administrator may release any
  active reservation, a tenant administrator only an expired one, and a released reservation stays a tombstone
  that no later reservation revives. The check of the actor between the locks is the argument \<open>actor_check\<close>;
  text is ASCII.
\<close>

section \<open>Text\<close>

definition is_whitespace :: "char \<Rightarrow> bool" where
  "is_whitespace c \<longleftrightarrow> of_char c \<in> {9, 10, 11, 12, 13, 32 :: nat}"

definition is_control :: "char \<Rightarrow> bool" where
  "is_control c \<longleftrightarrow> (of_char c :: nat) < 32 \<or> of_char c = (127 :: nat)"

definition trim :: "string \<Rightarrow> string" where
  "trim s = rev (dropWhile is_whitespace (rev (dropWhile is_whitespace s)))"

section \<open>Recovery\<close>

definition find_recovery_target :: "uuid \<Rightarrow> uuid \<Rightarrow> uuid \<Rightarrow> wallet_db \<Rightarrow> reservation option" where
  "find_recovery_target t u request_id db =
     find (\<lambda>r. br_tenant_id r = t \<and> br_user_id r = u \<and> br_request_id r = request_id) (wd_reservations db)"

record release_command =
  rc_user_id :: uuid
  rc_request_id :: uuid
  rc_expected_owner_token :: uuid
  rc_reason :: string

definition release_recovery ::
  "datetime \<Rightarrow> datetime \<Rightarrow> uuid \<Rightarrow> uuid \<Rightarrow> bool \<Rightarrow> unit wallet_result \<Rightarrow> release_command \<Rightarrow> wallet_db
     \<Rightarrow> ((balance_breakdown \<times> reservation) option \<times> wallet_db) wallet_result" where
  "release_recovery app_now now t released_by tenant_admin actor_check cmd db =
     (let u = rc_user_id cmd; i = rc_request_id cmd; reason = trim (rc_reason cmd)
      in if find_recovery_target t u i db = None then Inr (None, db)
         else
           and_then (ok_or (find_balance t u db) (Wallet_Not_Found ''UserBalance'' u)) (\<lambda>b.
           and_then (ok_or (find_recovery_target t u i db) (Wallet_Not_Found ''Balance reservation'' i)) (\<lambda>r.
           and_then actor_check (\<lambda>_.
             if br_owner_token r \<noteq> rc_expected_owner_token cmd then Inr (None, db)
             else if br_status r \<noteq> Active then
               (if is_administrative_release_tombstone (br_status r) (br_release_kind r)
                   \<and> br_released_by r = Some released_by \<and> br_release_reason r = Some reason
                then and_then (breakdown_for_locked_balance b db) (\<lambda>d. Inr (Some (d, r), db))
                else Inr (None, db))
             else if tenant_admin \<and> app_now < br_expires_at r then Inr (None, db)
             else if ub_frozen b < br_amount r then Inl (Wallet_Other ''financial_reservation_inconsistent'')
             else
               and_then (update_balance t u
                   (\<lambda>y. y\<lparr>ub_available := ub_available y + br_amount r, ub_frozen := ub_frozen y - br_amount r\<rparr>) db) (\<lambda>(b', db1).
               and_then (ok_or b' (Wallet_Not_Found ''UserBalance'' u)) (\<lambda>b''.
               and_then (update_reservations
                   (\<lambda>x. br_tenant_id x = t \<and> br_user_id x = u \<and> br_request_id x = i
                        \<and> br_owner_token x = rc_expected_owner_token cmd \<and> br_status x = Active)
                   (\<lambda>x. x\<lparr>br_status := Released, br_released_at := Some now, br_release_kind := Some Administrative,
                         br_release_reason := Some reason, br_released_by := Some released_by\<rparr>) db1) (\<lambda>(rows, db2).
               and_then (ok_or (case rows of [] \<Rightarrow> None | x # _ \<Rightarrow> Some x) (Wallet_Other ''financial_reservation_changed'')) (\<lambda>released.
               and_then (breakdown_for_locked_balance b'' db2) (\<lambda>d. Inr (Some (d, released), db2))))))))))"

section \<open>Recovery keeps the wallet invariant\<close>

lemma find_recovery_target_mem:
  assumes "find_recovery_target t u i db = Some r"
  shows "r \<in> set (wd_reservations db)" "br_tenant_id r = t" "br_user_id r = u" "br_request_id r = i"
  using assms unfolding find_recovery_target_def find_Some_iff by (metis nth_mem)+

lemma find_recovery_target_Some:
  assumes "wallet_inv db" "find_recovery_target t u i db = Some r"
  shows "find_reservation i db = Some r"
proof -
  note r = find_recovery_target_mem [OF assms(2)]
  have "find_reservation i db \<noteq> None" unfolding find_reservation_def find_None_iff using r(1,4) by blast
  then obtain r' where r': "find_reservation i db = Some r'" by blast
  have "r = r'" by (rule request_row(4) [OF assms(1) r' r(1,4)])
  with r' show ?thesis by simp
qed

lemma update_reservations_cong:
  assumes "\<And>x. x \<in> set (wd_reservations db) \<Longrightarrow> w x = w' x"
  shows "update_reservations w f db = update_reservations w' f db"
proof -
  have "filter w (wd_reservations db) = filter w' (wd_reservations db)"
    "map (\<lambda>r. if w r then f r else r) (wd_reservations db) = map (\<lambda>r. if w' r then f r else r) (wd_reservations db)"
    using assms by (auto intro: filter_cong)
  then show ?thesis unfolding update_reservations_def by (simp only:)
qed

lemma release_recovery_cases:
  assumes inv: "wallet_inv db"
    and ok: "release_recovery app_now now t by tenant_admin chk cmd db = Inr (res, db')"
  obtains (same) "db' = db"
  | (released) r d b where "find_reservation (rc_request_id cmd) db = Some r" "br_key r = (t, rc_user_id cmd)" "br_status r = Active"
      "br_owner_token r = rc_expected_owner_token cmd" "tenant_admin \<Longrightarrow> br_expires_at r \<le> app_now" "chk = Inr ()"
      "find_balance t (rc_user_id cmd) db = Some b" "wallet_inv db'" "wd_transactions db' = wd_transactions db"
      "res = Some (d, r\<lparr>br_status := Released, br_released_at := Some now, br_release_kind := Some Administrative,
         br_release_reason := Some (trim (rc_reason cmd)), br_released_by := Some by\<rparr>)"
      "find_reservation (rc_request_id cmd) db' = Some (r\<lparr>br_status := Released, br_released_at := Some now,
         br_release_kind := Some Administrative, br_release_reason := Some (trim (rc_reason cmd)), br_released_by := Some by\<rparr>)"
      "bb_balance d = b\<lparr>ub_available := ub_available b + br_amount r, ub_frozen := ub_frozen b - br_amount r\<rparr>"
proof (cases "db' = db")
  case True
  then show thesis by (rule same)
next
  case False
  let ?u = "rc_user_id cmd" and ?i = "rc_request_id cmd"
  let ?f = "\<lambda>x. x\<lparr>br_status := Released, br_released_at := Some now, br_release_kind := Some Administrative,
     br_release_reason := Some (trim (rc_reason cmd)), br_released_by := Some by\<rparr>"
  let ?w = "\<lambda>x. br_tenant_id x = t \<and> br_user_id x = ?u \<and> br_request_id x = ?i
     \<and> br_owner_token x = rc_expected_owner_token cmd \<and> br_status x = Active"
  obtain b r b'' db1 rows d where fb: "find_balance t ?u db = Some b" and fr: "find_recovery_target t ?u ?i db = Some r"
    and g: "chk = Inr ()" "br_owner_token r = rc_expected_owner_token cmd" "br_status r = Active" "tenant_admin \<Longrightarrow> br_expires_at r \<le> app_now"
    and up: "update_balance t ?u (\<lambda>y. y\<lparr>ub_available := ub_available y + br_amount r, ub_frozen := ub_frozen y - br_amount r\<rparr>) db
       = Inr (Some b'', db1)"
    and ur: "update_reservations ?w ?f db1 = Inr (rows, db')" "rows \<noteq> []"
    and d: "breakdown_for_locked_balance b'' db' = Inr d" and res: "res = Some (d, hd rows)"
    using ok False
    by (auto simp: release_recovery_def Let_def and_then_Inr_iff first_row_eq split: if_splits)
  note rm = find_recovery_target_mem [OF fr]
  note fs = find_recovery_target_Some [OF inv fr]
  note q = request_row [OF inv fs]
  note u = update_balance_Inr [OF up fb]
  have res1: "wd_reservations db1 = wd_reservations db" using u by simp
  have "?w x \<longleftrightarrow> br_request_id x = ?i" if "x \<in> set (wd_reservations db1)" for x
    using q(4) [of x] that [unfolded res1] rm(2,3) g(2,3) by blast
  then have up': "update_reservations (\<lambda>x. br_request_id x = ?i) ?f db1 = Inr (rows, db')"
    using ur(1) update_reservations_cong [of db1 ?w "\<lambda>x. br_request_id x = ?i" ?f] by simp
  have fb': "find_balance (br_tenant_id r) (br_user_id r) db = Some b" using fb rm(2,3) by simp
  have u': "balance_fits b''" "balance_checks b''"
    "b'' = b\<lparr>ub_available := ub_available b + br_amount r, ub_frozen := ub_frozen b - br_amount r\<rparr>"
    "db1 = db\<lparr>wd_balances := map (\<lambda>x. if ub_key x = br_key r then b'' else x) (wd_balances db)\<rparr>" using u rm(2,3) by simp_all
  have f: "\<And>x. br_request_id (?f x) = br_request_id x" "\<And>x. br_id (?f x) = br_id x" "\<And>x. br_key (?f x) = br_key x"
    "br_status (?f r) = Released" by simp_all
  note ri = release_row_inv [OF inv fs g(3) fb' u'(3,1,2,4) up' f]
  have "bb_balance d = b''" using d by (auto simp: breakdown_for_locked_balance_def breakdown_with_active_total_def split: if_splits)
  with u'(3) ri(2,3) res rm(2,3) show thesis
    by (intro released [OF fs _ g(3,2,4,1) fb ri(1,4)]) simp_all
qed

lemma release_recovery_inv:
  assumes "wallet_inv db" "release_recovery app_now now t by tenant_admin chk cmd db = Inr (res, db')"
  shows "wallet_inv db'"
  using assms by (cases rule: release_recovery_cases) (use assms(1) in simp_all)

end
