(* ===== verification/Wallet_Correct.thy ===== *)
theory Wallet_Correct
  imports Wallet_Admin
begin

text \<open>
  What the wallet promises over any sequence of committed transactions, from empty tables: the rows
  reconcile with the ledger, a usage log is charged once, a reservation is covered by the funds it
  froze and guarded by its owner token, reads give expired reservations back, and the keyset pages
  enumerate the active reservations. Two theorems show what the background sweep does to users with
  wallets in several tenants.
\<close>

section \<open>Sequences of operations\<close>

text \<open>
  One committed transaction of any caller. Tenants, users and memberships change outside the wallet;
  \<open>credit_tips\<close> runs in the transaction of its caller. \<open>settle_located\<close> and \<open>release_located\<close> are the
  transactions of callers that looked the request up earlier, before other steps.
\<close>

inductive wallet_step :: "wallet_db \<Rightarrow> wallet_db \<Rightarrow> bool" where
  directory: "memberships_ok members \<Longrightarrow> wallet_step db (db\<lparr>wd_tenants := tenants, wd_users := users, wd_members := members\<rparr>)"
| get_or_create: "wallet_step db (fst (get_or_create t u db))"
| recharge: "wallet_step db (fst (recharge new_id t u amount order_id description db))"
| credit_tips: "wallet_step db (fst (in_transaction db (credit_tips new_id u t amount description db)))"
| consume: "wallet_step db (fst (consume now new_id t u amount usage_log_id description db))"
| freeze: "wallet_step db (fst (freeze now new_id t u amount description db))"
| unfreeze: "wallet_step db (fst (unfreeze now new_id t u amount description db))"
| reserve: "wallet_step db (fst (balance_reserve app_now now new_id t u request_id token requested minimum expires db))"
| settle: "wallet_step db (fst (settle now new_id t u request_id owner amount usage_log_id description db))"
| settle_located: "find_reservation request_id db = Some r \<Longrightarrow> br_key r = (t, u) \<Longrightarrow>
    wallet_step db (fst (in_transaction db (settle_in_tx now new_id t u request_id owner amount usage_log_id description db)))"
| release: "wallet_step db (fst (balance_release now t u request_id token db))"
| release_located: "find_reservation request_id db = Some r \<Longrightarrow> br_key r = (t, u) \<Longrightarrow>
    wallet_step db (fst (in_transaction db (release_in_tx now t u request_id token db)))"
| find_by_user: "wallet_step db (fst (find_by_user_reclaiming_expired now t u db))"
| find_breakdown: "wallet_step db (fst (find_breakdown_by_user now t u db))"
| find_page: "wallet_step db (fst (find_breakdown_page_by_user now t u cursor limit db))"
| recovery: "wallet_step db (fst (in_transaction db (release_recovery app_now now t by tenant_admin chk cmd db)))"
| find_by_users: "wallet_step db (fst (find_by_users_reclaiming_expired now t users db))"
| sweep: "wallet_step db (fst (reclaim_expired now locked batch_size db))"

inductive wallet_reach :: "wallet_db \<Rightarrow> bool" where
  start: "wd_balances db = [] \<Longrightarrow> wd_reservations db = [] \<Longrightarrow> wd_transactions db = [] \<Longrightarrow> wallet_reach db"
| step: "wallet_reach db \<Longrightarrow> wallet_step db db' \<Longrightarrow> wallet_reach db'"

lemma directory_inv:
  "wallet_inv db \<Longrightarrow> wallet_inv (db\<lparr>wd_tenants := tenants, wd_users := users, wd_members := members\<rparr>)"
proof -
  let ?db' = "db\<lparr>wd_tenants := tenants, wd_users := users, wd_members := members\<rparr>"
  have sums: "held_sum k ?db' = held_sum k db" "ledger_sum types k ?db' = ledger_sum types k db" for k types
    by (simp_all add: held_sum_def ledger_sum_def)
  have "row_off ?db' p = row_off db p" for p unfolding row_off_def sums ..
  then show "wallet_inv db \<Longrightarrow> wallet_inv ?db'"
    by (simp add: wallet_inv_def rows_off_def wallets_cover_def settled_charged_def)
qed

lemma wallet_step_inv: "wallet_step db db' \<Longrightarrow> wallet_inv db \<Longrightarrow> wallet_inv db'"
proof (induction rule: wallet_step.induct)
  case (settle_located request_id db r t u now new_id owner amount usage_log_id description)
  show ?case
    by (rule in_transaction_inv [OF settle_located(3)]) (rule settle_in_tx_inv [OF settle_located(3,1,2)])
next
  case (release_located request_id db r t u now token)
  show ?case
    by (rule in_transaction_inv [OF release_located(3)]) (rule release_in_tx_inv [OF release_located(3,1,2)])
next
  case (recovery db app_now now t "by" tenant_admin chk cmd)
  show ?case by (rule in_transaction_inv [OF recovery]) (rule release_recovery_inv [OF recovery])
qed (simp_all add: directory_inv wallet_get_or_create_inv recharge_inv consume_inv freeze_inv unfreeze_inv balance_reserve_inv settle_inv
       balance_release_inv find_by_user_inv find_breakdown_inv find_by_users_inv reclaim_expired_inv in_transaction_inv credit_tips_inv
       find_breakdown_page_inv)

lemma wallet_reach_inv: "wallet_reach db \<Longrightarrow> wallet_inv db"
proof (induction rule: wallet_reach.induct)
  case (start db)
  then show ?case
    by (simp add: wallet_inv_def rows_off_def reservations_inv_def transactions_inv_def wallets_cover_def settled_charged_def
        List.map_filter_def)
qed (rule wallet_step_inv)

lemma in_transaction_Inr: "in_transaction db r = (db', Inr x) \<longleftrightarrow> r = Inr (x, db')"
  by (auto simp: in_transaction_def split: sum.split prod.split)

text \<open>A concrete history: a wallet is opened and charged up, two requests reserve, one of them settles.\<close>

abbreviation demo_tenants :: "tenant_row list" where
  "demo_tenants \<equiv> map (\<lambda>t. \<lparr>tn_id = t, tn_status = Tenant_Active, tn_authz_version = 1\<rparr>) [1, 2]"

abbreviation demo_users :: "user_row list" where
  "demo_users \<equiv> map (\<lambda>u. \<lparr>us_id = u, us_status = User_Active, us_platform_role = No_Platform_Role, us_token_version = 0\<rparr>) [7, 8]"

abbreviation demo_membership :: "uuid \<Rightarrow> uuid \<Rightarrow> membership_status \<Rightarrow> membership_row" where
  "demo_membership t u s \<equiv> \<lparr>ms_tenant_id = t, ms_user_id = u, ms_tenant_role = Tenant_Member_Role, ms_status = s, ms_authz_version = 1\<rparr>"

definition demo_start :: wallet_db where
  "demo_start = \<lparr>wd_tenants = demo_tenants, wd_users = demo_users,
     wd_members = [demo_membership 1 7 Membership_Active, demo_membership 1 8 Membership_Active], wd_balances = [],
     wd_reservations = [], wd_events = [], wd_transactions = []\<rparr>"

definition demo_funded :: wallet_db where
  "demo_funded = fst (recharge 100 1 7 50 (Some 5) None (fst (get_or_create 1 7 demo_start)))"

definition demo_reserved :: wallet_db where
  "demo_reserved = fst (balance_reserve 10 10 201 1 7 301 401 20 0 90 (fst (balance_reserve 9 9 200 1 7 300 400 10 0 60 demo_funded)))"

definition demo_settled :: wallet_db where
  "demo_settled = fst (settle 12 101 1 7 300 (Some 400) 14 900 None demo_reserved)"

lemma demo_reach: "wallet_reach demo_start" "wallet_reach demo_funded" "wallet_reach demo_reserved" "wallet_reach demo_settled"
proof -
  show s: "wallet_reach demo_start" by (rule start) (simp_all add: demo_start_def)
  show f: "wallet_reach demo_funded" unfolding demo_funded_def
    by (intro wallet_reach.step [OF _ recharge] wallet_reach.step [OF _ get_or_create] s)
  show r: "wallet_reach demo_reserved" unfolding demo_reserved_def
    by (intro wallet_reach.step [OF _ reserve] f)
  show "wallet_reach demo_settled" unfolding demo_settled_def by (intro wallet_reach.step [OF _ settle] r)
qed

lemma demo_wallet: "find_balance 1 7 demo_settled
    = Some \<lparr>ub_tenant_id = 1, ub_user_id = 7, ub_available = 16, ub_frozen = 20, ub_recharged = 50, ub_consumed = 14\<rparr>"
  by code_simp

text \<open>
  C1: at every point of every history, a wallet row is what its ledger and its active reservations say:
  recharged and consumed are the sums of the ledger entries of those kinds, frozen is the sum of the
  active reservations plus what was frozen by hand and not yet released, and available plus frozen is
  recharged minus consumed. So no sequence of requests creates or loses money.
\<close>

theorem wallet_reconciles:
  assumes "wallet_reach db" "find_balance t u db = Some b"
  shows "ub_recharged b = recharged_sum (t, u) db \<and> ub_consumed b = - consumed_sum (t, u) db
     \<and> ub_frozen b = active_total_by_user t u db - frozen_sum (t, u) db
     \<and> total_balance b = ub_recharged b - ub_consumed b
     \<and> 0 \<le> active_total_by_user t u db \<and> frozen_sum (t, u) db \<le> 0"
proof -
  have inv: "wallet_inv db" by (rule wallet_reach_inv [OF assms(1)])
  have held: "active_total_by_user t u db = held_sum (t, u) db"
    by (simp add: active_total_by_user_def held_sum_def conj_assoc)
  have "row_off db 0 b" "ub_key b = (t, u)" using wallet_inv_row [OF inv assms(2)] by simp_all
  then show ?thesis
    unfolding held using held_sum_bounds(1) [OF inv] by (simp add: row_off_def total_balance_def)
qed

theorem wallet_reconciles_witness:
  "wallet_reach demo_settled \<and> find_balance 1 7 demo_settled
     = Some \<lparr>ub_tenant_id = 1, ub_user_id = 7, ub_available = 16, ub_frozen = 20, ub_recharged = 50, ub_consumed = 14\<rparr>
   \<and> 20 = active_total_by_user 1 7 demo_settled - frozen_sum (1, 7) demo_settled"
  using wallet_reconciles [OF demo_reach(4) demo_wallet] demo_reach(4) demo_wallet by (simp only: user_balance.simps)

section \<open>A usage log is charged once\<close>

lemma consumption_unique:
  assumes "wallet_inv db" "x \<in> set (wd_transactions db)" "consumption_log x = Some l"
  shows "filter (\<lambda>y. consumption_log y = Some l) (wd_transactions db) = [x]" "find_consumption_by_usage_log l db = Some x"
proof -
  show f: "filter (\<lambda>y. consumption_log y = Some l) (wd_transactions db) = [x]"
    using assms by (intro distinct_map_filter_unique) (simp_all add: wallet_inv_def transactions_inv_def)
  have "(\<lambda>y. bt_usage_log_id y = Some l \<and> bt_type y = Consume) = (\<lambda>y. consumption_log y = Some l)"
    by (auto simp: consumption_log_def)
  then show "find_consumption_by_usage_log l db = Some x"
    using f by (simp only: find_consumption_by_usage_log_def find_of_filter)
qed

lemma settle_rows_Inr:
  assumes inv: "wallet_inv db" and fr: "find_reservation i db = Some r" and res: "wd_reservations db2 = wd_reservations db"
    and s: "settle_rows now l i db2 = Inr db'"
  shows "find_reservation i db' = Some (r\<lparr>br_status := Settled, br_usage_log_id := Some l, br_settled_at := Some now\<rparr>)"
    "wd_balances db' = wd_balances db2" "wd_transactions db' = wd_transactions db2" "wd_tenants db' = wd_tenants db2"
proof -
  let ?f = "\<lambda>x. x\<lparr>br_status := Settled, br_usage_log_id := Some l, br_settled_at := Some now\<rparr>"
  obtain rs where up: "update_reservations (\<lambda>r. br_request_id r = i) ?f db2 = Inr (rs, db')"
    by (rule settle_rows_update [OF s])
  have f: "\<And>x. br_request_id (?f x) = br_request_id x" "\<And>x. br_id (?f x) = br_id x" "\<And>x. br_key (?f x) = br_key x" by simp_all
  note ru = request_update [OF inv fr res up f]
  show "find_reservation i db' = Some (?f r)" "wd_balances db' = wd_balances db2" "wd_transactions db' = wd_transactions db2"
    "wd_tenants db' = wd_tenants db2" using ru(6-9) by simp_all
qed

definition settled_for :: "uuid \<Rightarrow> uuid \<Rightarrow> uuid \<Rightarrow> uuid \<Rightarrow> money \<Rightarrow> balance_transaction \<Rightarrow> wallet_db \<Rightarrow> bool" where
  "settled_for t u i l amount x db \<longleftrightarrow>
     (\<exists>r b. find_reservation i db = Some r \<and> br_key r = (t, u) \<and> br_status r = Settled \<and> br_usage_log_id r = Some l
        \<and> find_balance t u db = Some b)
     \<and> has_tenant t (wd_tenants db) \<and> x \<in> set (wd_transactions db) \<and> consumption_log x = Some l \<and> bt_user_id x = u \<and> bt_amount x = - amount"

lemma update_balance_keeps:
  assumes "update_balance t u f db = Inr (Some b', db1)" "find_balance t u db = Some b" "ub_key (f b) = (t, u)"
  shows "find_balance t u db1 = Some b'" "wd_reservations db1 = wd_reservations db" "wd_transactions db1 = wd_transactions db"
    "wd_tenants db1 = wd_tenants db"
proof -
  note u = update_balance_Inr [OF assms(1,2)]
  have "find (\<lambda>x. ub_tenant_id x = t \<and> ub_user_id x = u) (map (\<lambda>x. if ub_key x = (t, u) then f b else x) bs) = Some (f b)"
    if "find (\<lambda>x. ub_tenant_id x = t \<and> ub_user_id x = u) bs = Some c" for bs c
    using that assms(3) by (induction bs) (auto split: if_splits)
  then show "find_balance t u db1 = Some b'" using u assms(2) by (simp add: find_balance_def)
qed (use update_balance_Inr [OF assms(1,2)] in simp_all)

lemma settle_settled_for:
  assumes inv: "wallet_inv db" and ok: "settle now new_id t u i owner amount l description db = (db', Inr (Some (b, x)))"
  shows "wallet_inv db'" "settled_for t u i l amount x db'"
proof -
  show inv': "wallet_inv db'" using settle_inv [OF inv, of now new_id t u i owner amount l description] ok by simp
  obtain r where fr: "find_reservation i db = Some r" and k: "br_key r = (t, u)"
    and tx: "settle_in_tx now new_id t u i owner amount l description db = Inr (Some (b, x), db')"
    using ok by (auto simp: settle_def in_transaction_Inr split: if_splits option.splits)
  have tu: "br_tenant_id r = t" "br_user_id r = u" and ri: "br_request_id r = i" using k request_row(2) [OF inv fr] by simp_all
  obtain b0 where fb: "find_balance t u db = Some b0" and t: "has_tenant t (wd_tenants db)"
    and c: "(if br_status r = Settled then settle_replay r b0 amount l db
       else if br_status r \<noteq> Active then Inr (None, db)
       else if Some (br_owner_token r) \<noteq> owner then Inr (None, db)
       else if ub_frozen b0 < br_amount r then Inl (Wallet_Other ''balance reservation exceeds frozen balance'')
       else case find_consumption_by_usage_log l db of
              Some x \<Rightarrow> settle_charged now r x amount l db
            | None \<Rightarrow> settle_charge now new_id r b0 amount l description db) = Inr (Some (b, x), db')"
    using tx fr by (auto simp: settle_in_tx_def lock_tenant_def and_then_Inr_iff)
  have bk: "ub_key b0 = (t, u)" using wallet_inv_row [OF inv fb] by simp
  show "settled_for t u i l amount x db'"
  proof (cases "br_status r = Settled")
    case True
    then have "db' = db" "br_usage_log_id r = Some l" "find_consumption_by_usage_log l db = Some x" "bt_user_id x = u" "bt_amount x = - amount"
      using c tu by (auto simp: settle_replay_def and_then_Inr_iff split: if_splits)
    then show ?thesis
      using fr k True fb t find_consumption_Some [of l db x] by (auto simp: settled_for_def)
  next
    case False
    then consider "find_consumption_by_usage_log l db = Some x" "settle_charged now r x amount l db = Inr (Some (b, x), db')"
      | "settle_charge now new_id r b0 amount l description db = Inr (Some (b, x), db')"
      using c by (auto simp: settle_charged_def and_then_Inr_iff split: if_splits option.splits)
    then show ?thesis
    proof cases
      case 1
      then obtain db1 where up: "update_balance t u (\<lambda>y. y\<lparr>ub_available := ub_available y + br_amount r, ub_frozen := ub_frozen y - br_amount r\<rparr>) db
          = Inr (Some b, db1)" and s: "settle_rows now l i db1 = Inr db'" and x: "bt_user_id x = u" "bt_amount x = - amount"
        using tu ri by (auto simp: settle_charged_def and_then_Inr_iff split: if_splits)
      note uk = update_balance_keeps [OF up fb]
      have res: "wd_reservations db1 = wd_reservations db" using uk bk by simp
      note sr = settle_rows_Inr [OF inv fr res s]
      show ?thesis using sr uk bk k x t find_consumption_Some [OF 1(1)] by (auto simp: settled_for_def find_balance_def)
    next
      case 2
      then obtain db1 db2 where up: "update_balance t u (\<lambda>y. y\<lparr>ub_available := ub_available y + br_amount r - amount,
            ub_frozen := ub_frozen y - br_amount r, ub_consumed := ub_consumed y + amount\<rparr>) db = Inr (Some b, db1)"
        and ci: "create_internal new_id t u None (Some l) Consume (- amount) (ub_available b0 + br_amount r)
            (ub_available b0 + br_amount r - amount) description db1 = Inr (x, db2)"
        and s: "settle_rows now l i db2 = Inr db'"
        using tu ri by (auto simp: settle_charge_def settlement_available_balances_def Let_def and_then_Inr_iff)
      note uk = update_balance_keeps [OF up fb]
      note cc = create_internal_Inr [OF ci]
      have res: "wd_reservations db2 = wd_reservations db" using uk cc(2) bk by simp
      note sr = settle_rows_Inr [OF inv fr res s]
      have x: "bt_user_id x = u" "bt_amount x = - amount" "consumption_log x = Some l" using cc(1) by (simp_all add: consumption_log_def)
      show ?thesis using sr uk bk k x t cc(2) by (auto simp: settled_for_def find_balance_def)
    qed
  qed
qed

lemma settled_replay:
  assumes "wallet_inv db" "settled_for t u i l amount x db" "0 \<le> amount"
  shows "\<exists>b. settle now new_id t u i owner amount l description db = (db, Inr (Some (b, x)))"
proof -
  obtain r b where r: "find_reservation i db = Some r" "br_key r = (t, u)" "br_status r = Settled" "br_usage_log_id r = Some l"
    "find_balance t u db = Some b" and x: "has_tenant t (wd_tenants db)" "x \<in> set (wd_transactions db)" "consumption_log x = Some l"
      "bt_user_id x = u" "bt_amount x = - amount"
    using assms(2) by (auto simp: settled_for_def)
  have "settle_in_tx now new_id t u i owner amount l description db = Inr (Some (b, x), db)"
    using r x consumption_unique(2) [OF assms(1) x(2,3)]
    by (simp add: settle_in_tx_def lock_tenant_def settle_replay_def)
  then show ?thesis using r assms(3) by (simp add: settle_def in_transaction_def)
qed

text \<open>
  C3: a successful settlement leaves exactly one consumption entry for its usage log, over the settled
  amount and for the user of the wallet; settling the same request again, by whatever owner and at
  whatever time, returns that entry and changes nothing.
\<close>

theorem settle_charges_once:
  assumes "wallet_reach db" "settle now new_id t u i owner amount l description db = (db', Inr (Some (b, x)))"
  shows "filter (\<lambda>y. consumption_log y = Some l) (wd_transactions db') = [x] \<and> bt_amount x = - amount \<and> bt_user_id x = u
     \<and> (\<exists>b'. settle now' new_id' t u i owner' amount l description' db' = (db', Inr (Some (b', x))))"
proof -
  have inv: "wallet_inv db" by (rule wallet_reach_inv [OF assms(1)])
  note s = settle_settled_for [OF inv assms(2)]
  have "0 \<le> amount" using assms(2) by (auto simp: settle_def split: if_splits)
  then have "\<exists>b'. settle now' new_id' t u i owner' amount l description' db' = (db', Inr (Some (b', x)))"
    by (rule settled_replay [OF s])
  moreover have x: "x \<in> set (wd_transactions db')" "consumption_log x = Some l" "bt_user_id x = u" "bt_amount x = - amount"
    using s(2) by (simp_all add: settled_for_def)
  ultimately show ?thesis using consumption_unique(1) [OF s(1) x(1,2)] by simp
qed

lemma demo_settle:
  "settle 12 101 1 7 300 (Some 400) 14 900 None demo_reserved
   = (demo_settled, Inr (Some (
       \<lparr>ub_tenant_id = 1, ub_user_id = 7, ub_available = 16, ub_frozen = 20, ub_recharged = 50, ub_consumed = 14\<rparr>,
       \<lparr>bt_id = 101, bt_tenant_id = 1, bt_user_id = 7, bt_order_id = None, bt_usage_log_id = Some 900, bt_type = Consume,
        bt_amount = - 14, bt_before = 30, bt_after = 16, bt_description = None\<rparr>)))"
proof (rule prod_eqI)
  show "fst (settle 12 101 1 7 300 (Some 400) 14 900 None demo_reserved) = fst (demo_settled, r)" for r :: "(user_balance \<times> balance_transaction) option wallet_result"
    by (simp add: demo_settled_def)
  show "snd (settle 12 101 1 7 300 (Some 400) 14 900 None demo_reserved) = snd (demo_settled, Inr (Some (
       \<lparr>ub_tenant_id = 1, ub_user_id = 7, ub_available = 16, ub_frozen = 20, ub_recharged = 50, ub_consumed = 14\<rparr>,
       \<lparr>bt_id = 101, bt_tenant_id = 1, bt_user_id = 7, bt_order_id = None, bt_usage_log_id = Some 900, bt_type = Consume,
        bt_amount = - 14, bt_before = 30, bt_after = 16, bt_description = None\<rparr>)))"
    unfolding snd_conv by code_simp
qed

theorem settle_charges_once_witness:
  "wallet_reach demo_reserved \<and>
   (\<exists>b'. settle 99 500 1 7 300 None 14 900 None demo_settled = (demo_settled, Inr (Some (b',
       \<lparr>bt_id = 101, bt_tenant_id = 1, bt_user_id = 7, bt_order_id = None, bt_usage_log_id = Some 900, bt_type = Consume,
        bt_amount = - 14, bt_before = 30, bt_after = 16, bt_description = None\<rparr>))))"
  using settle_charges_once [OF demo_reach(3) demo_settle, where now' = 99 and new_id' = 500 and owner' = None and description' = None]
    demo_reach(3) by (elim conjE) (intro conjI)

section \<open>Reservations\<close>

lemma reserve_Inr:
  assumes "balance_reserve app_now now new_id t u i token requested minimum expires db = (db', Inr r)"
  shows "reserve_in_tx now new_id t u i token requested minimum expires db = Inr (r, db')"
  using assms by (auto simp: balance_reserve_def in_transaction_Inr split: sum.splits if_splits)

text \<open>
  C10: a successful reservation is active, owned by its token and holds the larger of the two requested
  amounts; the wallet stays non-negative, the frozen balance covers the reservation, the total is
  unchanged and no ledger entry is written.
\<close>

theorem reserve_holds_funds:
  assumes "wallet_reach db" "balance_reserve app_now now new_id t u i token requested minimum expires db = (db', Inr r)"
  shows "\<exists>b b'. find_balance t u db = Some b \<and> find_balance t u db' = Some b' \<and> find_reservation i db' = Some r
     \<and> br_key r = (t, u) \<and> br_status r = Active \<and> br_owner_token r = token \<and> br_amount r = max requested minimum
     \<and> 0 \<le> ub_available b' \<and> br_amount r \<le> ub_frozen b' \<and> total_balance b' = total_balance b
     \<and> wd_transactions db' = wd_transactions db"
proof -
  have inv: "wallet_inv db" by (rule wallet_reach_inv [OF assms(1)])
  obtain b db1 replaced where c: "find_balance t u db = Some b" "wallet_inv db'" "find_reservation i db' = Some r"
    "br_status r = Active" "br_amount r = max requested minimum" "br_owner_token r = token" "br_key r = (t, u)"
    "max requested minimum \<le> ub_available (reclaimed_row now db b) + replaced"
    and fb': "find_balance t u db' = Some ((reclaimed_row now db b)
       \<lparr>ub_available := ub_available (reclaimed_row now db b) - (br_amount r - replaced),
        ub_frozen := ub_frozen (reclaimed_row now db b) + (br_amount r - replaced)\<rparr>)"
    and tx: "wd_transactions db' = wd_transactions db"
    by (rule reserve_in_tx_correct [OF inv reserve_Inr [OF assms(2)]]) blast
  define b' where "b' = (reclaimed_row now db b)
       \<lparr>ub_available := ub_available (reclaimed_row now db b) - (br_amount r - replaced),
        ub_frozen := ub_frozen (reclaimed_row now db b) + (br_amount r - replaced)\<rparr>"
  note fb = fb' [folded b'_def]
  have mem: "r \<in> set (wd_reservations db')" using find_reservation_Some [OF c(3)] by simp
  have "br_amount r \<le> held_sum (t, u) db'" unfolding held_sum_def
    by (rule sum_rows_member_le) (use mem c(4,7) wallet_inv_amounts(1) [OF c(2)] in auto)
  moreover have "held_sum (t, u) db' \<le> ub_frozen b'"
    using wallet_inv_row(1-3) [OF c(2) fb] by (simp add: row_off_def)
  moreover have "0 \<le> ub_available b'" "total_balance b' = total_balance b"
    using c(5,8) by (simp_all del: max.bounded_iff add: b'_def total_balance_def reclaimed_row_def Let_def)
  ultimately show ?thesis using c tx fb by auto
qed

lemma demo_reserve:
  "balance_reserve 10 10 202 1 7 302 402 40 0 90 demo_funded = (fst (balance_reserve 10 10 202 1 7 302 402 40 0 90 demo_funded),
     Inr \<lparr>br_id = 202, br_request_id = 302, br_owner_token = 402, br_tenant_id = 1, br_user_id = 7, br_amount = 40, br_status = Active,
        br_usage_log_id = None, br_expires_at = 90, br_settled_at = None, br_released_at = None, br_release_kind = None,
        br_release_reason = None, br_released_by = None, br_created_at = 10\<rparr>)"
proof (rule prod_eqI)
  show "snd (balance_reserve 10 10 202 1 7 302 402 40 0 90 demo_funded) = snd (fst (balance_reserve 10 10 202 1 7 302 402 40 0 90 demo_funded),
     Inr \<lparr>br_id = 202, br_request_id = 302, br_owner_token = 402, br_tenant_id = 1, br_user_id = 7, br_amount = 40, br_status = Active,
        br_usage_log_id = None, br_expires_at = 90, br_settled_at = None, br_released_at = None, br_release_kind = None,
        br_release_reason = None, br_released_by = None, br_created_at = 10\<rparr>)"
    unfolding snd_conv by code_simp
qed simp

theorem reserve_holds_funds_witness:
  "wallet_reach demo_funded \<and>
   (\<exists>b'. find_balance 1 7 (fst (balance_reserve 10 10 202 1 7 302 402 40 0 90 demo_funded)) = Some b' \<and> 40 \<le> ub_frozen b')"
  using reserve_holds_funds [OF demo_reach(2) demo_reserve] demo_reach(2) by (auto simp only: reservation.simps)

text \<open>
  C11: once a request has been reserved under a new owner token, a worker that still has another token can
  neither settle nor release it, whatever it passes along.
\<close>

theorem stale_owner_fenced:
  assumes "wallet_reach db" "balance_reserve app_now now new_id t u i token requested minimum expires db = (db', Inr r)" "stale \<noteq> token"
  shows "fst (settle now' new_id' t' u' i (Some stale) amount l description db') = db'
     \<and> balance_release now' t' u' i stale db' = (db', Inr False)"
proof -
  have inv: "wallet_inv db" by (rule wallet_reach_inv [OF assms(1)])
  obtain b db1 replaced where c: "find_reservation i db' = Some r" "br_status r = Active" "br_owner_token r = token"
    by (rule reserve_in_tx_correct [OF inv reserve_Inr [OF assms(2)]]) blast
  have "fst (in_transaction db' (settle_in_tx now' new_id' t' u' i (Some stale) amount l description db')) = db'"
    using c assms(3) by (auto simp: settle_in_tx_def in_transaction_def and_then_def ok_or_def split: sum.split option.split)
  with c assms(3) show ?thesis by (auto simp: settle_def balance_release_def)
qed

theorem stale_owner_fenced_witness:
  "wallet_reach demo_funded \<and>
   balance_release 20 1 7 302 400 (fst (balance_reserve 10 10 202 1 7 302 402 40 0 90 demo_funded))
     = (fst (balance_reserve 10 10 202 1 7 302 402 40 0 90 demo_funded), Inr False)"
  using stale_owner_fenced [OF demo_reach(2) demo_reserve, of 400] demo_reach(2) by simp

section \<open>Expired reservations\<close>

text \<open>
  C12: reading a wallet never fails, returns it with exactly the amount of its expired reservations moved
  back from frozen to available, leaves none of its active reservations expired, and touches no other
  wallet and no ledger entry.
\<close>

theorem read_reclaims_expired:
  assumes "wallet_reach db" "find_balance t u db = Some b"
  shows "\<exists>db'. find_by_user_reclaiming_expired now t u db = (db', Inr (Some
       (b\<lparr>ub_available := ub_available b + expired_sum now (t, u) db, ub_frozen := ub_frozen b - expired_sum now (t, u) db\<rparr>)))
     \<and> (\<forall>r \<in> set (wd_reservations db'). br_key r = (t, u) \<and> br_status r = Active \<longrightarrow> now < br_expires_at r)
     \<and> (\<forall>t' u'. (t', u') \<noteq> (t, u) \<longrightarrow> find_balance t' u' db' = find_balance t' u' db)
     \<and> wd_transactions db' = wd_transactions db"
proof -
  have inv: "wallet_inv db" by (rule wallet_reach_inv [OF assms(1)])
  obtain db' where rl: "reclaim_locked now b db
      = Inr ((reclaimed_row now db b, held_sum (t, u) db - expired_sum now (t, u) db), db')"
    and rows: "wd_reservations db' = expire_rows now (t, u) (wd_reservations db)"
    and tx: "wd_transactions db' = wd_transactions db"
    and other: "\<And>t' u'. (t', u') \<noteq> (t, u) \<Longrightarrow> find_balance t' u' db' = find_balance t' u' db"
    using reclaim_locked_eq [OF inv assms(2)] by metis
  have k: "ub_key b = (t, u)" using wallet_inv_row [OF inv assms(2)] by simp
  have "find_by_user_reclaiming_expired now t u db = (db', Inr (Some (reclaimed_row now db b)))"
    using assms(2) rl by (simp add: find_by_user_reclaiming_expired_def in_transaction_def)
  moreover have "\<forall>r \<in> set (wd_reservations db'). br_key r = (t, u) \<and> br_status r = Active \<longrightarrow> now < br_expires_at r"
  proof (intro ballI impI, elim conjE)
    fix r assume r: "r \<in> set (wd_reservations db')" "br_key r = (t, u)" "br_status r = Active"
    from r(1) [unfolded rows expire_rows_def set_map] obtain r0
      where r0: "r = (if reclaimable now {(t, u)} r0 then r0\<lparr>br_status := Expired\<rparr> else r0)" by (rule imageE)
    show "now < br_expires_at r"
    proof (cases "reclaimable now {(t, u)} r0")
      case True
      then have "r = r0\<lparr>br_status := Expired\<rparr>" by (simp only: r0 if_True simp_thms)
      with r(3) show ?thesis by simp
    next
      case False
      then have "r = r0" by (simp only: r0 if_False simp_thms)
      with False r(2,3) show ?thesis by simp
    qed
  qed
  ultimately show ?thesis using tx other k unfolding reclaimed_row_def Let_def by metis
qed

theorem read_reclaims_expired_witness:
  "wallet_reach demo_reserved \<and> expired_sum 70 (1, 7) demo_reserved = 10 \<and>
   (\<exists>db'. find_by_user_reclaiming_expired 70 1 7 demo_reserved = (db', Inr (Some
      \<lparr>ub_tenant_id = 1, ub_user_id = 7, ub_available = 30, ub_frozen = 20, ub_recharged = 50, ub_consumed = 0\<rparr>)))"
proof -
  have b: "find_balance 1 7 demo_reserved
      = Some \<lparr>ub_tenant_id = 1, ub_user_id = 7, ub_available = 20, ub_frozen = 30, ub_recharged = 50, ub_consumed = 0\<rparr>" by code_simp
  have e: "expired_sum 70 (1, 7) demo_reserved = 10" by code_simp
  from read_reclaims_expired [OF demo_reach(3) b, of 70] obtain db' where
    "find_by_user_reclaiming_expired 70 1 7 demo_reserved = (db', Inr (Some
      \<lparr>ub_tenant_id = 1, ub_user_id = 7, ub_available = 30, ub_frozen = 20, ub_recharged = 50, ub_consumed = 0\<rparr>))"
    unfolding e by auto
  with e demo_reach(3) show ?thesis by blast
qed

section \<open>The sweep and users with wallets in several tenants\<close>

text \<open>
  C25: the background sweep never selects a wallet without manually frozen funds whose user has an active
  reservation in another tenant: the statement adds up the reservations of the user over all tenants
  and compares the sum with the frozen balance of one of them.
\<close>

theorem sweep_skips_second_tenant:
  assumes "wallet_reach db" "find_balance t u db = Some b" "frozen_sum (t, u) db = 0"
    and "t' \<noteq> t" "0 < active_total_by_user t' u db"
  shows "b \<notin> set (sweep_rows now locked batch_size db)"
proof
  have inv: "wallet_inv db" by (rule wallet_reach_inv [OF assms(1)])
  let ?rs = "wd_reservations db"
  let ?p = "\<lambda>r. br_user_id r = u \<and> br_status r = Active"
  have b: "ub_tenant_id b = t" "ub_user_id b = u" "ub_frozen b = held_sum (t, u) db"
    using wallet_inv_row [OF inv assms(2)] assms(3) by (simp_all add: row_off_def)
  assume "b \<in> set (sweep_rows now locked batch_size db)"
  then have le: "sum_rows ?p br_amount ?rs \<le> held_sum (t, u) db" using b by (auto simp: sweep_rows_def dest!: in_set_takeD)
  have own: "sum_rows (\<lambda>r. ?p r \<and> br_tenant_id r = t) br_amount ?rs = held_sum (t, u) db" unfolding held_sum_def
    by (rule sum_rows_cong) auto
  have "active_total_by_user t' u db \<le> sum_rows (\<lambda>r. ?p r \<and> br_tenant_id r \<noteq> t) br_amount ?rs"
  proof -
    have "sum_rows (\<lambda>r. (?p r \<and> br_tenant_id r \<noteq> t) \<and> br_tenant_id r = t') br_amount ?rs = active_total_by_user t' u db"
      unfolding active_total_by_user_def by (rule sum_rows_cong) (use assms(4) in auto)
    moreover have "0 \<le> sum_rows (\<lambda>r. (?p r \<and> br_tenant_id r \<noteq> t) \<and> br_tenant_id r \<noteq> t') br_amount ?rs"
      by (rule sum_rows_nonneg) (use wallet_inv_amounts(1) [OF inv] in auto)
    ultimately show ?thesis
      using sum_rows_split [of "\<lambda>r. ?p r \<and> br_tenant_id r \<noteq> t" br_amount ?rs "\<lambda>r. br_tenant_id r = t'"] by simp
  qed
  with le own assms(5) sum_rows_split [of ?p br_amount ?rs "\<lambda>r. br_tenant_id r = t"] show False by simp
qed

text \<open>
  User 7 reserves in tenant 1, is removed from it and joins tenant 2, where funds are frozen by hand and
  reserved; user 8 reserves in tenant 1. All three reservations expire at 60.
\<close>

definition demo_moved :: wallet_db where
  "demo_moved =
     (let db = fst (balance_reserve 9 9 200 1 7 300 400 10 0 60 (fst (recharge 100 1 7 50 None None demo_start)))
      in db\<lparr>wd_tenants := demo_tenants, wd_users := demo_users,
            wd_members := [demo_membership 1 7 Membership_Removed, demo_membership 1 8 Membership_Active,
              demo_membership 2 7 Membership_Active]\<rparr>)"

definition demo_cross :: wallet_db where
  "demo_cross =
     fst (balance_reserve 9 9 202 1 8 302 402 10 0 60 (fst (balance_reserve 9 9 201 2 7 301 401 10 0 60
     (fst (freeze 5 103 2 7 20 None (fst (recharge 102 1 8 50 None None (fst (recharge 101 2 7 50 None None demo_moved)))))))))"

lemma demo_cross_reach: "wallet_reach demo_cross"
proof -
  have "wallet_reach demo_moved" unfolding demo_moved_def Let_def
    by (intro wallet_reach.step [OF _ directory] wallet_reach.step [OF _ reserve] wallet_reach.step [OF _ recharge] demo_reach(1))
      (simp add: memberships_ok_def)
  then show ?thesis unfolding demo_cross_def
    by (intro wallet_reach.step [OF _ reserve] wallet_reach.step [OF _ freeze] wallet_reach.step [OF _ recharge])
qed

lemma demo_cross_wallets:
  "find_balance 1 7 demo_cross
     = Some \<lparr>ub_tenant_id = 1, ub_user_id = 7, ub_available = 40, ub_frozen = 10, ub_recharged = 50, ub_consumed = 0\<rparr>"
  "frozen_sum (1, 7) demo_cross = 0" "active_total_by_user 2 7 demo_cross = 10"
  by code_simp+

theorem sweep_skips_second_tenant_witness:
  "wallet_reach demo_cross \<and>
   \<lparr>ub_tenant_id = 1, ub_user_id = 7, ub_available = 40, ub_frozen = 10, ub_recharged = 50, ub_consumed = 0\<rparr>
     \<notin> set (sweep_rows 70 (\<lambda>_. False) 100 demo_cross)"
proof -
  have "(2::uuid) \<noteq> 1" "0 < active_total_by_user 2 7 demo_cross" unfolding demo_cross_wallets by simp_all
  from sweep_skips_second_tenant [OF demo_cross_reach demo_cross_wallets(1,2) this] demo_cross_reach show ?thesis by blast
qed

lemma candidates_mem:
  assumes "(k, a, e, n) \<in> set (reclaim_candidates now users tenants db)"
  shows "a = held_sum k db"
proof -
  let ?q = "\<lambda>r. br_user_id r \<in> set users \<and> br_tenant_id r \<in> set tenants \<and> br_status r = Active"
  have a: "a = sum_rows (\<lambda>_. True) br_amount (filter (\<lambda>r. br_key r = k) (filter ?q (wd_reservations db)))"
    and k: "k \<in> br_key ` set (filter ?q (wd_reservations db))"
    using assms by (auto simp: reclaim_candidates_def group_by_key_def)
  from k obtain r0 where "k = br_key r0" "?q r0" by auto
  then have "filter (\<lambda>r. br_key r = k) (filter ?q (wd_reservations db)) = filter (\<lambda>r. br_key r = k \<and> br_status r = Active) (wd_reservations db)"
    unfolding filter_filter by (intro filter_cong refl) auto
  with a show ?thesis by (simp add: held_sum_def sum_rows_def)
qed

lemma candidates_expired:
  assumes "r \<in> set (wd_reservations db)" "br_user_id r \<in> set users" "br_tenant_id r \<in> set tenants"
    "br_status r = Active" "br_expires_at r \<le> now"
  shows "\<exists>a e n. (br_key r, a, e, n) \<in> set (reclaim_candidates now users tenants db) \<and> 0 < n"
proof -
  define rows where "rows = filter (\<lambda>r. br_user_id r \<in> set users \<and> br_tenant_id r \<in> set tenants \<and> br_status r = Active) (wd_reservations db)"
  define g where "g = filter (\<lambda>x. br_key x = br_key r) rows"
  have r: "r \<in> set rows" using assms by (simp add: rows_def)
  have "r \<in> set (filter (\<lambda>x. br_expires_at x \<le> now) g)" using r assms(5) by (simp add: g_def)
  then have "0 < length (filter (\<lambda>x. br_expires_at x \<le> now) g)" by (rule length_pos_if_in_set)
  moreover have "(br_key r, g) \<in> set (group_by_key rows)" unfolding group_by_key_def set_map set_remdups image_image g_def
    by (rule imageI [OF r])
  then have "(br_key r, sum_rows (\<lambda>_. True) br_amount g, sum_rows (\<lambda>r. br_expires_at r \<le> now) br_amount g,
      length (filter (\<lambda>r. br_expires_at r \<le> now) g)) \<in> set (reclaim_candidates now users tenants db)"
    unfolding reclaim_candidates_def rows_def [symmetric] set_map by (intro image_eqI [where x = "(br_key r, g)"]) simp_all
  ultimately show ?thesis by blast
qed

lemma reclaim_valid_unexpected:
  assumes k: "(k, a, e, n) \<in> set expected" "k \<notin> set valid"
  shows "\<exists>err. reclaim_valid now valid expected totals bs db = Inl err"
proof (rule ccontr)
  assume "\<nexists>err. reclaim_valid now valid expected totals bs db = Inl err"
  then obtain z where z: "reclaim_valid now valid expected totals bs db = Inr z" by (cases "reclaim_valid now valid expected totals bs db") auto
  let ?f = "\<lambda>r. r\<lparr>br_status := Expired\<rparr>"
  obtain rows db1 where up: "update_reservations (\<lambda>r. br_key r \<in> set valid \<and> br_status r = Active \<and> br_expires_at r \<le> now) ?f db = Inr (rows, db1)"
    and ex: "\<not> list_ex (\<lambda>(k, a, e, n). map_of (map (\<lambda>(k, rs). (k, sum_rows (\<lambda>_. True) br_amount rs, length rs)) (group_by_key rows)) k \<noteq> Some (e, n)) expected"
    using z by (auto simp: reclaim_valid_def and_then_Inr_iff Let_def split: if_splits)
  define keys where "keys = map (\<lambda>(k, rs). (k, sum_rows (\<lambda>_. True) br_amount rs, length rs)) (group_by_key rows)"
  have "\<forall>p \<in> set expected. \<not> (case p of (k, a, e, n) \<Rightarrow> map_of keys k \<noteq> Some (e, n))"
    using ex unfolding list_ex_iff keys_def by blast
  from bspec [OF this k(1)] have "map_of keys k = Some (e, n)" by simp
  then have "k \<in> fst ` set keys" by (metis domI dom_map_of_conv_image_fst)
  moreover have "fst ` set keys \<subseteq> br_key ` set rows" unfolding keys_def group_by_key_def by (auto simp: image_image)
  ultimately have "k \<in> br_key ` set rows" ..
  moreover have "br_key ` set rows \<subseteq> set valid"
  proof
    fix k' assume "k' \<in> br_key ` set rows"
    then obtain r where "r \<in> set (wd_reservations db)" "br_key r \<in> set valid" "k' = br_key (?f r)"
      unfolding update_reservations_Inr(1) [OF up] by auto
    then show "k' \<in> set valid" by simp
  qed
  ultimately show False using k(2) by blast
qed

lemma reclaim_inner_unexpected:
  assumes inv: "wallet_inv db" and rows: "set rows \<subseteq> set (wd_balances db)" "b1 \<in> set rows" "b2 \<in> set rows"
    and r: "r \<in> set (wd_reservations db)" "br_key r = (ub_tenant_id b1, ub_user_id b2)" "br_status r = Active" "br_expires_at r \<le> now"
      "br_key r \<notin> ub_key ` set rows"
  shows "\<exists>err. reclaim_expired_inner isolate now rows db = Inl err"
proof -
  define cands where "cands = reclaim_candidates now (map ub_user_id rows) (map ub_tenant_id rows) db"
  define totals where "totals = map_of (map (\<lambda>(k, a, e, n). (k, a)) cands)"
  define active where "active = (\<lambda>k. case totals k of Some a \<Rightarrow> Some a | None \<Rightarrow> if k \<in> set (map ub_key rows) then Some 0 else None)"
  define invalid where "invalid = map ub_key (filter (\<lambda>b. ub_frozen b < unwrap_or (active (ub_key b)) 0) rows)"
  have fold: "map ub_key (filter (\<lambda>b. ub_frozen b < unwrap_or (case totals (ub_key b) of Some a \<Rightarrow> Some a
      | None \<Rightarrow> if ub_key b \<in> set (map ub_key rows) then Some 0 else None) 0) rows) = invalid"
    unfolding invalid_def active_def ..
  have "\<exists>a e n. (br_key r, a, e, n) \<in> set cands \<and> 0 < n" unfolding cands_def
    by (rule candidates_expired) (use r rows(2,3) in auto)
  then obtain a e n where c: "(br_key r, a, e, n) \<in> set cands" "0 < n" by blast
  have total: "unwrap_or (active (ub_key b)) 0 \<le> ub_frozen b" if b: "b \<in> set rows" for b
  proof -
    have ro: "row_off db 0 b" using inv b rows(1) by (auto simp: wallet_inv_def rows_off_def)
    have held: "held_sum (ub_key b) db \<le> ub_frozen b" "0 \<le> ub_frozen b"
      using ro held_sum_bounds(1) [OF inv, of "ub_key b"] by (simp_all add: row_off_def)
    show ?thesis
    proof (cases "totals (ub_key b)")
      case (Some h)
      then have "(ub_key b, h) \<in> set (map (\<lambda>(k, a, e, n). (k, a)) cands)" unfolding totals_def by (rule map_of_SomeD)
      then obtain e' n' where "(ub_key b, h, e', n') \<in> set cands" by (auto simp del: prod.inject)
      then have "h = held_sum (ub_key b) db" unfolding cands_def by (rule candidates_mem)
      with Some held show ?thesis by (simp add: active_def unwrap_or_def)
    qed (use held b in \<open>simp add: active_def unwrap_or_def\<close>)
  qed
  then have none: "invalid = []" unfolding invalid_def by (auto simp: filter_empty_conv not_less)
  define expected where "expected = filter (\<lambda>(k, a, e, n). k \<notin> set invalid) (filter (\<lambda>(k, a, e, n). 0 < n) cands)"
  define valid where "valid = filter (\<lambda>k. k \<notin> set invalid) (map ub_key rows)"
  have ex: "(br_key r, a, e, n) \<in> set expected" using c none by (simp add: expected_def)
  have nv: "br_key r \<notin> set valid" using r(5) by (auto simp: valid_def)
  obtain err where err: "reclaim_valid now valid expected active rows db = Inl err"
    using reclaim_valid_unexpected [OF ex nv] by blast
  have "valid \<noteq> []" "filter (\<lambda>(k, a, e, n). 0 < n) cands \<noteq> []" "rows \<noteq> []"
    using rows(2) none c by (auto simp: valid_def filter_empty_conv)
  then show ?thesis
    unfolding reclaim_expired_inner_def Let_def cands_def [symmetric] totals_def [symmetric] active_def [symmetric]
      fold valid_def [symmetric] expected_def [symmetric] err by simp
qed

text \<open>
  C26: when the batch of the sweep has a wallet of one tenant and a wallet of some user, and that user's
  wallet in that tenant is not in the batch but has an expired reservation, the sweep returns an error
  and reclaims nothing: the candidates are selected by users and tenants separately.
\<close>

theorem sweep_batch_fails:
  assumes "wallet_reach db" "0 < batch_size" "batch_size < 2 ^ 63"
    and "b1 \<in> set (sweep_rows now locked batch_size db)" "b2 \<in> set (sweep_rows now locked batch_size db)"
    and "r \<in> set (wd_reservations db)" "br_key r = (ub_tenant_id b1, ub_user_id b2)" "br_status r = Active" "br_expires_at r \<le> now"
    and "br_key r \<notin> ub_key ` set (sweep_rows now locked batch_size db)"
  shows "\<exists>err. reclaim_expired now locked batch_size db = (db, Inl err)"
proof -
  have inv: "wallet_inv db" by (rule wallet_reach_inv [OF assms(1)])
  obtain err where "reclaim_expired_inner True now (sweep_rows now locked batch_size db) db = Inl err"
    using reclaim_inner_unexpected [OF inv sweep_rows_ok(2) [OF inv] assms(4-10)] by blast
  with assms(2,3) show ?thesis by (simp add: reclaim_expired_def in_transaction_def)
qed

lemma demo_cross_sweep:
  "sweep_rows 70 (\<lambda>_. False) 100 demo_cross =
     [\<lparr>ub_tenant_id = 2, ub_user_id = 7, ub_available = 20, ub_frozen = 30, ub_recharged = 50, ub_consumed = 0\<rparr>,
      \<lparr>ub_tenant_id = 1, ub_user_id = 8, ub_available = 40, ub_frozen = 10, ub_recharged = 50, ub_consumed = 0\<rparr>]"
  "hd (wd_reservations demo_cross) =
     \<lparr>br_id = 200, br_request_id = 300, br_owner_token = 400, br_tenant_id = 1, br_user_id = 7, br_amount = 10, br_status = Active,
        br_usage_log_id = None, br_expires_at = 60, br_settled_at = None, br_released_at = None, br_release_kind = None,
        br_release_reason = None, br_released_by = None, br_created_at = 9\<rparr>"
  "wd_reservations demo_cross \<noteq> []"
  by code_simp+

theorem sweep_batch_fails_witness:
  "wallet_reach demo_cross \<and> (\<exists>err. reclaim_expired 70 (\<lambda>_. False) 100 demo_cross = (demo_cross, Inl err))"
proof -
  have "hd (wd_reservations demo_cross) \<in> set (wd_reservations demo_cross)" by (rule hd_in_set [OF demo_cross_sweep(3)])
  then have "\<exists>err. reclaim_expired 70 (\<lambda>_. False) 100 demo_cross = (demo_cross, Inl err)"
    by (intro sweep_batch_fails [OF demo_cross_reach, where r = "hd (wd_reservations demo_cross)"
         and ?b1.0 = "\<lparr>ub_tenant_id = 1, ub_user_id = 8, ub_available = 40, ub_frozen = 10, ub_recharged = 50, ub_consumed = 0\<rparr>"
         and ?b2.0 = "\<lparr>ub_tenant_id = 2, ub_user_id = 7, ub_available = 20, ub_frozen = 30, ub_recharged = 50, ub_consumed = 0\<rparr>"])
      (simp_all add: demo_cross_sweep(1,2))
  with demo_cross_reach show ?thesis by blast
qed

section \<open>Keyset pages\<close>

text \<open>The active reservations of a wallet, newest first.\<close>

definition newest_first :: "reservation list \<Rightarrow> reservation list" where
  "newest_first rows = rev (sort_key br_created_at (sort_key br_id rows))"

definition newer :: "reservation \<Rightarrow> reservation \<Rightarrow> bool" where
  "newer r s \<longleftrightarrow> before_cursor (Some (cursor_of r)) s"

lemma newest_first_sorted:
  assumes "distinct (map br_id rows)"
  shows "sorted_wrt newer (newest_first rows)"
proof -
  have "distinct (map br_id (sort_key br_id rows))" using assms by (simp add: distinct_map inj_on_def)
  moreover have "sorted (map br_id (sort_key br_id rows))" by simp
  ultimately have "sorted_wrt (<) (map br_id (sort_key br_id rows))" by (simp add: strict_sorted_iff)
  then have "sorted_wrt (\<lambda>x y. br_id x < br_id y) (sort_key br_id rows)" by (simp add: sorted_wrt_map)
  then have "sorted_wrt (\<lambda>x y. br_id x < br_id y) (filter (\<lambda>x. br_created_at x = k) (sort_key br_created_at (sort_key br_id rows)))" for k
    by (simp add: sort_key_stable sorted_wrt_filter)
  then have "sorted_wrt (\<lambda>x y. br_created_at x < br_created_at y \<or> br_created_at x = br_created_at y \<and> br_id x < br_id y)
      (sort_key br_created_at (sort_key br_id rows))"
    by (intro sorted_wrt_lex) simp_all
  then show ?thesis
    unfolding newest_first_def sorted_wrt_rev newer_def before_cursor_def cursor_of_def by (auto elim: sorted_wrt_mono_rel [rotated])
qed

lemma newest_first_filter: "newest_first (filter P rows) = filter P (newest_first rows)"
  by (simp add: newest_first_def filter_sort rev_filter [symmetric])

lemma after_cursor:
  assumes "sorted_wrt newer (xs @ ys)" "xs \<noteq> []"
  shows "filter (before_cursor (Some (cursor_of (last xs)))) (xs @ ys) = ys"
proof -
  have d: "newer (last xs) y" if "y \<in> set ys" for y using assms that by (auto simp: sorted_wrt_append)
  have "\<not> newer (last xs) x" if "x \<in> set xs" for x
  proof (cases "x = last xs")
    case False
    obtain zs where zs: "xs = zs @ [last xs]" using assms(2) by (metis append_butlast_last_id)
    with that False have "x \<in> set zs" by (metis UnE empty_iff insert_iff list.set set_append)
    then have "newer x (last xs)" using assms(1) by (subst (asm) zs) (simp add: sorted_wrt_append)
    then show ?thesis by (auto simp: newer_def before_cursor_def cursor_of_def)
  qed (simp add: newer_def before_cursor_def cursor_of_def)
  with d show ?thesis by (simp add: newer_def filter_empty_conv filter_id_conv)
qed

abbreviation active_rows :: "uuid \<Rightarrow> uuid \<Rightarrow> wallet_db \<Rightarrow> reservation list" where
  "active_rows t u db \<equiv> newest_first (filter (\<lambda>r. br_tenant_id r = t \<and> br_user_id r = u \<and> br_status r = Active) (wd_reservations db))"

lemma active_page_eq:
  "active_page_by_user t u cursor limit db =
     (let rest = filter (before_cursor cursor) (active_rows t u db)
      in (take limit rest, if limit < length rest then Some (cursor_of (last (take limit rest))) else None))"
proof -
  have "filter (before_cursor cursor) (active_rows t u db) = rev (sort_key br_created_at (sort_key br_id
      (filter (\<lambda>r. br_tenant_id r = t \<and> br_user_id r = u \<and> br_status r = Active \<and> before_cursor cursor r) (wd_reservations db))))"
    unfolding newest_first_filter [symmetric] unfolding filter_filter newest_first_def conj_assoc ..
  then show ?thesis by (simp add: active_page_by_user_def Let_def min_def)
qed

text \<open>A client that follows the cursors, with a bound on the number of pages.\<close>

fun active_pages :: "nat \<Rightarrow> uuid \<Rightarrow> uuid \<Rightarrow> (datetime \<times> uuid) option \<Rightarrow> nat \<Rightarrow> wallet_db \<Rightarrow> reservation list list option" where
  "active_pages 0 t u cursor limit db = None"
| "active_pages (Suc n) t u cursor limit db =
     (case active_page_by_user t u cursor limit db of
        (page, None) \<Rightarrow> Some [page]
      | (page, Some next) \<Rightarrow> map_option ((#) page) (active_pages n t u (Some next) limit db))"

lemma active_pages_rest:
  assumes "sorted_wrt newer (active_rows t u db)" "1 \<le> limit"
    and "active_rows t u db = seen @ rest" "filter (before_cursor cursor) (active_rows t u db) = rest" "length rest < n"
  shows "\<exists>pages. active_pages n t u cursor limit db = Some pages \<and> concat pages = rest \<and> (\<forall>p \<in> set pages. length p \<le> limit)"
  using assms(3-5)
proof (induction n arbitrary: cursor seen rest)
  case (Suc n)
  let ?page = "take limit rest"
  have page: "active_page_by_user t u cursor limit db
      = (?page, if limit < length rest then Some (cursor_of (last ?page)) else None)"
    unfolding active_page_eq Suc.prems(2) Let_def ..
  show ?case
  proof (cases "limit < length rest")
    case False
    with page show ?thesis by simp
  next
    case True
    have ne: "?page \<noteq> []" using True assms(2) by auto
    have split: "active_rows t u db = (seen @ ?page) @ drop limit rest" using Suc.prems(1) by simp
    have "filter (before_cursor (Some (cursor_of (last (seen @ ?page))))) ((seen @ ?page) @ drop limit rest) = drop limit rest"
      by (rule after_cursor) (use assms(1) [unfolded split] ne in simp_all)
    then have "filter (before_cursor (Some (cursor_of (last ?page)))) (active_rows t u db) = drop limit rest"
      unfolding split using ne by (simp only: last_append if_False)
    moreover have "length (drop limit rest) < n" using Suc.prems(3) True assms(2) by simp
    ultimately obtain pages where
      "active_pages n t u (Some (cursor_of (last ?page))) limit db = Some pages" "concat pages = drop limit rest"
      "\<forall>p \<in> set pages. length p \<le> limit"
      using Suc.IH [OF split] by blast
    with page True show ?thesis by (intro exI [of _ "?page # pages"]) (simp add: append_take_drop_id)
  qed
qed simp

text \<open>
  C27: following the cursors from the first page ends, within one page more than there are reservations, and
  the pages together are the active reservations of the wallet, each once, newest first, with at most
  the requested number per page.
\<close>

theorem active_pages_complete:
  assumes "wallet_reach db" "1 \<le> limit"
  shows "\<exists>pages. active_pages (length (wd_reservations db) + 1) t u None limit db = Some pages
     \<and> distinct (concat pages) \<and> sorted_wrt newer (concat pages) \<and> (\<forall>p \<in> set pages. length p \<le> limit)
     \<and> set (concat pages) = {r \<in> set (wd_reservations db). br_key r = (t, u) \<and> br_status r = Active}"
proof -
  have ids: "distinct (map br_id (wd_reservations db))"
    using wallet_reach_inv [OF assms(1)] by (simp add: wallet_inv_def reservations_inv_def)
  have sorted: "sorted_wrt newer (active_rows t u db)"
    by (rule newest_first_sorted) (use ids in \<open>simp add: distinct_map inj_on_def\<close>)
  have all: "filter (before_cursor None) (active_rows t u db) = active_rows t u db" by (simp add: before_cursor_def)
  have "length (active_rows t u db) < length (wd_reservations db) + 1"
    by (simp add: newest_first_def less_Suc_eq_le)
  from active_pages_rest [OF sorted assms(2) _ all this, of "[]"] obtain pages where
    p: "active_pages (length (wd_reservations db) + 1) t u None limit db = Some pages" "concat pages = active_rows t u db"
      "\<forall>p \<in> set pages. length p \<le> limit" by auto
  moreover have "distinct (active_rows t u db)" "set (active_rows t u db) = {r \<in> set (wd_reservations db). br_key r = (t, u) \<and> br_status r = Active}"
    using ids by (auto simp: newest_first_def distinct_map)
  ultimately show ?thesis using sorted by (intro exI [of _ pages]) (simp only: simp_thms)
qed

theorem active_pages_complete_witness:
  "wallet_reach demo_reserved \<and> (\<exists>pages. active_pages (length (wd_reservations demo_reserved) + 1) 1 7 None 1 demo_reserved = Some pages
     \<and> set (concat pages) = {r \<in> set (wd_reservations demo_reserved). br_key r = (1, 7) \<and> br_status r = Active})"
  using active_pages_complete [OF demo_reach(3) order_refl, of 1 7] demo_reach(3) by blast

end
