(* ===== verification/Wallet_Manual.thy ===== *)
theory Wallet_Manual
  imports Wallet_Correct Complex_Main
begin

text \<open>
  Manual wallet operations of an administrator (\<open>crates/keycompute-db/src/models/user_balance_admin.rs\<close>,
  \<open>admin_balance_operations\<close> of the schema, and the command of \<open>user_balance_reservation_admin.rs\<close>): an idempotency key
  claims a row, the wallet movement and its recorded outcome commit together, and every retry returns the
  recorded outcome. The digest and the encodings of identifiers and decimals are arguments; a command's amount is a
  rational number of wallet units, because the code checks that it has at most ten decimals.
\<close>

section \<open>Claims\<close>

datatype manual_kind = Manual_Recharge | Manual_Consume | Manual_Freeze | Manual_Unfreeze

fun manual_kind_as_str :: "manual_kind \<Rightarrow> string" where
  "manual_kind_as_str Manual_Recharge = ''recharge''"
| "manual_kind_as_str Manual_Consume = ''consume''"
| "manual_kind_as_str Manual_Freeze = ''freeze''"
| "manual_kind_as_str Manual_Unfreeze = ''unfreeze''"

record manual_command =
  mc_kind :: manual_kind
  mc_user_id :: uuid
  mc_amount :: rat
  mc_reason :: string
  mc_idempotency_key :: string

record admin_operation =
  ao_id :: uuid
  ao_key_hash :: string
  ao_fingerprint :: string
  ao_operation_type :: string
  ao_tenant_id :: uuid
  ao_user_id :: uuid
  ao_actor_user_id :: uuid
  ao_amount :: money
  ao_reason :: string
  ao_transaction_id :: "uuid option"
  ao_balance_before :: "money option"
  ao_balance_after :: "money option"
  ao_frozen_after :: "money option"
  ao_completed_at :: "datetime option"

record manual_outcome =
  mo_operation_id :: uuid
  mo_operation_type :: string
  mo_tenant_id :: uuid
  mo_user_id :: uuid
  mo_actor_user_id :: uuid
  mo_amount :: money
  mo_reason :: string
  mo_transaction_id :: uuid
  mo_balance_before :: money
  mo_balance_after :: money
  mo_frozen_after :: money

datatype manual_decision = Manual_Completed manual_outcome | Manual_Conflict

definition matches_request ::
  "string \<Rightarrow> manual_kind \<Rightarrow> uuid \<Rightarrow> uuid \<Rightarrow> uuid \<Rightarrow> money \<Rightarrow> string \<Rightarrow> admin_operation \<Rightarrow> bool" where
  "matches_request fingerprint kind t u actor amount reason c \<longleftrightarrow>
     ao_fingerprint c = fingerprint \<and> ao_operation_type c = manual_kind_as_str kind \<and> ao_tenant_id c = t
     \<and> ao_user_id c = u \<and> ao_actor_user_id c = actor \<and> ao_amount c = amount \<and> ao_reason c = reason"

definition completed_outcome :: "admin_operation \<Rightarrow> manual_outcome option wallet_result" where
  "completed_outcome c =
     (if ao_completed_at c = None then
        (if ao_transaction_id c \<noteq> None \<or> ao_balance_before c \<noteq> None \<or> ao_balance_after c \<noteq> None \<or> ao_frozen_after c \<noteq> None
         then Inl (Wallet_Other ''incomplete administrator balance operation has result fields'') else Inr None)
      else
        and_then (ok_or (ao_transaction_id c) (Wallet_Other ''completed administrator balance operation has no transaction'')) (\<lambda>x.
        and_then (ok_or (ao_balance_before c) (Wallet_Other ''completed administrator balance operation has no balance_before'')) (\<lambda>before.
        and_then (ok_or (ao_balance_after c) (Wallet_Other ''completed administrator balance operation has no balance_after'')) (\<lambda>after.
        and_then (ok_or (ao_frozen_after c) (Wallet_Other ''completed administrator balance operation has no frozen balance'')) (\<lambda>frozen.
          Inr (Some \<lparr>mo_operation_id = ao_id c, mo_operation_type = ao_operation_type c, mo_tenant_id = ao_tenant_id c,
                     mo_user_id = ao_user_id c, mo_actor_user_id = ao_actor_user_id c, mo_amount = ao_amount c,
                     mo_reason = ao_reason c, mo_transaction_id = x, mo_balance_before = before, mo_balance_after = after,
                     mo_frozen_after = frozen\<rparr>))))))"

section \<open>The fingerprint of a request\<close>

text \<open>Every field is hashed with its length in front, as eight bytes with the most significant first.\<close>

primrec be_bytes :: "nat \<Rightarrow> nat \<Rightarrow> nat list" where
  "be_bytes 0 n = []"
| "be_bytes (Suc k) n = be_bytes k (n div 256) @ [n mod 256]"

definition hash_field :: "nat list \<Rightarrow> nat list" where
  "hash_field field = be_bytes 8 (length field) @ field"

definition ascii_bytes :: "string \<Rightarrow> nat list" where "ascii_bytes s = map of_char s"

record encodings =
  en_sha256_hex :: "nat list \<Rightarrow> string"
  en_uuid_bytes :: "uuid \<Rightarrow> nat list"
  en_decimal_string :: "money \<Rightarrow> string"

definition fingerprint_message ::
  "encodings \<Rightarrow> manual_kind \<Rightarrow> uuid \<Rightarrow> uuid \<Rightarrow> uuid \<Rightarrow> money \<Rightarrow> string \<Rightarrow> nat list" where
  "fingerprint_message en kind t u actor amount reason =
     concat (map hash_field
       [ascii_bytes ''keycompute-admin-balance-operation-v1'', ascii_bytes (manual_kind_as_str kind), en_uuid_bytes en t,
        en_uuid_bytes en u, en_uuid_bytes en actor, ascii_bytes (en_decimal_string en amount), ascii_bytes reason])"

definition manual_fingerprint ::
  "encodings \<Rightarrow> manual_kind \<Rightarrow> uuid \<Rightarrow> uuid \<Rightarrow> uuid \<Rightarrow> money \<Rightarrow> string \<Rightarrow> string" where
  "manual_fingerprint en kind t u actor amount reason = en_sha256_hex en (fingerprint_message en kind t u actor amount reason)"

section \<open>Validation\<close>

definition validate_manual :: "manual_command \<Rightarrow> money wallet_result" where
  "validate_manual cmd =
     (let amount = mc_amount cmd; reason = trim (mc_reason cmd); key = mc_idempotency_key cmd
      in if amount \<le> 0 \<or> 10 ^ 20 \<le> amount \<or> of_int \<lfloor>amount\<rfloor> \<noteq> amount
         then Inl (Wallet_Other ''administrator balance operation amount must fit positive DECIMAL(20,10)'')
         else if reason = [] \<or> list_ex is_control reason
         then Inl (Wallet_Other ''administrator balance operation reason must not be empty'')
         else if 1000 < length reason
         then Inl (Wallet_Other ''administrator balance operation reason must not exceed 1000 characters'')
         else if key = [] \<or> 256 < length key \<or> \<not> list_all (\<lambda>c. 33 \<le> (of_char c :: nat) \<and> (of_char c :: nat) \<le> 126) key
         then Inl (Wallet_Other ''administrator balance Idempotency-Key must contain between 1 and 256 visible ASCII bytes'')
         else Inr \<lfloor>amount\<rfloor>)"

section \<open>The database of the console\<close>

record manual_audit =
  ma_scope :: audit_scope_type
  ma_tenant_id :: uuid
  ma_actor_user_id :: uuid
  ma_action :: string
  ma_user_id :: uuid
  ma_operation_id :: "uuid option"
  ma_result :: audit_result

record console_db =
  cd_wallet :: wallet_db
  cd_claims :: "admin_operation list"
  cd_audit :: "manual_audit list"

definition audit_scope_of :: "financial_access \<Rightarrow> audit_scope_type" where
  "audit_scope_of a =
     (case a of Platform_Tenant \<Rightarrow> Audit_Platform | Platform_Global \<Rightarrow> Audit_Platform
      | Tenant_Admin \<Rightarrow> Audit_Tenant | Personal \<Rightarrow> Audit_User)"

fun of_authority :: "authority_error + 'a \<Rightarrow> 'a wallet_result" where
  "of_authority (Inr x) = Inr x"
| "of_authority (Inl Authority_Denied) = Inl (Wallet_Other ''financial_authority_invalid'')"
| "of_authority (Inl (Authority_Not_Found entity i)) = Inl (Wallet_Not_Found entity i)"

definition actor_now :: "int \<Rightarrow> financial_scope \<Rightarrow> wallet_db \<Rightarrow> audit_context wallet_result" where
  "actor_now now sc db = of_authority (current_actor now sc (wd_users db) (wd_tenants db) (wd_members db))"

text \<open>
  \<open>INSERT ... ON CONFLICT (idempotency_key_hash) DO NOTHING\<close>, with the checks and the keys of the table; the checks on
  the shape of the two digests are left to the digest, which is an argument.
\<close>

definition insert_claim :: "admin_operation \<Rightarrow> console_db \<Rightarrow> console_db wallet_result" where
  "insert_claim c db =
     (if \<not> money_ok (ao_amount c) then Inl Wallet_Numeric_Overflow
      else if \<not> (0 < ao_amount c \<and> btrim (ao_reason c) \<noteq> [] \<and> ao_reason c = btrim (ao_reason c) \<and> length (ao_reason c) \<le> 1000)
      then Inl Wallet_Check_Violation
      else if list_ex (\<lambda>x. ao_key_hash x = ao_key_hash c) (cd_claims db) then Inr db
      else if \<not> has_membership (ao_tenant_id c) (ao_user_id c) (wd_members (cd_wallet db)) then Inl Wallet_Foreign_Key
      else if ao_id c \<in> set (map ao_id (cd_claims db)) then Inl Wallet_Duplicate_Key
      else Inr (db\<lparr>cd_claims := cd_claims db @ [c]\<rparr>))"

definition find_claim :: "string \<Rightarrow> uuid \<Rightarrow> uuid \<Rightarrow> uuid \<Rightarrow> console_db \<Rightarrow> admin_operation option" where
  "find_claim key_hash t u actor db =
     find (\<lambda>c. ao_key_hash c = key_hash \<and> ao_tenant_id c = t \<and> ao_user_id c = u \<and> ao_actor_user_id c = actor) (cd_claims db)"

text \<open>The trigger \<open>guard_manual_balance_identity\<close> on completion: the outcome must be that of a ledger entry of the claim.\<close>

definition result_matches_ledger :: "admin_operation \<Rightarrow> wallet_db \<Rightarrow> bool" where
  "result_matches_ledger c db \<longleftrightarrow>
     list_ex (\<lambda>x. Some (bt_id x) = ao_transaction_id c \<and> bt_key x = (ao_tenant_id c, ao_user_id c)
        \<and> transaction_type_as_str (bt_type x) = ao_operation_type c \<and> \<bar>bt_amount x\<bar> = ao_amount c
        \<and> Some (bt_before x) = ao_balance_before c \<and> Some (bt_after x) = ao_balance_after c) (wd_transactions db)"

definition complete_claim ::
  "datetime \<Rightarrow> admin_operation \<Rightarrow> user_balance \<Rightarrow> balance_transaction \<Rightarrow> console_db \<Rightarrow> (admin_operation \<times> console_db) wallet_result" where
  "complete_claim now c b x db =
     (let open_claim = (\<lambda>y. ao_id y = ao_id c \<and> ao_tenant_id y = ao_tenant_id c \<and> ao_user_id y = ao_user_id c
            \<and> ao_actor_user_id y = ao_actor_user_id c \<and> ao_completed_at y = None);
          f = (\<lambda>y. y\<lparr>ao_transaction_id := Some (bt_id x), ao_balance_before := Some (bt_before x), ao_balance_after := Some (bt_after x),
                    ao_frozen_after := Some (ub_frozen b), ao_completed_at := Some now\<rparr>)
      in case find open_claim (cd_claims db) of
           None \<Rightarrow> Inl (Wallet_Other ''administrator balance operation was not completed'')
         | Some y \<Rightarrow>
             if ub_frozen b < 0 \<or> \<not> result_matches_ledger (f y) (cd_wallet db) then Inl Wallet_Check_Violation
             else Inr (f y, db\<lparr>cd_claims := map (\<lambda>z. if open_claim z then f z else z) (cd_claims db)\<rparr>))"

definition append_audit :: "manual_audit \<Rightarrow> console_db \<Rightarrow> console_db" where
  "append_audit a db = db\<lparr>cd_audit := cd_audit db @ [a]\<rparr>"

section \<open>Commands\<close>

text \<open>
  What one command reads from the outside: the transaction's \<open>NOW()\<close>, the clock readings of the authority
  checks in their order, and the identifiers the database generates.
\<close>

record command_env =
  ce_now :: datetime
  ce_app_now :: datetime
  ce_clocks :: "int \<times> int \<times> int"
  ce_middle_clock :: int
  ce_final_clock :: int
  ce_claim_id :: uuid
  ce_transaction_id :: uuid

definition lock_scope :: "command_env \<Rightarrow> financial_scope \<Rightarrow> audit_context \<Rightarrow> wallet_db \<Rightarrow> audit_context wallet_result" where
  "lock_scope env sc audit db =
     (case ce_clocks env of (c1, c2, c3) \<Rightarrow>
        of_authority (scope_lock c1 c2 c3 sc audit (wd_users db) (wd_tenants db) (wd_members db)))"

definition manual_movement ::
  "datetime \<Rightarrow> uuid \<Rightarrow> manual_kind \<Rightarrow> uuid \<Rightarrow> uuid \<Rightarrow> money \<Rightarrow> string \<Rightarrow> wallet_db
     \<Rightarrow> wallet_db \<times> (user_balance \<times> balance_transaction) wallet_result" where
  "manual_movement now new_id kind t u amount reason db =
     (case kind of
        Manual_Recharge \<Rightarrow> in_transaction db (recharge_in_tx new_id t u amount None (Some reason) db)
      | Manual_Consume \<Rightarrow> in_transaction db (consume_in_tx now new_id t u amount None (Some reason) db)
      | Manual_Freeze \<Rightarrow> in_transaction db (freeze_in_tx now new_id t u amount (Some reason) db)
      | Manual_Unfreeze \<Rightarrow> unfreeze_in_tx now new_id t u amount (Some reason) db)"

datatype manual_attempt = Attempt_Decision manual_decision | Repaired_Failure wallet_error

definition manual_audit_of ::
  "financial_scope \<Rightarrow> uuid \<Rightarrow> audit_context \<Rightarrow> string \<Rightarrow> uuid \<Rightarrow> uuid option \<Rightarrow> audit_result \<Rightarrow> manual_audit" where
  "manual_audit_of sc t actor action u operation_id result =
     \<lparr>ma_scope = audit_scope_of (sc_access sc), ma_tenant_id = t, ma_actor_user_id = ac_actor_user_id actor, ma_action = action,
      ma_user_id = u, ma_operation_id = operation_id, ma_result = result\<rparr>"

definition manual_apply ::
  "command_env \<Rightarrow> financial_scope \<Rightarrow> audit_context \<Rightarrow> manual_kind \<Rightarrow> admin_operation \<Rightarrow> console_db
     \<Rightarrow> (manual_attempt \<times> console_db) wallet_result" where
  "manual_apply env sc actor kind c db =
     (let t = ao_tenant_id c; u = ao_user_id c
      in case manual_movement (ce_now env) (ce_transaction_id env) kind t u (ao_amount c) (ao_reason c) (cd_wallet db) of
           (w, Inl e) \<Rightarrow>
             if kind = Manual_Unfreeze \<and> is_insufficient_balance e
             then Inr (Repaired_Failure e,
                    append_audit (manual_audit_of sc t actor ''balance.unfreeze_denied'' u (Some (ao_id c)) Audit_Denied)
                      (db\<lparr>cd_wallet := w,
                          cd_claims := filter (\<lambda>y. \<not> (ao_id y = ao_id c \<and> ao_tenant_id y = t \<and> ao_user_id y = u
                            \<and> ao_actor_user_id y = ao_actor_user_id c \<and> ao_completed_at y = None)) (cd_claims db)\<rparr>))
             else Inl e
         | (w, Inr (b, x)) \<Rightarrow>
             if ub_tenant_id b \<noteq> t \<or> bt_tenant_id x \<noteq> t then Inl (Wallet_Other ''user balance belongs to another tenant'')
             else and_then (complete_claim (ce_now env) c b x (db\<lparr>cd_wallet := w\<rparr>)) (\<lambda>(c', db').
                  and_then (completed_outcome c') (\<lambda>r.
                  and_then (ok_or r (Wallet_Other ''administrator balance operation has no completed result'')) (\<lambda>outcome.
                    Inr (Attempt_Decision (Manual_Completed outcome),
                      append_audit (manual_audit_of sc t actor (''balance.'' @ manual_kind_as_str kind) u
                        (Some (mo_operation_id outcome)) Audit_Success) db')))))"

definition new_claim :: "encodings \<Rightarrow> command_env \<Rightarrow> financial_scope \<Rightarrow> manual_command \<Rightarrow> uuid \<Rightarrow> money \<Rightarrow> admin_operation" where
  "new_claim en env sc cmd t amount =
     (let u = mc_user_id cmd; actor = scope_user_id sc; reason = trim (mc_reason cmd)
      in \<lparr>ao_id = ce_claim_id env, ao_key_hash = en_sha256_hex en (ascii_bytes (mc_idempotency_key cmd)),
          ao_fingerprint = manual_fingerprint en (mc_kind cmd) t u actor amount reason,
          ao_operation_type = manual_kind_as_str (mc_kind cmd), ao_tenant_id = t, ao_user_id = u, ao_actor_user_id = actor,
          ao_amount = amount, ao_reason = reason, ao_transaction_id = None, ao_balance_before = None,
          ao_balance_after = None, ao_frozen_after = None, ao_completed_at = None\<rparr>)"

definition request_matches :: "encodings \<Rightarrow> financial_scope \<Rightarrow> manual_command \<Rightarrow> uuid \<Rightarrow> money \<Rightarrow> admin_operation \<Rightarrow> bool" where
  "request_matches en sc cmd t amount c =
     (let u = mc_user_id cmd; actor = scope_user_id sc; reason = trim (mc_reason cmd)
      in matches_request (manual_fingerprint en (mc_kind cmd) t u actor amount reason) (mc_kind cmd) t u actor amount reason c)"

definition manual_balance_in_tx ::
  "encodings \<Rightarrow> command_env \<Rightarrow> financial_scope \<Rightarrow> audit_context \<Rightarrow> manual_command \<Rightarrow> console_db
     \<Rightarrow> (manual_attempt \<times> console_db) wallet_result" where
  "manual_balance_in_tx en env sc audit cmd db =
     and_then (of_authority (scope_tenant_id sc)) (\<lambda>t.
     and_then (validate_manual cmd) (\<lambda>amount.
     and_then (lock_scope env sc audit (cd_wallet db)) (\<lambda>current.
     and_then (insert_claim (new_claim en env sc cmd t amount) db) (\<lambda>db1.
       case find_claim (en_sha256_hex en (ascii_bytes (mc_idempotency_key cmd))) t (mc_user_id cmd) (scope_user_id sc) db1 of
         None \<Rightarrow> Inr (Attempt_Decision Manual_Conflict, db1)
       | Some c \<Rightarrow>
           if \<not> request_matches en sc cmd t amount c then Inr (Attempt_Decision Manual_Conflict, db1)
           else and_then (completed_outcome c) (\<lambda>r.
             case r of
               Some outcome \<Rightarrow> Inr (Attempt_Decision (Manual_Completed outcome), db1)
             | None \<Rightarrow> manual_apply env sc current (mc_kind cmd) c db1)))))"

definition apply_admin_manual_operation ::
  "encodings \<Rightarrow> command_env \<Rightarrow> financial_scope \<Rightarrow> audit_context \<Rightarrow> manual_command \<Rightarrow> console_db
     \<Rightarrow> console_db \<times> manual_decision wallet_result" where
  "apply_admin_manual_operation en env sc audit cmd db =
     (case and_then (of_authority (require_platform_tenant sc)) (\<lambda>_.
           and_then (ensure (mc_user_id cmd \<noteq> 0) (Wallet_Other ''financial_target_invalid'')) (\<lambda>_.
           and_then (manual_balance_in_tx en env sc audit cmd db) (\<lambda>(attempt, db').
           and_then (actor_now (ce_final_clock env) sc (cd_wallet db')) (\<lambda>_. Inr (attempt, db'))))) of
        Inl e \<Rightarrow> (db, Inl e)
      | Inr (Attempt_Decision d, db') \<Rightarrow> (db', Inr d)
      | Inr (Repaired_Failure e, db') \<Rightarrow> (db', Inl e))"

definition admin_release ::
  "command_env \<Rightarrow> financial_scope \<Rightarrow> audit_context \<Rightarrow> release_command \<Rightarrow> console_db
     \<Rightarrow> console_db \<times> (balance_breakdown \<times> reservation) option wallet_result" where
  "admin_release env sc audit cmd db =
     (let reason = trim (rc_reason cmd); w = cd_wallet db
      in case and_then (of_authority (require_admin sc)) (\<lambda>_.
              and_then (ensure (rc_user_id cmd \<noteq> 0 \<and> rc_request_id cmd \<noteq> 0 \<and> rc_expected_owner_token cmd \<noteq> 0)
                  (Wallet_Other ''financial_target_invalid'')) (\<lambda>_.
              and_then (ensure (reason \<noteq> [] \<and> length reason \<le> 1000 \<and> \<not> list_ex is_control reason)
                  (Wallet_Other ''financial_reason_invalid'')) (\<lambda>_.
              and_then (of_authority (scope_tenant_id sc)) (\<lambda>t.
              and_then (lock_scope env sc audit w) (\<lambda>current.
              and_then (release_recovery (ce_app_now env) (ce_now env) t (scope_user_id sc) (sc_access sc = Tenant_Admin)
                  (and_then (actor_now (ce_middle_clock env) sc w) (\<lambda>_. Inr ())) cmd w) (\<lambda>(res, w').
              and_then (actor_now (ce_final_clock env) sc w') (\<lambda>_.
                Inr (res, case (res, find_recovery_target t (rc_user_id cmd) (rc_request_id cmd) w) of
                    (Some _, Some r) \<Rightarrow>
                      if br_status r = Active
                      then append_audit (manual_audit_of sc t current ''balance.reservation_release'' (rc_user_id cmd) None Audit_Success)
                             (db\<lparr>cd_wallet := w'\<rparr>)
                      else db\<lparr>cd_wallet := w'\<rparr>
                  | _ \<Rightarrow> db\<lparr>cd_wallet := w'\<rparr>)))))))) of
           Inl e \<Rightarrow> (db, Inl e)
         | Inr (res, db') \<Rightarrow> (db', Inr res))"

text \<open>The administrator's page of a wallet, one statement that neither locks nor reclaims.\<close>

definition find_breakdown_page_in_scope ::
  "int \<Rightarrow> financial_scope \<Rightarrow> uuid \<Rightarrow> (datetime \<times> uuid) option \<Rightarrow> nat \<Rightarrow> wallet_db \<Rightarrow> breakdown_page option wallet_result" where
  "find_breakdown_page_in_scope now sc u cursor limit w =
     and_then (of_authority (require_admin sc)) (\<lambda>_.
     and_then (of_authority (scope_tenant_id sc)) (\<lambda>t.
     and_then (validate_page_size limit) (\<lambda>_.
     and_then (ensure (u \<noteq> 0) (Wallet_Other ''financial_target_invalid'')) (\<lambda>_.
     and_then (ensure (financial_predicate now sc (wd_users w) (wd_tenants w) (wd_members w)) (Wallet_Other ''financial_authority_invalid'')) (\<lambda>_.
     and_then (ensure (has_membership t u (wd_members w)) (Wallet_Not_Found ''Tenant member'' u)) (\<lambda>_.
       case find_balance t u w of
         None \<Rightarrow> Inr None
       | Some b \<Rightarrow>
           let (rows, next) = active_page_by_user t u cursor limit w
           in and_then (breakdown_with_active_total b (active_total_by_user t u w)) (\<lambda>d.
                Inr (Some \<lparr>bp_breakdown = d, bp_reservations = rows, bp_next_cursor = next\<rparr>))))))))"

section \<open>Sequences of commands\<close>

inductive console_step :: "encodings \<Rightarrow> console_db \<Rightarrow> console_db \<Rightarrow> bool" for en where
  wallet: "wallet_step (cd_wallet db) w \<Longrightarrow> console_step en db (db\<lparr>cd_wallet := w\<rparr>)"
| manual: "console_step en db (fst (apply_admin_manual_operation en env sc audit cmd db))"
| release: "console_step en db (fst (admin_release env sc audit cmd db))"

inductive console_reach :: "encodings \<Rightarrow> console_db \<Rightarrow> bool" for en where
  start: "wallet_reach (cd_wallet db) \<Longrightarrow> cd_claims db = [] \<Longrightarrow> console_reach en db"
| step: "console_reach en db \<Longrightarrow> console_step en db db' \<Longrightarrow> console_reach en db'"

section \<open>Claims\<close>

definition claims_inv :: "console_db \<Rightarrow> bool" where
  "claims_inv db \<longleftrightarrow> distinct (map ao_key_hash (cd_claims db)) \<and> distinct (map ao_id (cd_claims db))
     \<and> (\<forall>c \<in> set (cd_claims db). \<exists>outcome. completed_outcome c = Inr (Some outcome))"

lemma completed_outcome_at: "completed_outcome c = Inr (Some outcome) \<Longrightarrow> ao_completed_at c \<noteq> None"
  by (auto simp: completed_outcome_def split: if_splits)

lemma append_audit_simps [simp]:
  "cd_wallet (append_audit a db) = cd_wallet db" "cd_claims (append_audit a db) = cd_claims db"
  by (simp_all add: append_audit_def)

lemma find_claim_key: "find_claim k t u actor db = Some c \<Longrightarrow> c \<in> set (cd_claims db) \<and> ao_key_hash c = k"
  unfolding find_claim_def by (drule find_Some_mem) simp

text \<open>A claim under a new key is the only open one.\<close>

lemma open_claims_new:
  assumes inv: "claims_inv db" and new: "ao_id c \<notin> set (map ao_id (cd_claims db))" "ao_completed_at c = None"
    and p: "\<And>y. p y \<Longrightarrow> ao_completed_at y = None" "p c"
  shows "filter p (cd_claims db @ [c]) = [c]" "find p (cd_claims db @ [c]) = Some c"
    "filter (\<lambda>y. \<not> p y) (cd_claims db @ [c]) = cd_claims db"
    "map (\<lambda>z. if p z then f z else z) (cd_claims db @ [c]) = cd_claims db @ [f c]"
proof -
  have none: "\<not> p y" if "y \<in> set (cd_claims db)" for y
    using inv that p(1) completed_outcome_at unfolding claims_inv_def by metis
  then show "filter p (cd_claims db @ [c]) = [c]" "filter (\<lambda>y. \<not> p y) (cd_claims db @ [c]) = cd_claims db"
    "map (\<lambda>z. if p z then f z else z) (cd_claims db @ [c]) = cd_claims db @ [f c]"
    using p(2) by (auto simp: filter_empty_conv filter_id_conv intro: map_idI)
  have "find p (cd_claims db) = None" unfolding find_None_iff using none by blast
  then show "find p (cd_claims db @ [c]) = Some c" using p(2) by (simp add: find_append)
qed

lemma manual_apply_effect:
  assumes inv: "claims_inv db" and new: "ao_id c \<notin> set (map ao_id (cd_claims db))" "ao_completed_at c = None"
      "ao_key_hash c \<notin> set (map ao_key_hash (cd_claims db))"
    and ok: "manual_apply env sc actor kind c (db\<lparr>cd_claims := cd_claims db @ [c]\<rparr>) = Inr (att, db')"
  obtains (denied) e where "att = Repaired_Failure e" "kind = Manual_Unfreeze" "is_insufficient_balance e" "cd_claims db' = cd_claims db"
      "manual_movement (ce_now env) (ce_transaction_id env) kind (ao_tenant_id c) (ao_user_id c) (ao_amount c) (ao_reason c) (cd_wallet db)
         = (cd_wallet db', Inl e)"
  | (completed) c' b x outcome where "att = Attempt_Decision (Manual_Completed outcome)" "completed_outcome c' = Inr (Some outcome)"
      "cd_claims db' = cd_claims db @ [c']" "ao_key_hash c' = ao_key_hash c" "ao_id c' = ao_id c"
      "c' = c\<lparr>ao_transaction_id := Some (bt_id x), ao_balance_before := Some (bt_before x), ao_balance_after := Some (bt_after x),
             ao_frozen_after := Some (ub_frozen b), ao_completed_at := Some (ce_now env)\<rparr>"
      "manual_movement (ce_now env) (ce_transaction_id env) kind (ao_tenant_id c) (ao_user_id c) (ao_amount c) (ao_reason c) (cd_wallet db)
         = (cd_wallet db', Inr (b, x))"
proof -
  let ?p = "\<lambda>y. ao_id y = ao_id c \<and> ao_tenant_id y = ao_tenant_id c \<and> ao_user_id y = ao_user_id c
     \<and> ao_actor_user_id y = ao_actor_user_id c \<and> ao_completed_at y = None"
  let ?f = "\<lambda>b x y. y\<lparr>ao_transaction_id := Some (bt_id x), ao_balance_before := Some (bt_before x), ao_balance_after := Some (bt_after x),
             ao_frozen_after := Some (ub_frozen b), ao_completed_at := Some (ce_now env)\<rparr>"
  note o = open_claims_new [OF inv new(1,2), of ?p]
  obtain w r where mv: "manual_movement (ce_now env) (ce_transaction_id env) kind (ao_tenant_id c) (ao_user_id c) (ao_amount c)
      (ao_reason c) (cd_wallet db) = (w, r)" by (metis surj_pair)
  show thesis
  proof (cases r)
    case (Inl e)
    have "kind = Manual_Unfreeze \<and> is_insufficient_balance e \<and> att = Repaired_Failure e \<and> cd_wallet db' = w \<and> cd_claims db' = cd_claims db"
      using ok mv Inl o(3) new(2) by (auto simp: manual_apply_def Let_def split: if_splits)
    with mv Inl show thesis by (intro denied [of e]) simp_all
  next
    case (Inr bx)
    obtain b x where bx: "bx = (b, x)" by (metis surj_pair)
    obtain c' db2 outcome where cc: "complete_claim (ce_now env) c b x (db\<lparr>cd_claims := cd_claims db @ [c], cd_wallet := w\<rparr>) = Inr (c', db2)"
      and out: "completed_outcome c' = Inr (Some outcome)" "att = Attempt_Decision (Manual_Completed outcome)"
      and db': "cd_wallet db' = cd_wallet db2" "cd_claims db' = cd_claims db2"
      using ok mv Inr bx by (auto simp: manual_apply_def Let_def and_then_Inr_iff split: if_splits)
    have "c' = ?f b x c \<and> cd_claims db2 = cd_claims db @ [?f b x c] \<and> cd_wallet db2 = w"
      using cc o(2) o(4) [of "?f b x"] new(2) by (auto simp: complete_claim_def Let_def split: if_splits)
    with out db' mv Inr bx show thesis by (intro completed [where outcome = outcome and c' = c' and b = b and x = x]) simp_all
  qed
qed

lemma insert_claim_used: "insert_claim c db = Inr db1 \<Longrightarrow> ao_key_hash c \<in> set (map ao_key_hash (cd_claims db)) \<Longrightarrow> db1 = db"
  unfolding insert_claim_def list_ex_iff by (auto split: if_splits)

lemma insert_claim_fresh:
  "insert_claim c db = Inr db1 \<Longrightarrow> ao_key_hash c \<notin> set (map ao_key_hash (cd_claims db))
     \<Longrightarrow> db1 = db\<lparr>cd_claims := cd_claims db @ [c]\<rparr> \<and> ao_id c \<notin> set (map ao_id (cd_claims db))"
  unfolding insert_claim_def list_ex_iff by (auto split: if_splits simp: image_iff)

lemma of_authority_Inr_iff [simp]: "of_authority r = Inr x \<longleftrightarrow> r = Inr x"
  by (cases r rule: of_authority.cases) simp_all

lemma validate_manual_pos: "validate_manual cmd = Inr amount \<Longrightarrow> 0 < amount"
  by (auto simp: validate_manual_def Let_def split: if_splits)

abbreviation key_hash_of :: "encodings \<Rightarrow> manual_command \<Rightarrow> string" where
  "key_hash_of en cmd \<equiv> en_sha256_hex en (ascii_bytes (mc_idempotency_key cmd))"

text \<open>A completed claim for this request.\<close>

definition recorded :: "encodings \<Rightarrow> financial_scope \<Rightarrow> manual_command \<Rightarrow> manual_outcome \<Rightarrow> console_db \<Rightarrow> bool" where
  "recorded en sc cmd outcome db \<longleftrightarrow>
     (\<exists>c \<in> set (cd_claims db). ao_key_hash c = key_hash_of en cmd \<and> completed_outcome c = Inr (Some outcome)
        \<and> (\<exists>t amount. scope_tenant_id sc = Inr t \<and> validate_manual cmd = Inr amount \<and> request_matches en sc cmd t amount c))"

lemma manual_tx_Inr:
  assumes "manual_balance_in_tx en env sc audit cmd db = Inr (att, db')"
  obtains t amount current db1 where "scope_tenant_id sc = Inr t" "validate_manual cmd = Inr amount"
    "insert_claim (new_claim en env sc cmd t amount) db = Inr db1"
    "(case find_claim (key_hash_of en cmd) t (mc_user_id cmd) (scope_user_id sc) db1 of
        None \<Rightarrow> Inr (Attempt_Decision Manual_Conflict, db1)
      | Some c \<Rightarrow> if \<not> request_matches en sc cmd t amount c then Inr (Attempt_Decision Manual_Conflict, db1)
          else and_then (completed_outcome c) (\<lambda>r. case r of Some outcome \<Rightarrow> Inr (Attempt_Decision (Manual_Completed outcome), db1)
            | None \<Rightarrow> manual_apply env sc current (mc_kind cmd) c db1)) = Inr (att, db')"
  using assms unfolding manual_balance_in_tx_def and_then_Inr_iff of_authority_Inr_iff by blast

lemma new_claim_simps [simp]:
  "ao_key_hash (new_claim en env sc cmd t amount) = key_hash_of en cmd" "ao_id (new_claim en env sc cmd t amount) = ce_claim_id env"
  "ao_completed_at (new_claim en env sc cmd t amount) = None" "completed_outcome (new_claim en env sc cmd t amount) = Inr None"
  "request_matches en sc cmd t amount (new_claim en env sc cmd t amount)" "ao_amount (new_claim en env sc cmd t amount) = amount"
  "ao_tenant_id (new_claim en env sc cmd t amount) = t" "ao_user_id (new_claim en env sc cmd t amount) = mc_user_id cmd"
  "ao_actor_user_id (new_claim en env sc cmd t amount) = scope_user_id sc"
  by (simp_all add: new_claim_def completed_outcome_def request_matches_def matches_request_def Let_def)

lemma request_matches_key:
  "request_matches en sc cmd t amount c \<Longrightarrow> ao_tenant_id c = t \<and> ao_user_id c = mc_user_id cmd \<and> ao_actor_user_id c = scope_user_id sc"
  by (simp add: request_matches_def matches_request_def Let_def)

text \<open>Keys are unique, so the claim of a key is the one a lookup finds.\<close>

lemma find_claim_unique:
  assumes "claims_inv db" "c \<in> set (cd_claims db)"
  shows "find_claim (ao_key_hash c) (ao_tenant_id c) (ao_user_id c) (ao_actor_user_id c) db = Some c"
proof (cases "find_claim (ao_key_hash c) (ao_tenant_id c) (ao_user_id c) (ao_actor_user_id c) db")
  case None
  then show ?thesis using assms(2) unfolding find_claim_def find_None_iff by blast
next
  case (Some y)
  note f = find_claim_key [OF Some]
  have "inj_on ao_key_hash (set (cd_claims db))" using assms(1) unfolding claims_inv_def distinct_map by simp
  then show ?thesis using Some f assms(2) by (auto dest: inj_onD)
qed

lemma recorded_iff:
  assumes inv: "claims_inv db" and t: "scope_tenant_id sc = Inr t" and v: "validate_manual cmd = Inr amount"
  shows "recorded en sc cmd outcome db \<longleftrightarrow>
    (\<exists>c. find_claim (key_hash_of en cmd) t (mc_user_id cmd) (scope_user_id sc) db = Some c
       \<and> request_matches en sc cmd t amount c \<and> completed_outcome c = Inr (Some outcome))"
proof
  assume "recorded en sc cmd outcome db"
  then obtain c where c: "c \<in> set (cd_claims db)" "ao_key_hash c = key_hash_of en cmd" "completed_outcome c = Inr (Some outcome)"
      "request_matches en sc cmd t amount c" unfolding recorded_def t v by blast
  have "find_claim (key_hash_of en cmd) t (mc_user_id cmd) (scope_user_id sc) db = Some c"
    using find_claim_unique [OF inv c(1)] request_matches_key [OF c(4)] c(2) by simp
  with c(3,4) show "\<exists>c. find_claim (key_hash_of en cmd) t (mc_user_id cmd) (scope_user_id sc) db = Some c
       \<and> request_matches en sc cmd t amount c \<and> completed_outcome c = Inr (Some outcome)" by blast
qed (use t v in \<open>auto simp: recorded_def dest: find_claim_key\<close>)

text \<open>A transaction on a key that has been used changes nothing, and answers with the recorded outcome of its own request only.\<close>

lemma manual_tx_used:
  assumes inv: "claims_inv db" and ok: "manual_balance_in_tx en env sc audit cmd db = Inr (att, db')"
    and key: "key_hash_of en cmd \<in> set (map ao_key_hash (cd_claims db))"
  obtains d where "db' = db" "att = Attempt_Decision d" "\<forall>outcome. d = Manual_Completed outcome \<longleftrightarrow> recorded en sc cmd outcome db"
proof -
  obtain t amount current db1 where t: "scope_tenant_id sc = Inr t" and v: "validate_manual cmd = Inr amount"
    and ins: "insert_claim (new_claim en env sc cmd t amount) db = Inr db1"
    and rest: "(case find_claim (key_hash_of en cmd) t (mc_user_id cmd) (scope_user_id sc) db1 of
        None \<Rightarrow> Inr (Attempt_Decision Manual_Conflict, db1)
      | Some c \<Rightarrow> if \<not> request_matches en sc cmd t amount c then Inr (Attempt_Decision Manual_Conflict, db1)
          else and_then (completed_outcome c) (\<lambda>r. case r of Some outcome \<Rightarrow> Inr (Attempt_Decision (Manual_Completed outcome), db1)
            | None \<Rightarrow> manual_apply env sc current (mc_kind cmd) c db1)) = Inr (att, db')"
    by (rule manual_tx_Inr [OF ok])
  have same: "db1 = db" using insert_claim_used [OF ins] key by simp
  note rec = recorded_iff [OF inv t v, of en]
  show thesis
  proof (cases "find_claim (key_hash_of en cmd) t (mc_user_id cmd) (scope_user_id sc) db")
    case None
    then have "db' = db" "att = Attempt_Decision Manual_Conflict" using rest unfolding same by simp_all
    then show thesis by (intro that [of Manual_Conflict]) (simp_all add: rec None)
  next
    case (Some c)
    obtain outcome where out: "completed_outcome c = Inr (Some outcome)"
      using inv find_claim_key [OF Some] unfolding claims_inv_def by blast
    then have "db' = db" "att = Attempt_Decision (if request_matches en sc cmd t amount c then Manual_Completed outcome else Manual_Conflict)"
      using rest unfolding same Some by (simp_all split: if_splits)
    then show thesis
      by (intro that [of "if request_matches en sc cmd t amount c then Manual_Completed outcome else Manual_Conflict"])
        (simp_all add: rec Some out)
  qed
qed

lemma manual_movement_step:
  assumes "manual_movement now new_id kind t u amount reason w = (w', r)" "0 < amount"
    "\<And>e. r = Inl e \<Longrightarrow> kind = Manual_Unfreeze \<and> is_insufficient_balance e"
  shows "wallet_step w w'"
proof (cases kind)
  case Manual_Recharge
  then have "w' = fst (recharge new_id t u amount None (Some reason) w)" using assms(1,2) by (simp add: manual_movement_def recharge_def)
  then show ?thesis by (simp only: wallet_step.recharge)
next
  case Manual_Consume
  then have "w' = fst (consume now new_id t u amount None (Some reason) w)" using assms(1,2) by (simp add: manual_movement_def consume_def)
  then show ?thesis by (simp only: wallet_step.consume)
next
  case Manual_Freeze
  then have "w' = fst (freeze now new_id t u amount (Some reason) w)" using assms(1,2) by (simp add: manual_movement_def freeze_def)
  then show ?thesis by (simp only: wallet_step.freeze)
next
  case Manual_Unfreeze
  then have "w' = fst (unfreeze now new_id t u amount (Some reason) w)"
    using assms by (cases r) (simp_all add: manual_movement_def unfreeze_def)
  then show ?thesis by (simp only: wallet_step.unfreeze)
qed

lemma manual_tx_fresh:
  assumes inv: "claims_inv db" and ok: "manual_balance_in_tx en env sc audit cmd db = Inr (att, db')"
    and key: "key_hash_of en cmd \<notin> set (map ao_key_hash (cd_claims db))"
  obtains (denied) e where "att = Repaired_Failure e" "cd_claims db' = cd_claims db" "wallet_step (cd_wallet db) (cd_wallet db')"
  | (completed) c outcome where "att = Attempt_Decision (Manual_Completed outcome)" "cd_claims db' = cd_claims db @ [c]"
      "ao_key_hash c = key_hash_of en cmd" "ao_id c \<notin> set (map ao_id (cd_claims db))" "completed_outcome c = Inr (Some outcome)"
      "recorded en sc cmd outcome db'" "wallet_step (cd_wallet db) (cd_wallet db')"
proof -
  obtain t amount current db1 where t: "scope_tenant_id sc = Inr t" and v: "validate_manual cmd = Inr amount"
    and ins: "insert_claim (new_claim en env sc cmd t amount) db = Inr db1"
    and rest: "(case find_claim (key_hash_of en cmd) t (mc_user_id cmd) (scope_user_id sc) db1 of
        None \<Rightarrow> Inr (Attempt_Decision Manual_Conflict, db1)
      | Some c \<Rightarrow> if \<not> request_matches en sc cmd t amount c then Inr (Attempt_Decision Manual_Conflict, db1)
          else and_then (completed_outcome c) (\<lambda>r. case r of Some outcome \<Rightarrow> Inr (Attempt_Decision (Manual_Completed outcome), db1)
            | None \<Rightarrow> manual_apply env sc current (mc_kind cmd) c db1)) = Inr (att, db')"
    by (rule manual_tx_Inr [OF ok])
  let ?c = "new_claim en env sc cmd t amount"
  have db1: "db1 = db\<lparr>cd_claims := cd_claims db @ [?c]\<rparr>" and i: "ao_id ?c \<notin> set (map ao_id (cd_claims db))"
    using insert_claim_fresh [OF ins] key by simp_all
  have "find (\<lambda>c. ao_key_hash c = key_hash_of en cmd \<and> ao_tenant_id c = t \<and> ao_user_id c = mc_user_id cmd \<and> ao_actor_user_id c = scope_user_id sc)
      (cd_claims db) = None" unfolding find_None_iff using key by (auto simp: image_iff)
  then have fc: "find_claim (key_hash_of en cmd) t (mc_user_id cmd) (scope_user_id sc) db1 = Some ?c"
    unfolding db1 find_claim_def by (simp add: find_append)
  have ap: "manual_apply env sc current (mc_kind cmd) ?c (db\<lparr>cd_claims := cd_claims db @ [?c]\<rparr>) = Inr (att, db')"
    using rest fc db1 by simp
  note pos = validate_manual_pos [OF v]
  show thesis
  proof (rule manual_apply_effect [OF inv i _ _ ap])
    fix e
    assume e: "att = Repaired_Failure e" "mc_kind cmd = Manual_Unfreeze" "is_insufficient_balance e" "cd_claims db' = cd_claims db"
      and mv: "manual_movement (ce_now env) (ce_transaction_id env) (mc_kind cmd) (ao_tenant_id ?c) (ao_user_id ?c) (ao_amount ?c)
        (ao_reason ?c) (cd_wallet db) = (cd_wallet db', Inl e)"
    show thesis by (rule denied [OF e(1,4) manual_movement_step [OF mv]]) (use e pos in simp_all)
  next
    fix c b x outcome
    assume c: "att = Attempt_Decision (Manual_Completed outcome)" "completed_outcome c = Inr (Some outcome)"
        "cd_claims db' = cd_claims db @ [c]" "ao_key_hash c = ao_key_hash ?c" "ao_id c = ao_id ?c"
      and upd: "c = ?c\<lparr>ao_transaction_id := Some (bt_id x), ao_balance_before := Some (bt_before x), ao_balance_after := Some (bt_after x),
             ao_frozen_after := Some (ub_frozen b), ao_completed_at := Some (ce_now env)\<rparr>"
      and mv: "manual_movement (ce_now env) (ce_transaction_id env) (mc_kind cmd) (ao_tenant_id ?c) (ao_user_id ?c) (ao_amount ?c)
        (ao_reason ?c) (cd_wallet db) = (cd_wallet db', Inr (b, x))"
    have "request_matches en sc cmd t amount c"
      unfolding upd using new_claim_simps(5) [of en sc cmd t amount env] by (simp add: request_matches_def matches_request_def Let_def)
    then have r: "recorded en sc cmd outcome db'" unfolding recorded_def using c t v by auto
    show thesis by (rule completed [OF c(1,3) _ _ c(2) r manual_movement_step [OF mv]]) (use c i pos in simp_all)
  qed (use key in simp_all)
qed

lemma apply_manual_cases:
  assumes "apply_admin_manual_operation en env sc audit cmd db = (db', r)"
  obtains (failed) e where "db' = db" "r = Inl e"
  | (tx) att where "manual_balance_in_tx en env sc audit cmd db = Inr (att, db')"
      "r = (case att of Attempt_Decision d \<Rightarrow> Inr d | Repaired_Failure e \<Rightarrow> Inl e)"
proof (cases "and_then (of_authority (require_platform_tenant sc)) (\<lambda>_.
           and_then (ensure (mc_user_id cmd \<noteq> 0) (Wallet_Other ''financial_target_invalid'')) (\<lambda>_.
           and_then (manual_balance_in_tx en env sc audit cmd db) (\<lambda>(attempt, db').
           and_then (actor_now (ce_final_clock env) sc (cd_wallet db')) (\<lambda>_. Inr (attempt, db')))))")
  case (Inl e)
  with assms show thesis by (intro failed) (auto simp: apply_admin_manual_operation_def)
next
  case (Inr p)
  obtain att db2 where p: "p = (att, db2)" by (metis surj_pair)
  have "manual_balance_in_tx en env sc audit cmd db = Inr (att, db2)"
    using Inr unfolding p and_then_Inr_iff by auto
  with assms Inr p show thesis by (intro tx [of att]) (auto simp: apply_admin_manual_operation_def split: manual_attempt.splits)
qed

lemma apply_manual_used:
  assumes "claims_inv db" "key_hash_of en cmd \<in> set (map ao_key_hash (cd_claims db))"
    "apply_admin_manual_operation en env sc audit cmd db = (db', r)"
  shows "db' = db \<and> (\<forall>outcome. r = Inr (Manual_Completed outcome) \<longrightarrow> recorded en sc cmd outcome db)
    \<and> (\<forall>outcome. recorded en sc cmd outcome db \<longrightarrow> (\<exists>e. r = Inl e) \<or> r = Inr (Manual_Completed outcome))"
  using assms(3)
proof (cases rule: apply_manual_cases)
  case (tx att)
  obtain d where "db' = db" "att = Attempt_Decision d" "\<forall>outcome. d = Manual_Completed outcome \<longleftrightarrow> recorded en sc cmd outcome db"
    by (rule manual_tx_used [OF assms(1) tx(1) assms(2)])
  with tx(2) show ?thesis by simp
qed simp

text \<open>The claims only grow, every one of them completed, and the wallet moves by at most one of its own operations.\<close>

lemma apply_manual_keeps:
  assumes inv: "claims_inv db" and r: "apply_admin_manual_operation en env sc audit cmd db = (db', r)"
  shows "claims_inv db' \<and> set (cd_claims db) \<subseteq> set (cd_claims db')
     \<and> (cd_wallet db' = cd_wallet db \<or> wallet_step (cd_wallet db) (cd_wallet db'))
     \<and> (\<forall>outcome. r = Inr (Manual_Completed outcome) \<longrightarrow> recorded en sc cmd outcome db')"
proof (cases "key_hash_of en cmd \<in> set (map ao_key_hash (cd_claims db))")
  case True
  from apply_manual_used [OF inv True r] inv show ?thesis by blast
next
  case False
  from r show ?thesis
  proof (cases rule: apply_manual_cases)
    case (tx att)
    show ?thesis
    proof (cases rule: manual_tx_fresh [OF inv tx(1) False])
      case (1 e)
      then show ?thesis using inv tx(2) by (simp add: claims_inv_def)
    next
      case (2 c outcome)
      then show ?thesis using inv tx(2) False by (simp add: claims_inv_def subset_insertI)
    qed
  qed (use inv in simp)
qed

lemma admin_release_keeps:
  assumes "admin_release env sc audit cmd db = (db', r)"
  shows "cd_claims db' = cd_claims db \<and> (cd_wallet db' = cd_wallet db \<or> wallet_step (cd_wallet db) (cd_wallet db'))"
proof (cases r)
  case (Inl e)
  then have "db' = db" using assms by (auto simp: admin_release_def Let_def split: sum.splits)
  then show ?thesis by simp
next
  case (Inr res)
  then obtain t chk w where rel: "release_recovery (ce_app_now env) (ce_now env) t (scope_user_id sc) (sc_access sc = Tenant_Admin) chk cmd
        (cd_wallet db) = Inr (res, w)" and w: "cd_wallet db' = w" "cd_claims db' = cd_claims db"
    using assms by (auto simp: admin_release_def Let_def and_then_Inr_iff split: sum.splits option.splits if_splits)
  have "w = fst (in_transaction (cd_wallet db) (release_recovery (ce_app_now env) (ce_now env) t (scope_user_id sc)
      (sc_access sc = Tenant_Admin) chk cmd (cd_wallet db)))" unfolding rel by (simp add: in_transaction_def)
  then have "wallet_step (cd_wallet db) w" by (simp only: wallet_step.recovery)
  with w show ?thesis by simp
qed

lemma console_step_keeps:
  assumes "console_step en db db'" "claims_inv db"
  shows "claims_inv db' \<and> set (cd_claims db) \<subseteq> set (cd_claims db') \<and> (cd_wallet db' = cd_wallet db \<or> wallet_step (cd_wallet db) (cd_wallet db'))"
  using assms
proof cases
  case (wallet w)
  then show ?thesis using assms(2) by (simp add: claims_inv_def)
next
  case (manual env sc audit cmd)
  then show ?thesis using apply_manual_keeps [OF assms(2) prod.collapse [symmetric]] by blast
next
  case (release env sc audit cmd)
  note k = admin_release_keeps [OF prod.collapse [symmetric], of env sc audit cmd db]
  then show ?thesis using assms(2) unfolding release claims_inv_def by simp
qed

lemma console_reach_inv: "console_reach en db \<Longrightarrow> claims_inv db \<and> wallet_reach (cd_wallet db)"
proof (induction rule: console_reach.induct)
  case (step db db')
  then show ?case using console_step_keeps [OF step(2)] by (auto intro: wallet_reach.step)
qed (simp add: claims_inv_def)

lemma recorded_mono: "recorded en sc cmd outcome db \<Longrightarrow> set (cd_claims db) \<subseteq> set (cd_claims db') \<Longrightarrow> recorded en sc cmd outcome db'"
  unfolding recorded_def by blast

lemma console_steps_keep:
  "(console_step en)\<^sup>*\<^sup>* db db' \<Longrightarrow> claims_inv db \<Longrightarrow> claims_inv db' \<and> set (cd_claims db) \<subseteq> set (cd_claims db')"
  by (induction rule: rtranclp_induct) (use console_step_keeps in blast)+

text \<open>
  C5: a manual operation is applied once. Once a command has answered with a completed outcome, then after any
  further wallet operations and commands, every command with the same idempotency key leaves wallets, claims
  and audit log unchanged; if it answers with a completed outcome it is the recorded one, and a retry of the same
  request by the same administrator for the same tenant is never reported as a conflict.
\<close>

theorem manual_applied_once:
  assumes "console_reach en db" "apply_admin_manual_operation en env sc audit cmd db = (db1, Inr (Manual_Completed outcome))"
    "(console_step en)\<^sup>*\<^sup>* db1 db2" "mc_idempotency_key cmd' = mc_idempotency_key cmd"
    "apply_admin_manual_operation en env' sc' audit' cmd' db2 = (db3, r)"
  shows "db3 = db2 \<and> (\<forall>outcome'. r = Inr (Manual_Completed outcome') \<longrightarrow> outcome' = outcome)
    \<and> (cmd' = cmd \<and> scope_user_id sc' = scope_user_id sc \<and> scope_tenant_id sc' = scope_tenant_id sc \<longrightarrow> r \<noteq> Inr Manual_Conflict)"
proof (intro conjI allI impI)
  have inv: "claims_inv db" using console_reach_inv [OF assms(1)] by simp
  note k1 = apply_manual_keeps [OF inv assms(2)] and k2 = console_steps_keep [OF assms(3)]
  have inv2: "claims_inv db2" and rec: "recorded en sc cmd outcome db2" using k1 k2 recorded_mono by blast+
  obtain c where c: "c \<in> set (cd_claims db2)" "ao_key_hash c = key_hash_of en cmd'" "completed_outcome c = Inr (Some outcome)"
    using rec unfolding recorded_def assms(4) by blast
  have used: "key_hash_of en cmd' \<in> set (map ao_key_hash (cd_claims db2))" using c(1,2) by (metis image_eqI set_map)
  note u = apply_manual_used [OF inv2 used assms(5)]
  show "db3 = db2" using u by blast
  show "outcome' = outcome" if r: "r = Inr (Manual_Completed outcome')" for outcome'
  proof -
    obtain c' where c': "c' \<in> set (cd_claims db2)" "ao_key_hash c' = key_hash_of en cmd'" "completed_outcome c' = Inr (Some outcome')"
      using u r unfolding recorded_def by blast
    have "inj_on ao_key_hash (set (cd_claims db2))" using inv2 unfolding claims_inv_def distinct_map by blast
    then have "c' = c" by (rule inj_onD) (simp_all add: c c')
    then show ?thesis using c(3) c'(3) by simp
  qed
  show "r \<noteq> Inr Manual_Conflict"
    if same: "cmd' = cmd \<and> scope_user_id sc' = scope_user_id sc \<and> scope_tenant_id sc' = scope_tenant_id sc"
  proof -
    have eqs: "cmd' = cmd" "scope_user_id sc' = scope_user_id sc" "scope_tenant_id sc' = scope_tenant_id sc" using same by simp_all
    have "recorded en sc' cmd' outcome db2" using rec unfolding recorded_def request_matches_def eqs .
    then show ?thesis using u by auto
  qed
qed

text \<open>A concrete console: a platform administrator recharges, and sends the same request and another one under the same key.\<close>

definition demo_encodings :: encodings where
  "demo_encodings = \<lparr>en_sha256_hex = (\<lambda>bs. map char_of (drop (length bs - 2) bs)), en_uuid_bytes = (\<lambda>u. [u]), en_decimal_string = (\<lambda>a. [CHR ''D''])\<rparr>"

definition demo_console :: console_db where
  "demo_console =
     \<lparr>cd_wallet = demo_funded\<lparr>wd_tenants := demo_tenants,
        wd_users := \<lparr>us_id = 9, us_status = User_Active, us_platform_role = Root, us_token_version = 3\<rparr> # demo_users,
        wd_members := [demo_membership 1 7 Membership_Active, demo_membership 1 8 Membership_Active]\<rparr>,
      cd_claims = [], cd_audit = []\<rparr>"

definition demo_scope :: financial_scope where
  "demo_scope =
     \<lparr>sc_session = \<lparr>fs_user_id = 9, fs_credential_kind = Jwt, fs_token_version = 3, fs_expires_at = 5000, fs_selected = None\<rparr>,
      sc_access = Platform_Tenant, sc_tenant_id = Some 1, sc_platform_role = Root\<rparr>"

definition demo_audit :: audit_context where
  "demo_audit = \<lparr>ac_actor_user_id = 9, ac_credential_kind = Jwt, ac_platform_role = Root, ac_tenant_role = None, ac_request_id = Some 77\<rparr>"

definition demo_env :: command_env where
  "demo_env = \<lparr>ce_now = 20, ce_app_now = 20, ce_clocks = (1, 2, 3), ce_middle_clock = 4, ce_final_clock = 5, ce_claim_id = 600,
     ce_transaction_id = 700\<rparr>"

definition demo_command :: "rat \<Rightarrow> manual_command" where
  "demo_command amount = \<lparr>mc_kind = Manual_Recharge, mc_user_id = 7, mc_amount = amount, mc_reason = '' refund '', mc_idempotency_key = ''k1''\<rparr>"

definition demo_apply :: "rat \<Rightarrow> console_db \<Rightarrow> console_db \<times> manual_decision wallet_result" where
  "demo_apply amount db = apply_admin_manual_operation demo_encodings demo_env demo_scope demo_audit (demo_command amount) db"

definition demo_outcome :: manual_outcome where
  "demo_outcome = \<lparr>mo_operation_id = 600, mo_operation_type = ''recharge'', mo_tenant_id = 1, mo_user_id = 7, mo_actor_user_id = 9,
     mo_amount = 25, mo_reason = ''refund'', mo_transaction_id = 700, mo_balance_before = 50, mo_balance_after = 75, mo_frozen_after = 0\<rparr>"

lemma demo_console_reach: "console_reach demo_encodings demo_console"
proof (rule console_reach.start)
  show "wallet_reach (cd_wallet demo_console)"
    unfolding demo_console_def console_db.simps by (rule wallet_reach.step [OF demo_reach(2) directory]) (simp add: memberships_ok_def)
qed (simp add: demo_console_def)

lemma demo_command_amount: "validate_manual (demo_command 25) = Inr 25" "validate_manual (demo_command 30) = Inr 30"
  by (simp_all add: validate_manual_def demo_command_def trim_def is_whitespace_def is_control_def)

lemmas demo_apply_unfold = demo_apply_def apply_admin_manual_operation_def manual_balance_in_tx_def demo_command_amount

lemma demo_console_commands:
  "snd (demo_apply 25 demo_console) = Inr (Manual_Completed demo_outcome)"
  "snd (demo_apply 25 (fst (demo_apply 25 demo_console))) = Inr (Manual_Completed demo_outcome)"
  "snd (demo_apply 30 (fst (demo_apply 25 demo_console))) = Inr Manual_Conflict"
  unfolding demo_apply_unfold unfolding demo_command_def manual_command.simps by code_simp+

theorem manual_applied_once_witness:
  "\<exists>db1 db3 r. demo_apply 25 demo_console = (db1, Inr (Manual_Completed demo_outcome))
     \<and> demo_apply 25 db1 = (db3, r) \<and> db3 = db1 \<and> r = Inr (Manual_Completed demo_outcome)
     \<and> demo_apply 30 db1 = (db1, Inr Manual_Conflict)"
proof -
  define db1 where "db1 = fst (demo_apply 25 demo_console)"
  have one: "demo_apply 25 demo_console = (db1, Inr (Manual_Completed demo_outcome))"
    using demo_console_commands(1) by (simp add: db1_def prod_eq_iff)
  note once = manual_applied_once [OF demo_console_reach one [unfolded demo_apply_def] rtranclp.rtrancl_refl]
  have "fst (demo_apply 25 db1) = db1" "fst (demo_apply 30 db1) = db1"
    using once [OF _ prod.collapse [symmetric], of "demo_command 25" demo_env demo_scope demo_audit]
      once [OF _ prod.collapse [symmetric], of "demo_command 30" demo_env demo_scope demo_audit]
    by (simp_all add: demo_apply_def demo_command_def)
  then show ?thesis using one demo_console_commands(2,3) unfolding db1_def [symmetric] by (metis prod.collapse)
qed

section \<open>Administrator pages\<close>

text \<open>
  An administrator who is allowed to see a wallet always gets its page, whatever happened before: the page shows the
  wallet row as stored, splits its frozen funds into the active reservations and a non-negative rest, and lists only active
  reservations of that tenant and user.
\<close>

theorem scoped_page_reads:
  assumes "console_reach en db" "require_admin sc = Inr ()" "scope_tenant_id sc = Inr t" "validate_page_size limit = Inr ()" "u \<noteq> 0"
    "financial_predicate now sc (wd_users (cd_wallet db)) (wd_tenants (cd_wallet db)) (wd_members (cd_wallet db))"
    "has_membership t u (wd_members (cd_wallet db))" "find_balance t u (cd_wallet db) = Some b"
  shows "\<exists>page. find_breakdown_page_in_scope now sc u cursor limit (cd_wallet db) = Inr (Some page)
     \<and> bb_balance (bp_breakdown page) = b \<and> bb_active_reserved (bp_breakdown page) + bb_manually_frozen (bp_breakdown page) = ub_frozen b
     \<and> 0 \<le> bb_active_reserved (bp_breakdown page) \<and> 0 \<le> bb_manually_frozen (bp_breakdown page)
     \<and> length (bp_reservations page) \<le> limit
     \<and> (\<forall>r \<in> set (bp_reservations page). br_key r = (t, u) \<and> br_status r = Active)"
proof -
  let ?w = "cd_wallet db"
  have inv: "wallet_inv ?w" using console_reach_inv [OF assms(1)] wallet_reach_inv by blast
  have held: "active_total_by_user t u ?w = held_sum (t, u) ?w"
    by (simp add: active_total_by_user_def held_sum_def conj_assoc)
  have row: "row_off ?w 0 b" "ub_key b = (t, u)" using wallet_inv_row [OF inv assms(8)] by simp_all
  have le: "active_total_by_user t u ?w \<le> ub_frozen b" "0 \<le> active_total_by_user t u ?w"
    using row held_sum_bounds(1) [OF inv] unfolding held by (simp_all add: row_off_def)
  obtain rows nxt where page: "active_page_by_user t u cursor limit ?w = (rows, nxt)" by (metis surj_pair)
  have rows: "length rows \<le> limit" "\<forall>r \<in> set rows. br_key r = (t, u) \<and> br_status r = Active"
    using page by (auto simp: active_page_by_user_def Let_def dest!: in_set_takeD)
  show ?thesis
    using assms(2-8) le rows by (simp add: find_breakdown_page_in_scope_def ensure_def page breakdown_with_active_total_def)
qed

theorem scoped_page_reads_witness:
  "\<exists>page. find_breakdown_page_in_scope 4 demo_scope 7 None 5 (cd_wallet demo_console) = Inr (Some page)
     \<and> bb_active_reserved (bp_breakdown page) + bb_manually_frozen (bp_breakdown page) = 0 \<and> length (bp_reservations page) \<le> 5"
proof -
  have facts: "require_admin demo_scope = Inr ()" "scope_tenant_id demo_scope = Inr 1" "validate_page_size 5 = Inr ()"
    "financial_predicate 4 demo_scope (wd_users (cd_wallet demo_console)) (wd_tenants (cd_wallet demo_console)) (wd_members (cd_wallet demo_console))"
    "has_membership 1 7 (wd_members (cd_wallet demo_console))"
    "find_balance 1 7 (cd_wallet demo_console) = Some \<lparr>ub_tenant_id = 1, ub_user_id = 7, ub_available = 50, ub_frozen = 0, ub_recharged = 50, ub_consumed = 0\<rparr>"
    by code_simp+
  show ?thesis using scoped_page_reads [OF demo_console_reach facts(1-3) _ facts(4-6), of None] by auto
qed

section \<open>Fingerprints\<close>

lemma be_bytes_length [simp]: "length (be_bytes k n) = k"
  by (induction k arbitrary: n) simp_all

lemma be_bytes_inj: "be_bytes k n = be_bytes k m \<Longrightarrow> n < 256 ^ k \<Longrightarrow> m < 256 ^ k \<Longrightarrow> n = m"
proof (induction k arbitrary: n m)
  case (Suc k)
  have "n div 256 = m div 256" using Suc by (intro Suc.IH) (simp_all add: div_less_iff_less_mult mult.commute)
  moreover have "n mod 256 = m mod 256" using Suc.prems(1) by simp
  ultimately show ?case by (metis div_mult_mod_eq)
qed simp

lemma hash_field_prefix:
  assumes "hash_field a @ r = hash_field b @ s" "length a < 2 ^ 64" "length b < 2 ^ 64"
  shows "a = b \<and> r = s"
proof -
  have "be_bytes 8 (length a) = be_bytes 8 (length b) \<and> a @ r = b @ s" using assms(1) by (simp add: hash_field_def)
  moreover have "length a = length b" using calculation assms(2,3) by (intro be_bytes_inj [of 8]) simp_all
  ultimately show ?thesis by simp
qed

lemma hash_fields_inj:
  "concat (map hash_field xs) = concat (map hash_field ys) \<Longrightarrow> length xs = length ys
     \<Longrightarrow> \<forall>f \<in> set xs \<union> set ys. length f < 2 ^ 64 \<Longrightarrow> xs = ys"
proof (induction xs ys rule: list_induct2')
  case (4 x xs y ys)
  have "x = y \<and> concat (map hash_field xs) = concat (map hash_field ys)"
    using 4(2,4) by (intro hash_field_prefix) simp_all
  then show ?case using 4 by simp
qed simp_all

lemma ascii_bytes_inj: "ascii_bytes a = ascii_bytes b \<Longrightarrow> a = b"
  unfolding ascii_bytes_def by (rule map_injective) (auto intro: injI)

text \<open>
  C28: the length in front of every field makes the hashed message of a request unambiguous: requests with the same
  message have the same kind, tenant, wallet owner, administrator, amount and reason, when the encodings of identifiers and
  decimals are injective and no field has 2^64 bytes. So two different requests share a fingerprint only by a collision of the
  digest itself.
\<close>

theorem fingerprint_unambiguous:
  assumes "inj_on (en_uuid_bytes en) {..<2 ^ 128}" "\<forall>i. length (en_uuid_bytes en i) = 16" "inj (en_decimal_string en)"
    "length (en_decimal_string en amount) < 2 ^ 64" "length (en_decimal_string en amount') < 2 ^ 64"
    "length reason \<le> 1000" "length reason' \<le> 1000" "{t, u, actor, t', u', actor'} \<subseteq> {..<2 ^ 128}"
    "fingerprint_message en kind t u actor amount reason = fingerprint_message en kind' t' u' actor' amount' reason'"
  shows "kind = kind' \<and> t = t' \<and> u = u' \<and> actor = actor' \<and> amount = amount' \<and> reason = reason'"
proof -
  let ?tag = "ascii_bytes ''keycompute-admin-balance-operation-v1''"
  let ?xs = "[?tag, ascii_bytes (manual_kind_as_str kind), en_uuid_bytes en t, en_uuid_bytes en u, en_uuid_bytes en actor,
    ascii_bytes (en_decimal_string en amount), ascii_bytes reason]"
  let ?ys = "[?tag, ascii_bytes (manual_kind_as_str kind'), en_uuid_bytes en t', en_uuid_bytes en u', en_uuid_bytes en actor',
    ascii_bytes (en_decimal_string en amount'), ascii_bytes reason']"
  have kinds: "length (manual_kind_as_str k) < 2 ^ 64" for k by (cases k) simp_all
  have "?xs = ?ys"
  proof (rule hash_fields_inj)
    show "\<forall>f \<in> set ?xs \<union> set ?ys. length f < 2 ^ 64"
      using assms(2,4-7) kinds [of kind] kinds [of kind'] by (simp add: ascii_bytes_def)
  qed (use assms(9) in \<open>simp_all add: fingerprint_message_def\<close>)
  then have eqs: "manual_kind_as_str kind = manual_kind_as_str kind'" "en_uuid_bytes en t = en_uuid_bytes en t'"
      "en_uuid_bytes en u = en_uuid_bytes en u'" "en_uuid_bytes en actor = en_uuid_bytes en actor'"
      "en_decimal_string en amount = en_decimal_string en amount'" "reason = reason'"
    by (simp_all add: ascii_bytes_inj)
  have "kind = kind'" using eqs(1) by (cases kind; cases kind') simp_all
  moreover have "t = t'" "u = u'" "actor = actor'" using assms(8) eqs(2-4) by (auto intro: inj_onD [OF assms(1)])
  ultimately show ?thesis using eqs(5,6) injD [OF assms(3)] by blast
qed

theorem fingerprint_unambiguous_witness:
  "let en = \<lparr>en_sha256_hex = map char_of, en_uuid_bytes = be_bytes 16,
         en_decimal_string = (\<lambda>a. if a < 0 then replicate (nat (- a)) CHR ''-'' else replicate (nat a) CHR ''1'')\<rparr>
   in fingerprint_message en Manual_Freeze 1 7 9 25 ''refund'' \<noteq> fingerprint_message en Manual_Unfreeze 1 7 9 25 ''refund''"
proof -
  let ?en = "\<lparr>en_sha256_hex = map char_of, en_uuid_bytes = be_bytes 16,
         en_decimal_string = (\<lambda>a. if a < 0 then replicate (nat (- a)) CHR ''-'' else replicate (nat a) CHR ''1'')\<rparr>"
  have ids: "inj_on (be_bytes 16) {..<2 ^ 128}" by (rule inj_onI) (rule be_bytes_inj [of 16], simp_all)
  have decimals: "inj (\<lambda>a :: int. if a < 0 then replicate (nat (- a)) CHR ''-'' else replicate (nat a) CHR ''1'')"
    by (rule injI) (auto split: if_splits simp: replicate_eq_replicate)
  show ?thesis
    using fingerprint_unambiguous [of ?en 25 25 "''refund''" "''refund''" 1 7 9 1 7 9 Manual_Freeze Manual_Unfreeze] ids decimals
    by (auto simp: Let_def)
qed

end
