(* ===== verification/Wallet_Ledger.thy ===== *)
theory Wallet_Ledger
  imports Wallet_Correct
begin

text \<open>
  The ledger of the wallets only grows: every operation keeps the entries it finds and appends its own. The
  entries a payment order owns, recharges that name an order, come from \<open>recharge\<close> with that order only.
\<close>

definition order_free :: "balance_transaction \<Rightarrow> bool" where
  "order_free x \<longleftrightarrow> bt_type x \<noteq> Recharge \<or> bt_order_id x = None"

definition ledger_grows :: "(balance_transaction \<Rightarrow> bool) \<Rightarrow> wallet_db \<Rightarrow> wallet_db \<Rightarrow> bool" where
  "ledger_grows P db db' \<longleftrightarrow> (\<exists>new. wd_transactions db' = wd_transactions db @ new \<and> list_all P new)"

lemma ledger_grows_refl [simp]: "ledger_grows P db db"
  unfolding ledger_grows_def by (rule exI [of _ "[]"]) simp

lemma ledger_grows_same: "wd_transactions db' = wd_transactions db \<Longrightarrow> ledger_grows P db db'"
  unfolding ledger_grows_def by (rule exI [of _ "[]"]) simp

lemma ledger_grows_trans: "ledger_grows P db db1 \<Longrightarrow> ledger_grows P db1 db2 \<Longrightarrow> ledger_grows P db db2"
  unfolding ledger_grows_def by (metis append_assoc list_all_append)

lemma ledger_grows_in_transaction:
  assumes "\<And>x db'. r = Inr (x, db') \<Longrightarrow> ledger_grows P db db'"
  shows "ledger_grows P db (fst (in_transaction db r))"
  using assms by (auto simp: in_transaction_def split: sum.split)

section \<open>Statements\<close>

lemma update_balance_ledger: "update_balance t u f db = Inr (b, db') \<Longrightarrow> wd_transactions db' = wd_transactions db"
  by (auto simp: update_balance_def and_then_Inr_iff split: option.splits)

lemma insert_balance_ledger: "insert_balance b db = Inr (b', db') \<Longrightarrow> wd_transactions db' = wd_transactions db"
  by (auto simp: insert_balance_def and_then_Inr_iff)

lemma insert_reservation_ledger: "insert_reservation r db = Inr (r', db') \<Longrightarrow> wd_transactions db' = wd_transactions db"
  by (auto simp: insert_reservation_def split: if_splits)

lemma update_reservations_ledger: "update_reservations w f db = Inr (rows, db') \<Longrightarrow> wd_transactions db' = wd_transactions db"
  by (auto simp: update_reservations_def Let_def split: if_splits)

lemma create_internal_ledger:
  "create_internal i t u order_id usage_log_id typ amount before after description db = Inr (x, db')
     \<Longrightarrow> wd_transactions db' = wd_transactions db @ [x] \<and> bt_type x = typ \<and> bt_order_id x = order_id
       \<and> bt_key x = (t, u) \<and> bt_amount x = amount"
  by (auto simp: create_internal_def Let_def split: if_splits)

lemma reclaim_balances_ledger: "reclaim_balances m bs db = Inr (bs', db') \<Longrightarrow> wd_transactions db' = wd_transactions db"
  by (induction m bs db arbitrary: bs' rule: reclaim_balances.induct)
    (auto simp: and_then_Inr_iff update_balance_ledger split: option.splits if_splits)

lemma reclaim_inner_ledger: "reclaim_expired_inner isolate now bs db = Inr (st, db') \<Longrightarrow> wd_transactions db' = wd_transactions db"
  unfolding reclaim_expired_inner_def reclaim_valid_def Let_def
  by (auto simp: and_then_Inr_iff dest!: update_reservations_ledger reclaim_balances_ledger split: if_splits)

lemma reclaim_locked_ledger: "reclaim_locked now b db = Inr (x, db') \<Longrightarrow> wd_transactions db' = wd_transactions db"
  unfolding reclaim_locked_def by (auto simp: and_then_Inr_iff dest: reclaim_inner_ledger)

lemma locked_wallet_ledger: "locked_wallet now t u db = Inr (x, db') \<Longrightarrow> wd_transactions db' = wd_transactions db"
  unfolding locked_wallet_def by (auto simp: and_then_Inr_iff dest: reclaim_locked_ledger)

lemma move_to_frozen_ledger: "move_to_frozen t u d db = Inr db' \<Longrightarrow> wd_transactions db' = wd_transactions db"
  unfolding move_to_frozen_def by (auto simp: and_then_Inr_iff dest: update_balance_ledger split: if_splits)

lemma settle_rows_ledger: "settle_rows now l i db = Inr db' \<Longrightarrow> wd_transactions db' = wd_transactions db"
  unfolding settle_rows_def by (auto simp: and_then_Inr_iff dest: update_reservations_ledger)

lemma reserve_rows_ledger: "reserve_rows now i t u q o' e r a db = Inr (x, db') \<Longrightarrow> wd_transactions db' = wd_transactions db"
  unfolding reserve_rows_def
  by (auto simp: and_then_Inr_iff dest: update_reservations_ledger insert_reservation_ledger split: option.splits)

lemma record_movement_ledger:
  assumes "record_movement i t u l typ a b f description db = Inr (x, db')"
  shows "ledger_grows order_free db db'"
proof -
  obtain b1 db1 y where "update_balance t u f db = Inr (b1, db1)"
    and y: "create_internal i t u None l typ a (ub_available b) (ub_available b + a) description db1 = Inr (y, db')"
    using assms unfolding record_movement_def by (auto simp: and_then_Inr_iff)
  then have "wd_transactions db' = wd_transactions db @ [y]" "bt_order_id y = None"
    using update_balance_ledger create_internal_ledger [OF y] by simp_all
  then show ?thesis unfolding ledger_grows_def order_free_def by (intro exI [of _ "[y]"]) simp
qed

section \<open>Operations\<close>

lemma consume_in_tx_ledger:
  assumes "consume_in_tx now i t u a l d db = Inr (x, db')"
  shows "ledger_grows order_free db db'"
proof -
  let ?f = "\<lambda>y. y\<lparr>ub_available := ub_available y - a, ub_consumed := ub_consumed y + a\<rparr>"
  obtain b ar db1 where p: "locked_wallet now t u db = Inr ((b, ar), db1)"
    and rest: "(case (case l of None \<Rightarrow> None | Some l \<Rightarrow> find_consumption_by_usage_log l db1) of
            Some x \<Rightarrow> if bt_user_id x \<noteq> u \<or> bt_amount x \<noteq> - a
              then Inl (Wallet_Other ''usage log is already bound to a different balance consumption'') else Inr ((b, x), db1)
          | None \<Rightarrow> if ub_available b < a \<and> l = None then Inl (Wallet_Insufficient a (ub_available b))
              else record_movement i t u l Consume (- a) b ?f d db1) = Inr (x, db')"
    using assms unfolding consume_in_tx_def Let_def by (auto simp: and_then_Inr_iff)
  have same: "ledger_grows order_free db db1" by (rule ledger_grows_same [OF locked_wallet_ledger [OF p]])
  show ?thesis
  proof (cases "case l of None \<Rightarrow> None | Some l \<Rightarrow> find_consumption_by_usage_log l db1")
    case None
    then show ?thesis using rest ledger_grows_trans [OF same record_movement_ledger] by (simp split: if_splits)
  next
    case (Some y)
    then show ?thesis using rest same by (simp split: if_splits)
  qed
qed

lemma freeze_in_tx_ledger: "freeze_in_tx now i t u a d db = Inr (x, db') \<Longrightarrow> ledger_grows order_free db db'"
  unfolding freeze_in_tx_def
  by (auto simp: and_then_Inr_iff split: if_splits
      intro: ledger_grows_trans [OF ledger_grows_same [OF locked_wallet_ledger] record_movement_ledger])

lemma unfreeze_in_tx_ledger: "ledger_grows order_free db (fst (unfreeze_in_tx now i t u a d db))"
proof (cases "locked_wallet now t u db")
  case (Inr p)
  obtain b ar db1 where p: "p = ((b, ar), db1)" by (metis surj_pair)
  have same: "ledger_grows order_free db db1" by (rule ledger_grows_same [OF locked_wallet_ledger [OF Inr [unfolded p]]])
  have "ledger_grows order_free db1 (fst (in_transaction db1 (record_movement i t u None Unfreeze a b f d db1)))" for f
    by (rule ledger_grows_in_transaction) (rule record_movement_ledger)
  then show ?thesis using same Inr p by (auto simp: unfreeze_in_tx_def intro: ledger_grows_trans)
qed (simp add: unfreeze_in_tx_def)

lemma unfreeze_ledger: "ledger_grows order_free db (fst (unfreeze now i t u a d db))"
  using unfreeze_in_tx_ledger [of db now i t u a d] unfolding unfreeze_def by (auto split: prod.splits sum.splits)

lemma credit_tips_ledger:
  assumes "credit_tips i u t a d db = Inr (x, db')"
  shows "ledger_grows order_free db db'"
proof -
  obtain b db1 y where row: "(case find_balance t u db of
          None \<Rightarrow> insert_balance ((new_balance t u)\<lparr>ub_available := a, ub_recharged := a\<rparr>) db
        | Some _ \<Rightarrow> and_then (update_balance t u
              (\<lambda>y. y\<lparr>ub_available := ub_available y + a, ub_recharged := ub_recharged y + a\<rparr>) db)
            (\<lambda>(b', db1). and_then (ok_or b' (Wallet_Other ''credit_tips upsert failed'')) (\<lambda>b''. Inr (b'', db1)))) = Inr (b, db1)"
    and y: "create_internal i t u None None Tip_Credit a (ub_available b - a) (ub_available b) d db1 = Inr (y, db')"
    using assms unfolding credit_tips_def by (auto simp: and_then_Inr_iff)
  have "wd_transactions db1 = wd_transactions db"
    using row by (auto simp: and_then_Inr_iff dest: insert_balance_ledger update_balance_ledger split: option.splits)
  then have "wd_transactions db' = wd_transactions db @ [y]" "bt_type y = Tip_Credit"
    using create_internal_ledger [OF y] by simp_all
  then show ?thesis unfolding ledger_grows_def order_free_def by (intro exI [of _ "[y]"]) simp
qed

lemma recharge_in_tx_ledger:
  assumes "recharge_in_tx i t u a order_id d db = Inr ((b, y), db')"
  shows "wd_transactions db' = wd_transactions db @ [y] \<and> bt_type y = Recharge \<and> bt_order_id y = order_id
     \<and> bt_key y = (t, u) \<and> bt_amount y = a"
proof -
  obtain b2 db1 b1 db2 where row: "(case find_balance t u db of Some b \<Rightarrow> Inr (b, db)
        | None \<Rightarrow> if has_membership t u (wd_members db) then insert_balance (new_balance t u) db else Inl Wallet_Foreign_Key) = Inr (b2, db1)"
    and "update_balance t u (\<lambda>y. y\<lparr>ub_available := ub_available y + a, ub_recharged := ub_recharged y + a\<rparr>) db1 = Inr (b1, db2)"
    and y: "create_internal i t u order_id None Recharge a (ub_available b2) (ub_available b2 + a) d db2 = Inr (y, db')"
    using assms unfolding recharge_in_tx_def by (auto simp: and_then_Inr_iff)
  moreover have "wd_transactions db1 = wd_transactions db"
    using row by (auto dest: insert_balance_ledger split: option.splits if_splits)
  ultimately show ?thesis using update_balance_ledger create_internal_ledger [OF y] by simp
qed

lemma recharge_ledger: "ledger_grows order_free db (fst (recharge i t u a None d db))"
proof -
  have "ledger_grows order_free db db'" if "recharge_in_tx i t u a None d db = Inr (x, db')" for x db'
  proof -
    obtain b y where x: "x = (b, y)" by (metis surj_pair)
    show ?thesis unfolding ledger_grows_def order_free_def using recharge_in_tx_ledger [OF that [unfolded x]]
      by (intro exI [of _ "[y]"]) simp
  qed
  then show ?thesis unfolding recharge_def by (auto intro: ledger_grows_in_transaction)
qed

lemma reserve_in_tx_ledger: "reserve_in_tx now i t u q o' r m e db = Inr (x, db') \<Longrightarrow> wd_transactions db' = wd_transactions db"
  unfolding reserve_in_tx_def
  by (auto simp: and_then_Inr_iff dest!: reclaim_locked_ledger move_to_frozen_ledger reserve_rows_ledger)

lemma settle_charge_ledger:
  assumes "settle_charge now i r b a l d db = Inr (x, db')"
  shows "ledger_grows order_free db db'"
proof -
  obtain b1 db1 before after y db2 f where "update_balance (br_tenant_id r) (br_user_id r) f db = Inr (b1, db1)"
    and y: "create_internal i (br_tenant_id r) (br_user_id r) None (Some l) Consume (- a) before after d db1 = Inr (y, db2)"
    and "settle_rows now l (br_request_id r) db2 = Inr db'"
    using assms unfolding settle_charge_def Let_def case_prod_unfold by (auto simp: and_then_Inr_iff)
  then have "wd_transactions db' = wd_transactions db @ [y]" "bt_order_id y = None"
    using update_balance_ledger settle_rows_ledger create_internal_ledger [OF y] by simp_all
  then show ?thesis unfolding ledger_grows_def order_free_def by (intro exI [of _ "[y]"]) simp
qed

lemma settle_charged_ledger: "settle_charged now r y a l db = Inr (x, db') \<Longrightarrow> wd_transactions db' = wd_transactions db"
  unfolding settle_charged_def
  by (auto simp: and_then_Inr_iff dest!: update_balance_ledger settle_rows_ledger split: if_splits)

lemma settle_in_tx_ledger: "settle_in_tx now i t u q o' a l d db = Inr (x, db') \<Longrightarrow> ledger_grows order_free db db'"
  unfolding settle_in_tx_def settle_replay_def
  by (auto simp: and_then_Inr_iff split: if_splits option.splits
      intro: settle_charge_ledger ledger_grows_same [OF settle_charged_ledger])

lemma release_in_tx_ledger: "release_in_tx now t u q o' db = Inr (x, db') \<Longrightarrow> wd_transactions db' = wd_transactions db"
  unfolding release_in_tx_def
  by (auto simp: and_then_Inr_iff dest!: move_to_frozen_ledger update_reservations_ledger split: if_splits)

lemma release_recovery_ledger:
  "release_recovery app_now now t who adm chk cmd db = Inr (x, db') \<Longrightarrow> wd_transactions db' = wd_transactions db"
  unfolding release_recovery_def Let_def
  by (auto simp: and_then_Inr_iff dest!: update_balance_ledger update_reservations_ledger split: if_splits)

section \<open>Histories\<close>

lemma order_recharge_ledger: "ledger_grows (\<lambda>_. True) db (fst (recharge i t u a order_id d db))"
proof -
  have "ledger_grows (\<lambda>_. True) db db'" if "recharge_in_tx i t u a order_id d db = Inr (x, db')" for x db'
  proof -
    obtain b y where x: "x = (b, y)" by (metis surj_pair)
    show ?thesis unfolding ledger_grows_def using recharge_in_tx_ledger [OF that [unfolded x]] by (intro exI [of _ "[y]"]) simp
  qed
  then show ?thesis unfolding recharge_def by (auto intro: ledger_grows_in_transaction)
qed

lemmas ledger_lemmas =
  insert_balance_ledger reclaim_locked_ledger reclaim_inner_ledger reserve_in_tx_ledger release_in_tx_ledger release_recovery_ledger

text \<open>Every wallet operation except a recharge for an order appends entries that name no order.\<close>

lemma wallet_step_ledger:
  assumes "wallet_step db db'" "\<And>i t u a o' d. db' \<noteq> fst (recharge i t u a (Some o') d db)"
  shows "ledger_grows order_free db db'"
  using assms
proof cases
  case (recharge i t u a order_id d)
  then show ?thesis using assms(2) recharge_ledger by (cases order_id) auto
next
  case (unfreeze now i t u a d)
  then show ?thesis using unfreeze_ledger by simp
next
  case (credit_tips i u t a d)
  then show ?thesis by (auto intro: ledger_grows_in_transaction credit_tips_ledger)
next
  case (consume now i t u a l d)
  then show ?thesis unfolding consume_def by (auto intro!: ledger_grows_in_transaction intro: consume_in_tx_ledger)
next
  case (freeze now i t u a d)
  then show ?thesis unfolding freeze_def by (auto intro!: ledger_grows_in_transaction intro: freeze_in_tx_ledger)
next
  case (settle now i t u q o' a l d)
  then show ?thesis unfolding settle_def
    by (auto intro!: ledger_grows_in_transaction intro: settle_in_tx_ledger split: option.splits)
next
  case (settle_located q r t u now i o' a l d)
  then show ?thesis by (auto intro!: ledger_grows_in_transaction intro: settle_in_tx_ledger)
qed (auto simp: get_or_create_def balance_reserve_def balance_release_def find_by_user_reclaiming_expired_def
      find_breakdown_by_user_def find_breakdown_page_by_user_def find_by_users_reclaiming_expired_def reclaim_expired_def
      and_then_Inr_iff Let_def case_prod_unfold
      intro!: ledger_grows_in_transaction dest!: ledger_lemmas intro: ledger_grows_same split: option.splits sum.splits if_splits)

lemma ledger_grows_weaken: "ledger_grows P db db' \<Longrightarrow> ledger_grows (\<lambda>_. True) db db'"
  unfolding ledger_grows_def by (auto simp: list_all_iff)

lemma wallet_step_grows: "wallet_step db db' \<Longrightarrow> ledger_grows (\<lambda>_. True) db db'"
  using wallet_step_ledger ledger_grows_weaken order_recharge_ledger by metis

text \<open>
  C32: the ledger is append-only: whatever operations run, the entries that were there stay, unchanged and in their order.
\<close>

theorem ledger_append_only:
  assumes "wallet_step\<^sup>*\<^sup>* db db'"
  shows "\<exists>new. wd_transactions db' = wd_transactions db @ new"
proof -
  have "ledger_grows (\<lambda>_. True) db db'" using assms
    by (induction rule: rtranclp_induct) (auto intro: ledger_grows_trans wallet_step_grows)
  then show ?thesis unfolding ledger_grows_def by blast
qed

theorem ledger_append_only_witness:
  "\<exists>new. wd_transactions demo_settled = wd_transactions demo_funded @ new \<and> length (wd_transactions demo_settled) = 2"
proof -
  have "wallet_step\<^sup>*\<^sup>* demo_funded demo_reserved"
    unfolding demo_reserved_def
    by (rule converse_rtranclp_into_rtranclp, rule wallet_step.reserve, rule r_into_rtranclp, rule wallet_step.reserve)
  moreover have "wallet_step demo_reserved demo_settled" unfolding demo_settled_def by (rule wallet_step.settle)
  ultimately have "wallet_step\<^sup>*\<^sup>* demo_funded demo_settled" by (rule rtranclp.rtrancl_into_rtrancl)
  then have "\<exists>new. wd_transactions demo_settled = wd_transactions demo_funded @ new" by (rule ledger_append_only)
  moreover have "length (wd_transactions demo_settled) = 2" by code_simp
  ultimately show ?thesis by blast
qed

end
