(* ===== verification/Payment.thy ===== *)
theory Payment
  imports Wallet_Ledger Complex_Main
begin

text \<open>
  Payment orders (\<open>crates/keycompute-db/src/models/payment_order.rs\<close> and \<open>payment_order_scope.rs\<close>): the order and
  notification tables beside the wallet tables, the life cycle of an order, the transaction that credits a paid
  order to its wallet, and the scoped reads. A JSON payload is its serialised text, its digest an argument. Columns no
  statement here reads (the display payload, the last error, remarks) are left out.
\<close>

section \<open>Data\<close>

datatype payment_status = Order_Pending | Order_Paid | Order_Failed | Order_Closed

fun payment_status_as_str :: "payment_status \<Rightarrow> string" where
  "payment_status_as_str Order_Pending = ''pending''"
| "payment_status_as_str Order_Paid = ''paid''"
| "payment_status_as_str Order_Failed = ''failed''"
| "payment_status_as_str Order_Closed = ''closed''"

definition payment_status_parse :: "string \<Rightarrow> payment_status option" where
  "payment_status_parse s =
     (if s = ''pending'' then Some Order_Pending else if s = ''paid'' then Some Order_Paid
      else if s = ''failed'' then Some Order_Failed else if s = ''closed'' then Some Order_Closed else None)"

datatype payment_method = Alipay | Wechat_Pay

fun payment_method_as_str :: "payment_method \<Rightarrow> string" where
  "payment_method_as_str Alipay = ''alipay''"
| "payment_method_as_str Wechat_Pay = ''wechatpay''"

definition payment_method_parse :: "string \<Rightarrow> payment_method option" where
  "payment_method_parse s =
     (if s = ''alipay'' then Some Alipay else if s = ''wechatpay'' then Some Wechat_Pay else None)"

record payment_order =
  po_id :: uuid
  po_tenant_id :: uuid
  po_user_id :: uuid
  po_out_trade_no :: string
  po_trade_no :: "string option"
  po_provider_trade_no :: "string option"
  po_amount :: money
  po_status :: payment_status
  po_method :: payment_method
  po_scene :: string
  po_subject :: string
  po_body :: "string option"
  po_paid_at :: "datetime option"
  po_closed_at :: "datetime option"
  po_expired_at :: datetime
  po_pay_url :: "string option"
  po_notify_data :: "string option"
  po_created_at :: datetime

record payment_notification =
  pn_method :: payment_method
  pn_event_id :: string
  pn_order_id :: "uuid option"
  pn_out_trade_no :: string
  pn_processing_status :: string
  pn_payload_digest :: string
  pn_processed_at :: "datetime option"

record payment_db =
  pd_wallet :: wallet_db
  pd_orders :: "payment_order list"
  pd_notifications :: "payment_notification list"

record create_payment_order_request =
  cp_tenant_id :: uuid
  cp_user_id :: uuid
  cp_amount :: rat
  cp_subject :: string
  cp_body :: "string option"
  cp_method :: payment_method
  cp_scene :: string
  cp_expired_at :: datetime

datatype order_error = Order_Db wallet_error | Order_Status_Invalid string payment_status

datatype credit_error =
    Credit_Database wallet_error
  | Credit_Order_Not_Found
  | Credit_Notification_Conflict
  | Credit_Provider_Identity_Mismatch
  | Credit_Invalid_Order_Status payment_status
  | Credit_Concurrent_Transition

section \<open>Orders\<close>

definition is_payable :: "datetime \<Rightarrow> payment_order \<Rightarrow> bool" where
  "is_payable now o' \<longleftrightarrow> po_status o' = Order_Pending \<and> now < po_expired_at o'"

definition order_is_expired :: "datetime \<Rightarrow> payment_order \<Rightarrow> bool" where
  "order_is_expired now o' \<longleftrightarrow> po_expired_at o' \<le> now"

definition find_order :: "uuid \<Rightarrow> payment_db \<Rightarrow> payment_order option" where
  "find_order i db = find (\<lambda>o'. po_id o' = i) (pd_orders db)"

definition find_by_out_trade_no :: "string \<Rightarrow> payment_db \<Rightarrow> payment_order option" where
  "find_by_out_trade_no s db = find (\<lambda>o'. po_out_trade_no o' = s) (pd_orders db)"

definition find_by_trade_no :: "string \<Rightarrow> payment_db \<Rightarrow> payment_order option" where
  "find_by_trade_no s db = find (\<lambda>o'. po_trade_no o' = Some s) (pd_orders db)"

text \<open>
  A value of a \<open>VARCHAR(n)\<close> column, and of the \<open>DECIMAL(12, 2)\<close> column, which rounds half away from zero. A text that is too long
  only by trailing spaces, which the database would cut off and store, is rejected here like any other.
\<close>

definition varchar :: "nat \<Rightarrow> string \<Rightarrow> unit wallet_result" where
  "varchar n s = ensure (length s \<le> n) (Wallet_Other ''value too long for type character varying'')"

definition to_cents :: "rat \<Rightarrow> money" where
  "to_cents a = (if a < 0 then - 1 else 1) * \<lfloor>\<bar>a\<bar> / 10 ^ 8 + 1 / 2\<rfloor> * 10 ^ 8"

definition cents :: "rat \<Rightarrow> money wallet_result" where
  "cents a = and_then (ensure (\<bar>to_cents a\<bar> < 10 ^ 20) Wallet_Numeric_Overflow) (\<lambda>_. Inr (to_cents a))"

definition insert_order :: "payment_order \<Rightarrow> payment_db \<Rightarrow> (payment_order \<times> payment_db) wallet_result" where
  "insert_order o' db =
     (if po_id o' \<in> set (map po_id (pd_orders db)) \<or> po_out_trade_no o' \<in> set (map po_out_trade_no (pd_orders db))
      then Inl Wallet_Duplicate_Key
      else if \<not> has_membership (po_tenant_id o') (po_user_id o') (wd_members (pd_wallet db)) then Inl Wallet_Foreign_Key
      else Inr (o', db\<lparr>pd_orders := pd_orders db @ [o']\<rparr>))"

definition new_order :: "datetime \<Rightarrow> uuid \<Rightarrow> create_payment_order_request \<Rightarrow> string \<Rightarrow> string \<Rightarrow> money \<Rightarrow> payment_order" where
  "new_order now new_id req out_trade_no pay_url amount =
     \<lparr>po_id = new_id, po_tenant_id = cp_tenant_id req, po_user_id = cp_user_id req, po_out_trade_no = out_trade_no, po_trade_no = None,
      po_provider_trade_no = None, po_amount = amount, po_status = Order_Pending, po_method = cp_method req, po_scene = cp_scene req,
      po_subject = cp_subject req, po_body = cp_body req, po_paid_at = None, po_closed_at = None, po_expired_at = cp_expired_at req,
      po_pay_url = Some pay_url, po_notify_data = None, po_created_at = now\<rparr>"

definition create_order ::
  "datetime \<Rightarrow> uuid \<Rightarrow> create_payment_order_request \<Rightarrow> string \<Rightarrow> string \<Rightarrow> payment_db \<Rightarrow> payment_db \<times> payment_order wallet_result" where
  "create_order now new_id req out_trade_no pay_url db =
     (let t = cp_tenant_id req; u = cp_user_id req; w = pd_wallet db
      in case and_then (lock_tenant t w) (\<lambda>_.
              and_then (require_member t u w) (\<lambda>_.
              and_then (varchar 64 out_trade_no) (\<lambda>_.
              and_then (varchar 20 (cp_scene req)) (\<lambda>_.
              and_then (varchar 256 (cp_subject req)) (\<lambda>_.
              and_then (cents (cp_amount req)) (\<lambda>amount.
                insert_order (new_order now new_id req out_trade_no pay_url amount) db)))))) of
           Inl e \<Rightarrow> (db, Inl e)
         | Inr (o', db') \<Rightarrow> (db', Inr o'))"

text \<open>\<open>UPDATE payment_orders SET ... WHERE id = i AND status = 'pending' RETURNING *\<close> and its two callers.\<close>

definition update_pending ::
  "uuid \<Rightarrow> (payment_order \<Rightarrow> payment_order) \<Rightarrow> payment_db \<Rightarrow> payment_db \<times> (order_error + payment_order)" where
  "update_pending i f db =
     (case find (\<lambda>o'. po_id o' = i \<and> po_status o' = Order_Pending) (pd_orders db) of
        Some o' \<Rightarrow>
          (db\<lparr>pd_orders := map (\<lambda>x. if po_id x = i \<and> po_status x = Order_Pending then f x else x) (pd_orders db)\<rparr>, Inr (f o'))
      | None \<Rightarrow>
          (db, Inl (case find_order i db of
              Some existing \<Rightarrow> Order_Status_Invalid ''pending'' (po_status existing)
            | None \<Rightarrow> Order_Db (Wallet_Not_Found ''PaymentOrder'' i))))"

definition mark_as_failed :: "uuid \<Rightarrow> payment_db \<Rightarrow> payment_db \<times> (order_error + payment_order)" where
  "mark_as_failed i db = update_pending i (\<lambda>o'. o'\<lparr>po_status := Order_Failed\<rparr>) db"

definition close_order :: "datetime \<Rightarrow> uuid \<Rightarrow> payment_db \<Rightarrow> payment_db \<times> (order_error + payment_order)" where
  "close_order now i db = update_pending i (\<lambda>o'. o'\<lparr>po_status := Order_Closed, po_closed_at := Some now\<rparr>) db"

definition close_expired_orders :: "datetime \<Rightarrow> payment_db \<Rightarrow> payment_db \<times> nat" where
  "close_expired_orders now db =
     (let due = (\<lambda>o'. po_status o' = Order_Pending \<and> po_expired_at o' < now)
      in (db\<lparr>pd_orders := map (\<lambda>o'. if due o' then o'\<lparr>po_status := Order_Closed, po_closed_at := Some now\<rparr> else o') (pd_orders db)\<rparr>,
          length (filter due (pd_orders db))))"

text \<open>\<open>mark_as_paid\<close> is deprecated and has no caller: it marks an order paid whatever its status, without a credit.\<close>

definition mark_as_paid :: "datetime \<Rightarrow> uuid \<Rightarrow> string \<Rightarrow> string \<Rightarrow> payment_db \<Rightarrow> payment_db \<times> (order_error + payment_order)" where
  "mark_as_paid now i trade_no notify_data db =
     (let f = (\<lambda>o'. o'\<lparr>po_status := Order_Paid, po_trade_no := Some trade_no, po_notify_data := Some notify_data, po_paid_at := Some now\<rparr>)
      in case find_order i db of
           None \<Rightarrow> (db, Inl (Order_Db (Wallet_Not_Found ''PaymentOrder'' i)))
         | Some o' \<Rightarrow> (db\<lparr>pd_orders := map (\<lambda>x. if po_id x = i then f x else x) (pd_orders db)\<rparr>, Inr (f o')))"

section \<open>Crediting a paid order\<close>

definition insert_notification :: "payment_notification \<Rightarrow> payment_db \<Rightarrow> payment_db wallet_result" where
  "insert_notification n db =
     and_then (varchar 128 (pn_event_id n)) (\<lambda>_.
     and_then (varchar 64 (pn_payload_digest n)) (\<lambda>_.
       Inr (if list_ex (\<lambda>x. pn_method x = pn_method n \<and> pn_event_id x = pn_event_id n) (pd_notifications db) then db
            else db\<lparr>pd_notifications := pd_notifications db @ [n]\<rparr>)))"

definition find_notification :: "payment_method \<Rightarrow> string \<Rightarrow> payment_db \<Rightarrow> payment_notification option" where
  "find_notification m e db = find (\<lambda>n. pn_method n = m \<and> pn_event_id n = e) (pd_notifications db)"

definition process_notification ::
  "payment_method \<Rightarrow> string \<Rightarrow> (datetime option \<Rightarrow> datetime option) \<Rightarrow> payment_db \<Rightarrow> payment_db" where
  "process_notification m e stamp db =
     db\<lparr>pd_notifications := map (\<lambda>n. if pn_method n = m \<and> pn_event_id n = e
        then n\<lparr>pn_processing_status := ''processed'', pn_processed_at := stamp (pn_processed_at n)\<rparr> else n) (pd_notifications db)\<rparr>"

text \<open>The transition to paid, with the unique index on the provider's transaction and the number of rows it changed.\<close>

definition pay_order :: "datetime \<Rightarrow> string \<Rightarrow> string \<Rightarrow> uuid \<Rightarrow> payment_db \<Rightarrow> (nat \<times> payment_db) wallet_result" where
  "pay_order now trade_no payload i db =
     (let due = (\<lambda>o'. po_id o' = i \<and> po_status o' = Order_Pending);
          f = (\<lambda>o'. o'\<lparr>po_status := Order_Paid, po_trade_no := Some trade_no, po_provider_trade_no := Some trade_no,
                      po_notify_data := Some payload, po_paid_at := Some now\<rparr>);
          rows = map (\<lambda>o'. if due o' then f o' else o') (pd_orders db)
      in and_then (varchar 64 trade_no) (\<lambda>_.
         if \<not> distinct (map (\<lambda>o'. (po_method o', po_provider_trade_no o')) (filter (\<lambda>o'. po_provider_trade_no o' \<noteq> None) rows))
         then Inl Wallet_Duplicate_Key
         else Inr (length (filter due (pd_orders db)), db\<lparr>pd_orders := rows\<rparr>)))"

fun of_db :: "'a wallet_result \<Rightarrow> credit_error + 'a" where
  "of_db (Inl e) = Inl (Credit_Database e)"
| "of_db (Inr x) = Inr x"

definition provider_identity :: "payment_order \<Rightarrow> string option" where
  "provider_identity o' = (case po_provider_trade_no o' of None \<Rightarrow> po_trade_no o' | Some s \<Rightarrow> Some s)"

definition credit_paid_in_tx ::
  "(string \<Rightarrow> string) \<Rightarrow> datetime \<Rightarrow> uuid \<Rightarrow> uuid \<Rightarrow> string \<Rightarrow> string \<Rightarrow> string \<Rightarrow> string \<Rightarrow> payment_db
     \<Rightarrow> credit_error + bool \<times> payment_db" where
  "credit_paid_in_tx digest now new_id order_id trade_no event_id payload description db =
     and_then (ok_or (case find_order order_id db of
         Some o' \<Rightarrow> if has_tenant (po_tenant_id o') (wd_tenants (pd_wallet db)) then Some o' else None | None \<Rightarrow> None)
       Credit_Order_Not_Found) (\<lambda>order_parent.
     and_then (ok_or (find_order order_id db) Credit_Order_Not_Found) (\<lambda>locked.
     and_then (ensure (po_tenant_id locked = po_tenant_id order_parent) Credit_Concurrent_Transition) (\<lambda>_.
     and_then (of_db (insert_notification
         \<lparr>pn_method = po_method locked, pn_event_id = event_id, pn_order_id = Some (po_id locked), pn_out_trade_no = po_out_trade_no locked,
          pn_processing_status = ''received'', pn_payload_digest = digest payload, pn_processed_at = None\<rparr> db)) (\<lambda>db1.
     and_then (ok_or (find_notification (po_method locked) event_id db1) Credit_Notification_Conflict) (\<lambda>notification.
     and_then (ensure (pn_order_id notification = Some (po_id locked) \<and> pn_payload_digest notification = digest payload)
         Credit_Notification_Conflict) (\<lambda>_.
       if po_status locked = Order_Paid then
         (if provider_identity locked \<noteq> Some trade_no
          then Inl Credit_Provider_Identity_Mismatch
          else Inr (False, process_notification (po_method locked) event_id (\<lambda>stamped. if stamped = None then Some now else stamped) db1))
       else if po_status locked \<noteq> Order_Pending then Inl (Credit_Invalid_Order_Status (po_status locked))
       else
         and_then (of_db (pay_order now trade_no payload (po_id locked) db1)) (\<lambda>(rows_affected, db2).
         and_then (ensure (rows_affected = 1) Credit_Concurrent_Transition) (\<lambda>_.
         and_then (of_db (recharge_in_tx new_id (po_tenant_id locked) (po_user_id locked) (po_amount locked) (Some (po_id locked))
             (Some description) (pd_wallet db2))) (\<lambda>(_, w).
           Inr (True, process_notification (po_method locked) event_id (\<lambda>_. Some now) (db2\<lparr>pd_wallet := w\<rparr>)))))))))))"

definition credit_paid ::
  "(string \<Rightarrow> string) \<Rightarrow> datetime \<Rightarrow> uuid \<Rightarrow> uuid \<Rightarrow> string \<Rightarrow> string \<Rightarrow> string \<Rightarrow> string \<Rightarrow> payment_db
     \<Rightarrow> payment_db \<times> (credit_error + bool)" where
  "credit_paid digest now new_id order_id trade_no event_id payload description db =
     (case credit_paid_in_tx digest now new_id order_id trade_no event_id payload description db of
        Inl e \<Rightarrow> (db, Inl e)
      | Inr (credited, db') \<Rightarrow> (db', Inr credited))"

section \<open>Scoped reads\<close>

text \<open>
  Newest first: \<open>ORDER BY created_at DESC, id DESC\<close>. \<open>find_by_user_in_tenant\<close> leaves the order of equal times open; the model takes
  the same one.
\<close>

definition newest_orders :: "payment_order list \<Rightarrow> payment_order list" where
  "newest_orders rows = rev (sort_key po_created_at (sort_key po_id rows))"

definition find_by_user_in_tenant :: "uuid \<Rightarrow> uuid \<Rightarrow> nat \<Rightarrow> nat \<Rightarrow> payment_db \<Rightarrow> payment_order list" where
  "find_by_user_in_tenant t u limit offset db =
     take limit (drop offset (newest_orders (filter (\<lambda>o'. po_tenant_id o' = t \<and> po_user_id o' = u) (pd_orders db))))"

datatype read_scope =
    Read_Personal tenant_scope
  | Read_Tenant tenant_scope
  | Read_Platform platform_scope
  | Read_Platform_Tenant platform_scope uuid

definition current_tenant_actor :: "bool \<Rightarrow> uuid \<Rightarrow> uuid \<Rightarrow> wallet_db \<Rightarrow> bool" where
  "current_tenant_actor admin t u w \<longleftrightarrow>
     list_ex (\<lambda>m. ms_tenant_id m = t \<and> ms_user_id m = u \<and> ms_status m = Membership_Active
        \<and> user_is_active (ms_user_id m) (wd_users w) \<and> tenant_is_active (ms_tenant_id m) (wd_tenants w)
        \<and> (admin \<longrightarrow> ms_tenant_role m = Tenant_Admin_Role)) (wd_members w)"

definition current_platform_actor :: "uuid \<Rightarrow> wallet_db \<Rightarrow> bool" where
  "current_platform_actor u w \<longleftrightarrow>
     list_ex (\<lambda>a. us_id a = u \<and> us_status a = User_Active \<and> (us_platform_role a = Root \<or> us_platform_role a = Operator)) (wd_users w)"

definition scope_predicate :: "read_scope \<Rightarrow> wallet_db \<Rightarrow> (payment_order \<Rightarrow> bool) wallet_result" where
  "scope_predicate sc w =
     (case sc of
        Read_Personal s \<Rightarrow>
          Inr (\<lambda>o'. po_tenant_id o' = ts_tenant_id s \<and> po_user_id o' = ts_user_id s
             \<and> current_tenant_actor False (ts_tenant_id s) (ts_user_id s) w)
      | Read_Tenant s \<Rightarrow>
          and_then (ensure (ts_tenant_role s = Tenant_Admin_Role) (Wallet_Other ''tenant administrator scope required'')) (\<lambda>_.
            Inr (\<lambda>o'. po_tenant_id o' = ts_tenant_id s \<and> current_tenant_actor True (ts_tenant_id s) (ts_user_id s) w))
      | Read_Platform s \<Rightarrow>
          and_then (ensure (is_platform_admin (ps_platform_role s)) (Wallet_Other ''platform billing scope required'')) (\<lambda>_.
            Inr (\<lambda>o'. current_platform_actor (ps_user_id s) w))
      | Read_Platform_Tenant s t \<Rightarrow>
          and_then (ensure (t \<noteq> 0 \<and> is_platform_admin (ps_platform_role s)) (Wallet_Other ''platform tenant billing scope required'')) (\<lambda>_.
            Inr (\<lambda>o'. po_tenant_id o' = t \<and> current_platform_actor (ps_user_id s) w)))"

definition read_predicate ::
  "read_scope \<Rightarrow> string option \<Rightarrow> uuid option \<Rightarrow> wallet_db \<Rightarrow> (payment_order \<Rightarrow> bool) wallet_result" where
  "read_predicate sc status user w =
     and_then (scope_predicate sc w) (\<lambda>p.
       Inr (\<lambda>o'. p o' \<and> (case status of None \<Rightarrow> True | Some s \<Rightarrow> payment_status_as_str (po_status o') = s)
                    \<and> (case user of None \<Rightarrow> True | Some u \<Rightarrow> po_user_id o' = u)))"

definition scoped_find :: "read_scope \<Rightarrow> (payment_order \<Rightarrow> bool) \<Rightarrow> payment_db \<Rightarrow> payment_order option wallet_result" where
  "scoped_find sc column db = and_then (read_predicate sc None None (pd_wallet db)) (\<lambda>p. Inr (find (\<lambda>o'. p o' \<and> column o') (pd_orders db)))"

definition scoped_list ::
  "nat \<Rightarrow> read_scope \<Rightarrow> string option \<Rightarrow> uuid option \<Rightarrow> int \<Rightarrow> int \<Rightarrow> payment_db \<Rightarrow> payment_order list wallet_result" where
  "scoped_list most sc status user limit offset db =
     and_then (read_predicate sc status user (pd_wallet db)) (\<lambda>p.
       Inr (take (nat (min (max limit 1) (int most))) (drop (nat (max offset 0)) (newest_orders (filter p (pd_orders db))))))"

definition scoped_count :: "read_scope \<Rightarrow> string option \<Rightarrow> uuid option \<Rightarrow> payment_db \<Rightarrow> nat wallet_result" where
  "scoped_count sc status user db =
     and_then (read_predicate sc status user (pd_wallet db)) (\<lambda>p. Inr (length (filter p (pd_orders db))))"

definition find_owned :: "tenant_scope \<Rightarrow> uuid \<Rightarrow> payment_db \<Rightarrow> payment_order option wallet_result" where
  "find_owned s i db = scoped_find (Read_Personal s) (\<lambda>o'. po_id o' = i) db"

definition find_owned_by_out_trade_no :: "tenant_scope \<Rightarrow> string \<Rightarrow> payment_db \<Rightarrow> payment_order option wallet_result" where
  "find_owned_by_out_trade_no s r db = scoped_find (Read_Personal s) (\<lambda>o'. po_out_trade_no o' = r) db"

definition list_owned :: "tenant_scope \<Rightarrow> string option \<Rightarrow> int \<Rightarrow> int \<Rightarrow> payment_db \<Rightarrow> payment_order list wallet_result" where
  "list_owned s status limit offset db = scoped_list 1000 (Read_Personal s) status None limit offset db"

definition count_owned :: "tenant_scope \<Rightarrow> string option \<Rightarrow> payment_db \<Rightarrow> nat wallet_result" where
  "count_owned s status db = scoped_count (Read_Personal s) status None db"

definition find_in_tenant :: "tenant_scope \<Rightarrow> uuid \<Rightarrow> payment_db \<Rightarrow> payment_order option wallet_result" where
  "find_in_tenant s i db = scoped_find (Read_Tenant s) (\<lambda>o'. po_id o' = i) db"

definition list_in_tenant ::
  "tenant_scope \<Rightarrow> string option \<Rightarrow> uuid option \<Rightarrow> int \<Rightarrow> int \<Rightarrow> payment_db \<Rightarrow> payment_order list wallet_result" where
  "list_in_tenant s status user limit offset db = scoped_list 1000 (Read_Tenant s) status user limit offset db"

definition count_in_tenant :: "tenant_scope \<Rightarrow> string option \<Rightarrow> uuid option \<Rightarrow> payment_db \<Rightarrow> nat wallet_result" where
  "count_in_tenant s status user db = scoped_count (Read_Tenant s) status user db"

definition find_platform :: "platform_scope \<Rightarrow> uuid \<Rightarrow> payment_db \<Rightarrow> payment_order option wallet_result" where
  "find_platform s i db = scoped_find (Read_Platform s) (\<lambda>o'. po_id o' = i) db"

definition list_platform ::
  "platform_scope \<Rightarrow> string option \<Rightarrow> uuid option \<Rightarrow> int \<Rightarrow> int \<Rightarrow> payment_db \<Rightarrow> payment_order list wallet_result" where
  "list_platform s status user limit offset db = scoped_list 1000 (Read_Platform s) status user limit offset db"

definition count_platform :: "platform_scope \<Rightarrow> string option \<Rightarrow> uuid option \<Rightarrow> payment_db \<Rightarrow> nat wallet_result" where
  "count_platform s status user db = scoped_count (Read_Platform s) status user db"

definition find_platform_tenant :: "platform_scope \<Rightarrow> uuid \<Rightarrow> uuid \<Rightarrow> payment_db \<Rightarrow> payment_order option wallet_result" where
  "find_platform_tenant s t i db = scoped_find (Read_Platform_Tenant s t) (\<lambda>o'. po_id o' = i) db"

definition list_platform_tenant ::
  "platform_scope \<Rightarrow> uuid \<Rightarrow> string option \<Rightarrow> uuid option \<Rightarrow> int \<Rightarrow> int \<Rightarrow> payment_db \<Rightarrow> payment_order list wallet_result" where
  "list_platform_tenant s t status user limit offset db = scoped_list 1000 (Read_Platform_Tenant s t) status user limit offset db"

definition count_platform_tenant ::
  "platform_scope \<Rightarrow> uuid \<Rightarrow> string option \<Rightarrow> uuid option \<Rightarrow> payment_db \<Rightarrow> nat wallet_result" where
  "count_platform_tenant s t status user db = scoped_count (Read_Platform_Tenant s t) status user db"

text \<open>Reports leave out the payment page, the payload and the texts of an order.\<close>

record payment_report_row =
  pr_id :: uuid
  pr_tenant_id :: uuid
  pr_user_id :: uuid
  pr_amount :: money
  pr_status :: payment_status
  pr_method :: payment_method
  pr_scene :: string
  pr_paid_at :: "datetime option"
  pr_closed_at :: "datetime option"
  pr_expired_at :: datetime
  pr_created_at :: datetime

definition report_columns :: "payment_order \<Rightarrow> payment_report_row" where
  "report_columns o' =
     \<lparr>pr_id = po_id o', pr_tenant_id = po_tenant_id o', pr_user_id = po_user_id o', pr_amount = po_amount o', pr_status = po_status o',
      pr_method = po_method o', pr_scene = po_scene o', pr_paid_at = po_paid_at o', pr_closed_at = po_closed_at o',
      pr_expired_at = po_expired_at o', pr_created_at = po_created_at o'\<rparr>"

definition find_report_in_tenant :: "tenant_scope \<Rightarrow> uuid \<Rightarrow> payment_db \<Rightarrow> payment_report_row option wallet_result" where
  "find_report_in_tenant s i db =
     and_then (scoped_find (Read_Tenant s) (\<lambda>o'. po_id o' = i) db) (\<lambda>r. Inr (map_option report_columns r))"

definition list_report_in_tenant ::
  "tenant_scope \<Rightarrow> string option \<Rightarrow> uuid option \<Rightarrow> int \<Rightarrow> int \<Rightarrow> payment_db \<Rightarrow> payment_report_row list wallet_result" where
  "list_report_in_tenant s status owner limit offset db =
     and_then (scoped_list 100 (Read_Tenant s) status owner limit offset db) (\<lambda>rows. Inr (map report_columns rows))"

definition find_report_platform_tenant :: "platform_scope \<Rightarrow> uuid \<Rightarrow> uuid \<Rightarrow> payment_db \<Rightarrow> payment_report_row option wallet_result" where
  "find_report_platform_tenant s t i db =
     and_then (scoped_find (Read_Platform_Tenant s t) (\<lambda>o'. po_id o' = i) db) (\<lambda>r. Inr (map_option report_columns r))"

definition list_report_platform_tenant ::
  "platform_scope \<Rightarrow> uuid \<Rightarrow> string option \<Rightarrow> uuid option \<Rightarrow> int \<Rightarrow> int \<Rightarrow> payment_db \<Rightarrow> payment_report_row list wallet_result" where
  "list_report_platform_tenant s t status owner limit offset db =
     and_then (scoped_list 100 (Read_Platform_Tenant s t) status owner limit offset db) (\<lambda>rows. Inr (map report_columns rows))"

record payment_order_stats =
  st_total_orders :: nat
  st_total_amount :: money
  st_paid_orders :: nat
  st_paid_amount :: money
  st_pending_orders :: nat
  st_pending_amount :: money

definition order_stats :: "payment_order list \<Rightarrow> payment_order_stats" where
  "order_stats rows =
     (let paid = filter (\<lambda>o'. po_status o' = Order_Paid) rows; pending = filter (\<lambda>o'. po_status o' = Order_Pending) rows
      in \<lparr>st_total_orders = length rows, st_total_amount = sum_list (map po_amount rows), st_paid_orders = length paid,
          st_paid_amount = sum_list (map po_amount paid), st_pending_orders = length pending,
          st_pending_amount = sum_list (map po_amount pending)\<rparr>)"

definition get_user_stats :: "uuid \<Rightarrow> payment_db \<Rightarrow> payment_order_stats" where
  "get_user_stats u db = order_stats (filter (\<lambda>o'. po_user_id o' = u) (pd_orders db))"

definition stats_owned :: "tenant_scope \<Rightarrow> payment_db \<Rightarrow> payment_order_stats wallet_result" where
  "stats_owned s db =
     and_then (read_predicate (Read_Personal s) None None (pd_wallet db)) (\<lambda>p. Inr (order_stats (filter p (pd_orders db))))"

end
