(* ===== verification/Payment_Correct.thy ===== *)
theory Payment_Correct
  imports Payment
begin

text \<open>
  Histories of orders and wallets: a paid order owns exactly one ledger entry, its status is final, repeated and
  conflicting notifications change no wallet, and scoped reads see exactly the orders of their scope.
\<close>

section \<open>Histories\<close>

text \<open>
  The wallet operations of a history are all of them but a recharge for an order: the order of a recharge comes from
  \<open>credit_paid\<close> only (\<open>wallet_step_ledger\<close> shows that every other operation meets the guard). \<open>set_pay_url\<close> is the update of
  the services that create an order.
\<close>

definition set_pay_url :: "uuid \<Rightarrow> string \<Rightarrow> payment_db \<Rightarrow> payment_db" where
  "set_pay_url i url db = db\<lparr>pd_orders := map (\<lambda>o'. if po_id o' = i then o'\<lparr>po_pay_url := Some url\<rparr> else o') (pd_orders db)\<rparr>"

inductive payment_step :: "(string \<Rightarrow> string) \<Rightarrow> payment_db \<Rightarrow> payment_db \<Rightarrow> bool" for digest where
  wallet: "wallet_step (pd_wallet db) w \<Longrightarrow> ledger_grows order_free (pd_wallet db) w \<Longrightarrow> payment_step digest db (db\<lparr>pd_wallet := w\<rparr>)"
| create: "payment_step digest db (fst (create_order now new_id req out_trade_no pay_url db))"
| pay_url: "payment_step digest db (set_pay_url i url db)"
| credit: "payment_step digest db (fst (credit_paid digest now new_id order_id trade_no event_id payload description db))"
| fail: "payment_step digest db (fst (mark_as_failed i db))"
| close: "payment_step digest db (fst (close_order now i db))"
| expire: "payment_step digest db (fst (close_expired_orders now db))"

inductive payment_reach :: "(string \<Rightarrow> string) \<Rightarrow> payment_db \<Rightarrow> bool" for digest where
  start: "wallet_reach (pd_wallet db) \<Longrightarrow> list_all order_free (wd_transactions (pd_wallet db)) \<Longrightarrow> pd_orders db = [] \<Longrightarrow> pd_notifications db = []
    \<Longrightarrow> payment_reach digest db"
| step: "payment_reach digest db \<Longrightarrow> payment_step digest db db' \<Longrightarrow> payment_reach digest db'"

section \<open>What a credit does\<close>

lemma of_db_Inr_iff [simp]: "of_db r = Inr x \<longleftrightarrow> r = Inr x"
  by (cases r) simp_all

lemma find_order_mem: "find_order i db = Some o' \<Longrightarrow> o' \<in> set (pd_orders db) \<and> po_id o' = i"
  unfolding find_order_def by (drule find_Some_mem) simp

lemma process_notification_simps [simp]:
  "pd_wallet (process_notification m e f db) = pd_wallet db" "pd_orders (process_notification m e f db) = pd_orders db"
  by (simp_all add: process_notification_def)

lemma insert_notification_keeps:
  "insert_notification n db = Inr db1 \<Longrightarrow> pd_wallet db1 = pd_wallet db \<and> pd_orders db1 = pd_orders db
     \<and> (\<exists>new. pd_notifications db1 = pd_notifications db @ new)"
  by (auto simp: insert_notification_def and_then_Inr_iff split: if_splits)

abbreviation paid_row :: "datetime \<Rightarrow> string \<Rightarrow> string \<Rightarrow> payment_order \<Rightarrow> payment_order" where
  "paid_row now trade_no payload o' \<equiv> o'\<lparr>po_status := Order_Paid, po_trade_no := Some trade_no, po_provider_trade_no := Some trade_no,
     po_notify_data := Some payload, po_paid_at := Some now\<rparr>"

text \<open>The transaction either finds the order paid and changes only its notification, or pays and credits it.\<close>

lemma credit_paid_cases:
  assumes "credit_paid digest now new_id i trade_no event_id payload description db = (db', r)"
  obtains (failed) e where "db' = db" "r = Inl e"
  | (paid) o' where "r = Inr False" "find_order i db = Some o'" "po_status o' = Order_Paid"
      "provider_identity o' = Some trade_no"
      "pd_wallet db' = pd_wallet db" "pd_orders db' = pd_orders db"
  | (credited) o' b x where "r = Inr True" "find_order i db = Some o'" "po_status o' = Order_Pending"
      "pd_orders db' = map (\<lambda>y. if po_id y = i \<and> po_status y = Order_Pending then paid_row now trade_no payload y else y) (pd_orders db)"
      "distinct (map (\<lambda>y. (po_method y, po_provider_trade_no y)) (filter (\<lambda>y. po_provider_trade_no y \<noteq> None) (pd_orders db')))"
      "recharge_in_tx new_id (po_tenant_id o') (po_user_id o') (po_amount o') (Some i) (Some description) (pd_wallet db)
         = Inr ((b, x), pd_wallet db')" "length trade_no \<le> 64"
proof (cases "credit_paid_in_tx digest now new_id i trade_no event_id payload description db")
  case (Inl e)
  with assms show thesis by (intro failed [of e]) (simp_all add: credit_paid_def)
next
  case (Inr p)
  obtain c db2 where p: "p = (c, db2)" by (metis surj_pair)
  then have eqs: "db' = db2" "r = Inr c" using assms Inr by (simp_all add: credit_paid_def)
  obtain o' n db1 where o': "find_order i db = Some o'"
    and db1: "insert_notification n db = Inr db1"
    and rest: "(if po_status o' = Order_Paid then
         (if provider_identity o' \<noteq> Some trade_no
          then Inl Credit_Provider_Identity_Mismatch
          else Inr (False, process_notification (po_method o') event_id (\<lambda>stamped. if stamped = None then Some now else stamped) db1))
       else if po_status o' \<noteq> Order_Pending then Inl (Credit_Invalid_Order_Status (po_status o'))
       else
         and_then (of_db (pay_order now trade_no payload (po_id o') db1)) (\<lambda>(rows_affected, db2).
         and_then (ensure (rows_affected = 1) Credit_Concurrent_Transition) (\<lambda>_.
         and_then (of_db (recharge_in_tx new_id (po_tenant_id o') (po_user_id o') (po_amount o') (Some (po_id o'))
             (Some description) (pd_wallet db2))) (\<lambda>(_, w).
           Inr (True, process_notification (po_method o') event_id (\<lambda>_. Some now) (db2\<lparr>pd_wallet := w\<rparr>)))))) = Inr (c, db2)"
    using Inr unfolding p credit_paid_in_tx_def and_then_Inr_iff of_db_Inr_iff by (auto simp: and_then_Inr_iff)
  note k = insert_notification_keeps [OF db1] and i = find_order_mem [OF o']
  show thesis
  proof (cases "po_status o' = Order_Paid")
    case True
    with rest have "c = False" "provider_identity o' = Some trade_no"
      "pd_wallet db2 = pd_wallet db1" "pd_orders db2 = pd_orders db1" by (auto split: if_splits)
    with eqs o' True k show thesis by (intro paid [of o']) simp_all
  next
    case False
    then obtain rows db3 b x w where pend: "po_status o' = Order_Pending" and c: "c = True"
      and po: "pay_order now trade_no payload i db1 = Inr (rows, db3)"
      and re: "recharge_in_tx new_id (po_tenant_id o') (po_user_id o') (po_amount o') (Some i) (Some description) (pd_wallet db3) = Inr ((b, x), w)"
      and db2: "db2 = process_notification (po_method o') event_id (\<lambda>_. Some now) (db3\<lparr>pd_wallet := w\<rparr>)"
      using rest i by (auto simp: and_then_Inr_iff split: if_splits)
    have "pd_wallet db3 = pd_wallet db1"
      "pd_orders db3 = map (\<lambda>y. if po_id y = i \<and> po_status y = Order_Pending then paid_row now trade_no payload y else y) (pd_orders db1)"
      "distinct (map (\<lambda>y. (po_method y, po_provider_trade_no y)) (filter (\<lambda>y. po_provider_trade_no y \<noteq> None) (pd_orders db3)))"
      "length trade_no \<le> 64"
      using po by (auto simp: pay_order_def Let_def and_then_Inr_iff varchar_def split: if_splits)
    with eqs o' pend c re k db2 show thesis by (intro credited [of o' b x]) simp_all
  qed
qed

section \<open>Orders and their ledger entries\<close>

definition order_entries :: "uuid \<Rightarrow> wallet_db \<Rightarrow> balance_transaction list" where
  "order_entries i w = filter (\<lambda>x. bt_type x = Recharge \<and> bt_order_id x = Some i) (wd_transactions w)"

definition order_ok :: "wallet_db \<Rightarrow> payment_order \<Rightarrow> bool" where
  "order_ok w o' \<longleftrightarrow>
     (if po_status o' = Order_Paid
      then \<exists>x. order_entries (po_id o') w = [x] \<and> bt_key x = (po_tenant_id o', po_user_id o') \<and> bt_amount x = po_amount o' \<and> 0 < po_amount o'
      else order_entries (po_id o') w = [])"

definition payment_inv :: "payment_db \<Rightarrow> bool" where
  "payment_inv db \<longleftrightarrow> wallet_reach (pd_wallet db) \<and> distinct (map po_id (pd_orders db))
     \<and> (\<forall>o' \<in> set (pd_orders db). order_ok (pd_wallet db) o')
     \<and> (\<forall>i. order_entries i (pd_wallet db) \<noteq> [] \<longrightarrow> i \<in> set (map po_id (pd_orders db)))"

lemma order_entries_free: "ledger_grows order_free w w' \<Longrightarrow> order_entries i w' = order_entries i w"
  unfolding ledger_grows_def order_entries_def order_free_def by (auto simp: list_all_iff filter_empty_conv)

lemma order_entries_recharge:
  "recharge_in_tx new_id t u a (Some i) d w = Inr ((b, x), w') \<Longrightarrow>
     order_entries j w' = order_entries j w @ (if j = i then [x] else []) \<and> bt_key x = (t, u) \<and> bt_amount x = a"
  using recharge_in_tx_ledger unfolding order_entries_def by fastforce

lemma recharge_in_tx_step:
  assumes "recharge_in_tx new_id t u a order_id d w = Inr (x, w')"
  shows "0 < a \<and> wallet_step w w'"
proof -
  have a: "0 < a" using assms by (auto simp: recharge_in_tx_def and_then_Inr_iff)
  then have "w' = fst (recharge new_id t u a order_id d w)" using assms by (simp add: recharge_def in_transaction_def)
  then show ?thesis using a by (simp only: wallet_step.recharge simp_thms)
qed

text \<open>An update that keeps the identity, the owner and the amount of an order, and neither pays nor unpays it.\<close>

definition same_order :: "payment_order \<Rightarrow> payment_order \<Rightarrow> bool" where
  "same_order o1 o2 \<longleftrightarrow> po_id o2 = po_id o1 \<and> po_tenant_id o2 = po_tenant_id o1 \<and> po_user_id o2 = po_user_id o1
     \<and> po_amount o2 = po_amount o1 \<and> (po_status o2 = Order_Paid \<longleftrightarrow> po_status o1 = Order_Paid)"

lemma same_order_refl [simp]: "same_order o' o'"
  by (simp add: same_order_def)

lemma order_ok_same: "same_order o1 o2 \<Longrightarrow> order_ok w o2 = order_ok w o1"
  by (simp add: same_order_def order_ok_def)

lemma order_ok_cong: "order_entries (po_id o') w' = order_entries (po_id o') w \<Longrightarrow> order_ok w' o' = order_ok w o'"
  by (simp only: order_ok_def)

lemma payment_inv_map:
  assumes inv: "payment_inv db" and f: "\<And>o'. same_order o' (f o')"
  shows "payment_inv (db\<lparr>pd_orders := map f (pd_orders db)\<rparr>)"
proof -
  have ids: "map po_id (map f (pd_orders db)) = map po_id (pd_orders db)" using f by (simp add: same_order_def)
  have "\<forall>o' \<in> set (map f (pd_orders db)). order_ok (pd_wallet db) o'"
    using inv order_ok_same [OF f] unfolding payment_inv_def by simp
  moreover have "pd_orders (db\<lparr>pd_orders := map f (pd_orders db)\<rparr>) = map f (pd_orders db)"
    "pd_wallet (db\<lparr>pd_orders := map f (pd_orders db)\<rparr>) = pd_wallet db" by simp_all
  ultimately show ?thesis using inv ids unfolding payment_inv_def by (simp only:) blast
qed

lemma payment_inv_wallet:
  assumes inv: "payment_inv db" and w: "wallet_step (pd_wallet db) w" "ledger_grows order_free (pd_wallet db) w"
  shows "payment_inv (db\<lparr>pd_wallet := w\<rparr>)"
proof -
  have e: "order_entries i w = order_entries i (pd_wallet db)" for i by (rule order_entries_free [OF w(2)])
  have "wallet_reach w" using inv w(1) unfolding payment_inv_def by (blast intro: wallet_reach.step)
  moreover have "order_ok w o' = order_ok (pd_wallet db) o'" for o' by (rule order_ok_cong [OF e])
  ultimately show ?thesis using inv unfolding payment_inv_def by (simp add: e)
qed

lemma create_order_cases:
  assumes "create_order now new_id req out_trade_no pay_url db = (db', r)"
  obtains (failed) e where "db' = db" "r = Inl e"
  | (created) amount where "cents (cp_amount req) = Inr amount" "new_id \<notin> set (map po_id (pd_orders db))"
      "out_trade_no \<notin> set (map po_out_trade_no (pd_orders db))" "length out_trade_no \<le> 64" "length (cp_scene req) \<le> 20" "length (cp_subject req) \<le> 256"
      "has_membership (cp_tenant_id req) (cp_user_id req) (wd_members (pd_wallet db))"
      "db' = db\<lparr>pd_orders := pd_orders db @ [new_order now new_id req out_trade_no pay_url amount]\<rparr>"
proof (cases r)
  case (Inl e)
  then have "db' = db" using assms by (auto simp: create_order_def Let_def split: sum.splits)
  then show thesis using Inl by (rule failed)
next
  case (Inr o')
  then obtain amount where c: "cents (cp_amount req) = Inr amount" "length out_trade_no \<le> 64" "length (cp_scene req) \<le> 20" "length (cp_subject req) \<le> 256"
    and ins: "insert_order (new_order now new_id req out_trade_no pay_url amount) db = Inr (o', db')"
    using assms by (auto simp: create_order_def Let_def and_then_Inr_iff varchar_def split: sum.splits)
  show thesis
    by (rule created [OF c(1) _ _ c(2-4)]) (use ins in \<open>auto simp: insert_order_def new_order_def split: if_splits\<close>)
qed

lemma create_order_inv:
  assumes inv: "payment_inv db" and r: "create_order now new_id req out_trade_no pay_url db = (db', r)"
  shows "payment_inv db'"
  using r
proof (cases rule: create_order_cases)
  case (created amount)
  then have "order_entries new_id (pd_wallet db) = []" using inv unfolding payment_inv_def by blast
  then show ?thesis using inv created unfolding payment_inv_def order_ok_def by (auto simp: new_order_def)
qed (use inv in simp)

lemma update_pending_inv:
  assumes "payment_inv db" "\<And>o'. po_status o' = Order_Pending \<Longrightarrow> same_order o' (f o')"
  shows "payment_inv (fst (update_pending i f db))"
proof -
  have "payment_inv (db\<lparr>pd_orders := map (\<lambda>x. if po_id x = i \<and> po_status x = Order_Pending then f x else x) (pd_orders db)\<rparr>)"
    by (rule payment_inv_map [OF assms(1)]) (simp add: assms(2))
  then show ?thesis using assms(1) by (simp add: update_pending_def split: option.split)
qed

lemma payment_invD:
  assumes "payment_inv db"
  shows "wallet_reach (pd_wallet db)" "distinct (map po_id (pd_orders db))"
    "o' \<in> set (pd_orders db) \<Longrightarrow> order_ok (pd_wallet db) o'" "order_entries i (pd_wallet db) \<noteq> [] \<Longrightarrow> i \<in> set (map po_id (pd_orders db))"
  using assms unfolding payment_inv_def by blast+

lemma order_unique:
  assumes "payment_inv db" "o1 \<in> set (pd_orders db)" "o2 \<in> set (pd_orders db)" "po_id o1 = po_id o2"
  shows "o1 = o2"
  using payment_invD(2) [OF assms(1)] assms(2-4) unfolding distinct_map by (blast dest: inj_onD)

lemma credit_paid_inv:
  assumes inv: "payment_inv db" and r: "credit_paid digest now new_id i trade_no event_id payload description db = (db', r)"
  shows "payment_inv db'"
  using r
proof (cases rule: credit_paid_cases)
  case (credited o' b x)
  have o: "o' \<in> set (pd_orders db)" "po_id o' = i" using find_order_mem [OF credited(2)] by simp_all
  note e = order_entries_recharge [OF credited(6)] and st = recharge_in_tx_step [OF credited(6)]
  have none: "order_entries i (pd_wallet db) = []"
    using payment_invD(3) [OF inv o(1)] credited(3) unfolding order_ok_def o(2) by simp
  have iff: "po_id y = i \<and> po_status y = Order_Pending \<longleftrightarrow> y = o'" if "y \<in> set (pd_orders db)" for y
    using order_unique [OF inv that o(1)] o(2) credited(3) by (cases "y = o'") auto
  have orders: "pd_orders db' = map (\<lambda>y. if y = o' then paid_row now trade_no payload o' else y) (pd_orders db)"
    unfolding credited(4) by (rule map_cong [OF refl]) (simp only: iff split: if_split, blast)
  have ids: "map po_id (pd_orders db') = map po_id (pd_orders db)" unfolding orders by simp
  have "order_ok (pd_wallet db') y" if y: "y \<in> set (pd_orders db')" for y
  proof -
    from y obtain z where z: "z \<in> set (pd_orders db)" "y = (if z = o' then paid_row now trade_no payload o' else z)"
      unfolding orders set_map by blast
    show ?thesis
    proof (cases "z = o'")
      case True
      then show ?thesis using e [of i] none o(2) st unfolding z(2) order_ok_def by simp
    next
      case False
      then have "po_id z \<noteq> i" using order_unique [OF inv z(1) o(1)] o(2) by auto
      then have "order_ok (pd_wallet db') z" using order_ok_cong [of z "pd_wallet db'" "pd_wallet db"] e [of "po_id z"] payment_invD(3) [OF inv z(1)] by simp
      then show ?thesis using False z(2) by simp
    qed
  qed
  moreover have "j \<in> set (map po_id (pd_orders db'))" if "order_entries j (pd_wallet db') \<noteq> []" for j
  proof (cases "j = i")
    case True
    then show ?thesis unfolding ids using o by (metis imageI set_map)
  next
    case False
    then show ?thesis unfolding ids using e [of j] that payment_invD(4) [OF inv, of j] by simp
  qed
  moreover have "wallet_reach (pd_wallet db')" using payment_invD(1) [OF inv] st by (blast intro: wallet_reach.step)
  ultimately show ?thesis using payment_invD(2) [OF inv] unfolding payment_inv_def ids by blast
qed (use inv in \<open>simp_all add: payment_inv_def\<close>)

lemma payment_step_inv: "payment_step digest db db' \<Longrightarrow> payment_inv db \<Longrightarrow> payment_inv db'"
proof (induction rule: payment_step.induct)
  case (wallet db w)
  then show ?case by (blast intro: payment_inv_wallet)
next
  case (create db now new_id req out_trade_no pay_url)
  then show ?case by (rule create_order_inv) (rule prod.collapse [symmetric])
next
  case (pay_url db i url)
  then show ?case unfolding set_pay_url_def by (rule payment_inv_map) (simp add: same_order_def)
next
  case (credit db now new_id order_id trade_no event_id payload description)
  then show ?case by (rule credit_paid_inv) (rule prod.collapse [symmetric])
next
  case (fail db i)
  then show ?case unfolding mark_as_failed_def by (rule update_pending_inv) (simp add: same_order_def)
next
  case (close db now i)
  then show ?case unfolding close_order_def by (rule update_pending_inv) (simp add: same_order_def)
next
  case (expire db now)
  then show ?case unfolding close_expired_orders_def Let_def fst_conv by (rule payment_inv_map) (simp add: same_order_def)
qed

lemma payment_reach_inv: "payment_reach digest db \<Longrightarrow> payment_inv db"
proof (induction rule: payment_reach.induct)
  case (start db)
  have "order_entries i (pd_wallet db) = []" for i
    using start(2) unfolding order_entries_def order_free_def by (auto simp: list_all_iff filter_empty_conv)
  with start show ?case by (simp add: payment_inv_def)
qed (rule payment_step_inv)

text \<open>
  C4: in every history, a paid order owns exactly one recharge of the ledger, for its tenant, its user and its whole
  positive amount, and an order that is not paid owns none: no notification credits an order twice, and none is lost
  between the order and the wallet.
\<close>

theorem order_credited_once:
  assumes "payment_reach digest db" "o' \<in> set (pd_orders db)"
  shows "if po_status o' = Order_Paid
    then \<exists>x. filter (\<lambda>x. bt_type x = Recharge \<and> bt_order_id x = Some (po_id o')) (wd_transactions (pd_wallet db)) = [x]
      \<and> bt_tenant_id x = po_tenant_id o' \<and> bt_user_id x = po_user_id o' \<and> bt_amount x = po_amount o' \<and> 0 < po_amount o'
    else filter (\<lambda>x. bt_type x = Recharge \<and> bt_order_id x = Some (po_id o')) (wd_transactions (pd_wallet db)) = []"
  using payment_invD(3) [OF payment_reach_inv [OF assms(1)] assms(2)] unfolding order_ok_def order_entries_def prod.inject conj_assoc .

section \<open>Final states\<close>

text \<open>A later version of an order: a pending order may change its state, any other keeps everything but its payment page.\<close>

definition order_evolves :: "payment_order \<Rightarrow> payment_order \<Rightarrow> bool" where
  "order_evolves o1 o2 \<longleftrightarrow> po_id o2 = po_id o1 \<and> po_tenant_id o2 = po_tenant_id o1 \<and> po_user_id o2 = po_user_id o1
     \<and> po_amount o2 = po_amount o1 \<and> po_method o2 = po_method o1 \<and> po_out_trade_no o2 = po_out_trade_no o1
     \<and> (po_status o1 = Order_Pending \<or> po_status o2 = po_status o1 \<and> po_trade_no o2 = po_trade_no o1
          \<and> po_provider_trade_no o2 = po_provider_trade_no o1 \<and> po_paid_at o2 = po_paid_at o1 \<and> po_closed_at o2 = po_closed_at o1)"

definition orders_evolve :: "payment_db \<Rightarrow> payment_db \<Rightarrow> bool" where
  "orders_evolve db db' \<longleftrightarrow> (\<forall>o1 \<in> set (pd_orders db). \<exists>o2 \<in> set (pd_orders db'). order_evolves o1 o2)"

lemma order_evolves_refl [simp]: "order_evolves o1 o1"
  by (simp add: order_evolves_def)

lemma order_evolves_trans: "order_evolves o1 o2 \<Longrightarrow> order_evolves o2 o3 \<Longrightarrow> order_evolves o1 o3"
  unfolding order_evolves_def by auto

lemma orders_evolve_append: "pd_orders db' = pd_orders db @ new \<Longrightarrow> orders_evolve db db'"
  unfolding orders_evolve_def by (auto intro!: bexI order_evolves_refl)

lemmas orders_evolve_refl = orders_evolve_append [where new = "[]", simplified]

lemma orders_evolve_trans: "orders_evolve db1 db2 \<Longrightarrow> orders_evolve db2 db3 \<Longrightarrow> orders_evolve db1 db3"
  unfolding orders_evolve_def using order_evolves_trans by meson

lemma orders_evolve_map: "pd_orders db' = map f (pd_orders db) \<Longrightarrow> (\<And>o1. order_evolves o1 (f o1)) \<Longrightarrow> orders_evolve db db'"
  unfolding orders_evolve_def by auto

lemma update_pending_evolves:
  assumes "\<And>o1. po_status o1 = Order_Pending \<Longrightarrow> order_evolves o1 (f o1)"
  shows "orders_evolve db (fst (update_pending i f db))"
proof (cases "find (\<lambda>o'. po_id o' = i \<and> po_status o' = Order_Pending) (pd_orders db)")
  case None
  then show ?thesis by (intro orders_evolve_refl) (simp add: update_pending_def)
next
  case (Some o')
  then have "pd_orders (fst (update_pending i f db)) = map (\<lambda>x. if po_id x = i \<and> po_status x = Order_Pending then f x else x) (pd_orders db)"
    by (simp add: update_pending_def)
  then show ?thesis by (rule orders_evolve_map) (simp add: assms)
qed

lemma credit_paid_evolves:
  assumes "credit_paid digest now new_id i trade_no event_id payload description db = (db', r)"
  shows "orders_evolve db db'"
  using assms
proof (cases rule: credit_paid_cases)
  case (credited o' b x)
  then show ?thesis by (intro orders_evolve_map [OF credited(4)]) (simp add: order_evolves_def)
qed (simp_all add: orders_evolve_refl)

lemma payment_step_evolves: "payment_step digest db db' \<Longrightarrow> orders_evolve db db'"
proof (induction rule: payment_step.induct)
  case (create db now new_id req out_trade_no pay_url)
  show ?case
  proof (cases rule: create_order_cases [OF prod.collapse [symmetric], of now new_id req out_trade_no pay_url db])
    case (2 amount)
    show ?thesis by (rule orders_evolve_append) (simp add: 2(8))
  qed (simp add: orders_evolve_refl)
next
  case (pay_url db i url)
  show ?case by (rule orders_evolve_map [where f = "\<lambda>o'. if po_id o' = i then o'\<lparr>po_pay_url := Some url\<rparr> else o'"])
      (simp_all add: set_pay_url_def order_evolves_def)
next
  case (credit db now new_id order_id trade_no event_id payload description)
  show ?case by (rule credit_paid_evolves [OF prod.collapse [symmetric]])
next
  case (fail db i)
  show ?case unfolding mark_as_failed_def by (rule update_pending_evolves) (simp add: order_evolves_def)
next
  case (close db now i)
  show ?case unfolding close_order_def by (rule update_pending_evolves) (simp add: order_evolves_def)
next
  case (expire db now)
  show ?case
    by (rule orders_evolve_map [where f = "\<lambda>o'. if po_status o' = Order_Pending \<and> po_expired_at o' < now
          then o'\<lparr>po_status := Order_Closed, po_closed_at := Some now\<rparr> else o'"])
      (simp_all add: close_expired_orders_def Let_def order_evolves_def)
qed (simp add: orders_evolve_refl)

lemma payment_steps_evolve: "(payment_step digest)\<^sup>*\<^sup>* db db' \<Longrightarrow> orders_evolve db db'"
  by (induction rule: rtranclp_induct) (auto intro: orders_evolve_refl orders_evolve_trans payment_step_evolves)

lemma payment_steps_reach: "(payment_step digest)\<^sup>*\<^sup>* db db' \<Longrightarrow> payment_reach digest db \<Longrightarrow> payment_reach digest db'"
  by (induction rule: rtranclp_induct) (auto intro: payment_reach.step)

lemma find_order_Some:
  assumes "payment_inv db" "o' \<in> set (pd_orders db)"
  shows "find_order (po_id o') db = Some o'"
proof (cases "find_order (po_id o') db")
  case None
  then show ?thesis using assms(2) unfolding find_order_def find_None_iff by blast
next
  case (Some o2)
  then show ?thesis using find_order_mem [OF Some] order_unique [OF assms(1) _ assms(2)] by auto
qed

lemma later_order:
  assumes "(payment_step digest)\<^sup>*\<^sup>* db db'" "payment_reach digest db" "find_order i db = Some o1"
  shows "\<exists>o2. find_order i db' = Some o2 \<and> order_evolves o1 o2"
proof -
  have o1: "o1 \<in> set (pd_orders db)" "po_id o1 = i" using find_order_mem [OF assms(3)] by simp_all
  obtain o2 where o2: "o2 \<in> set (pd_orders db')" "order_evolves o1 o2"
    using payment_steps_evolve [OF assms(1)] o1(1) unfolding orders_evolve_def by blast
  have "find_order (po_id o2) db' = Some o2"
    by (rule find_order_Some [OF payment_reach_inv [OF payment_steps_reach [OF assms(1,2)]] o2(1)])
  moreover have "po_id o2 = i" using o2(2) o1(2) unfolding order_evolves_def by simp
  ultimately show ?thesis using o2(2) by auto
qed

section \<open>Notifications\<close>

definition note_key :: "payment_notification \<Rightarrow> (payment_method \<times> string) \<times> uuid option \<times> string" where
  "note_key n = ((pn_method n, pn_event_id n), pn_order_id n, pn_payload_digest n)"

abbreviation note_keys :: "payment_db \<Rightarrow> ((payment_method \<times> string) \<times> uuid option \<times> string) list" where
  "note_keys db \<equiv> map note_key (pd_notifications db)"

lemma process_note_keys [simp]: "note_keys (process_notification m e f db) = note_keys db"
  by (simp add: process_notification_def note_key_def)

lemma find_note_map_of:
  "map_option (\<lambda>n. (pn_order_id n, pn_payload_digest n)) (find (\<lambda>n. pn_method n = m \<and> pn_event_id n = e) ns) = map_of (map note_key ns) (m, e)"
  by (induction ns) (auto simp: note_key_def)

lemma find_notification_map_of:
  "map_option (\<lambda>n. (pn_order_id n, pn_payload_digest n)) (find_notification m e db) = map_of (note_keys db) (m, e)"
  unfolding find_notification_def by (rule find_note_map_of)

text \<open>Once an event is recorded, its order and its digest stay those of the first notification.\<close>

lemma credit_paid_note:
  assumes "credit_paid digest now new_id i trade_no event_id payload description db = (db', r)"
  shows "\<exists>new. note_keys db' = note_keys db @ new"
    "r = Inr c \<Longrightarrow> \<exists>o'. find_order i db = Some o' \<and> map_of (note_keys db') (po_method o', event_id) = Some (Some i, digest payload)
       \<and> length event_id \<le> 128 \<and> length (digest payload) \<le> 64"
proof -
  have both: "(\<exists>new. note_keys db' = note_keys db @ new) \<and> (\<forall>c. r = Inr c \<longrightarrow> (\<exists>o'. find_order i db = Some o'
     \<and> map_of (note_keys db') (po_method o', event_id) = Some (Some i, digest payload) \<and> length event_id \<le> 128 \<and> length (digest payload) \<le> 64))"
  proof (cases "credit_paid_in_tx digest now new_id i trade_no event_id payload description db")
    case (Inl e)
    then show ?thesis using assms by (auto simp: credit_paid_def)
  next
    case (Inr p)
    then have p: "p = (case r of Inr c \<Rightarrow> (c, db') | Inl _ \<Rightarrow> p)" using assms by (auto simp: credit_paid_def split: prod.splits)
    obtain c where r: "r = Inr c" using assms Inr by (auto simp: credit_paid_def split: prod.splits)
    obtain o' n db1 note1 where o': "find_order i db = Some o'"
      and n: "n = \<lparr>pn_method = po_method o', pn_event_id = event_id, pn_order_id = Some (po_id o'), pn_out_trade_no = po_out_trade_no o',
          pn_processing_status = ''received'', pn_payload_digest = digest payload, pn_processed_at = None\<rparr>"
      and db1: "insert_notification n db = Inr db1" "find_notification (po_method o') event_id db1 = Some note1"
        "pn_order_id note1 = Some (po_id o')" "pn_payload_digest note1 = digest payload"
      and same: "note_keys db' = note_keys db1"
      using Inr p unfolding r credit_paid_in_tx_def and_then_Inr_iff of_db_Inr_iff
      by (auto simp: and_then_Inr_iff pay_order_def Let_def split: if_splits)
    have "\<exists>new. note_keys db1 = note_keys db @ new" using insert_notification_keeps [OF db1(1)] by auto
    moreover have "map_of (note_keys db1) (po_method o', event_id) = Some (Some i, digest payload)"
      using find_notification_map_of [of "po_method o'" event_id db1] db1 find_order_mem [OF o'] by simp
    moreover have "length event_id \<le> 128" "length (digest payload) \<le> 64"
      using db1(1) unfolding n by (auto simp: insert_notification_def and_then_Inr_iff varchar_def)
    ultimately show ?thesis using o' same by simp
  qed
  then show "\<exists>new. note_keys db' = note_keys db @ new"
    "r = Inr c \<Longrightarrow> \<exists>o'. find_order i db = Some o' \<and> map_of (note_keys db') (po_method o', event_id) = Some (Some i, digest payload)
       \<and> length event_id \<le> 128 \<and> length (digest payload) \<le> 64" by blast+
qed

lemma payment_step_notes: "payment_step digest db db' \<Longrightarrow> \<exists>new. note_keys db' = note_keys db @ new"
proof (induction rule: payment_step.induct)
  case (credit db now new_id order_id trade_no event_id payload description)
  show ?case by (rule credit_paid_note(1) [OF prod.collapse [symmetric]])
next
  case (create db now new_id req out_trade_no pay_url)
  show ?case
    by (cases rule: create_order_cases [OF prod.collapse [symmetric], of now new_id req out_trade_no pay_url db]) simp_all
qed (simp_all add: set_pay_url_def mark_as_failed_def close_order_def update_pending_def close_expired_orders_def
      Let_def split: option.split)

lemma payment_steps_notes:
  "(payment_step digest)\<^sup>*\<^sup>* db db' \<Longrightarrow> map_of (note_keys db) k = Some v \<Longrightarrow> map_of (note_keys db') k = Some v"
proof (induction rule: rtranclp_induct)
  case (step db1 db2)
  then show ?case using payment_step_notes [OF step(2)] by (auto simp: map_add_Some_iff)
qed simp

text \<open>
  The final states of an order are final, and its owner and amount never change: whatever happens next, an order that is
  not pending keeps its status, its transaction numbers and its times.
\<close>

theorem order_status_final:
  assumes "(payment_step digest)\<^sup>*\<^sup>* db db'" "payment_reach digest db" "find_order i db = Some o1"
  shows "\<exists>o2. find_order i db' = Some o2 \<and> po_tenant_id o2 = po_tenant_id o1 \<and> po_user_id o2 = po_user_id o1 \<and> po_amount o2 = po_amount o1
     \<and> (po_status o1 \<noteq> Order_Pending \<longrightarrow> po_status o2 = po_status o1 \<and> po_provider_trade_no o2 = po_provider_trade_no o1
          \<and> po_paid_at o2 = po_paid_at o1 \<and> po_closed_at o2 = po_closed_at o1)"
proof -
  obtain o2 where "find_order i db' = Some o2" "order_evolves o1 o2"
    using later_order [OF assms(1,2,3)] by blast
  then show ?thesis unfolding order_evolves_def by auto
qed

lemma credit_paid_result:
  assumes inv: "payment_inv db" and r: "credit_paid digest now new_id i trade_no event_id payload description db = (db', Inr c)"
  obtains o' where "find_order i db' = Some o'" "po_status o' = Order_Paid"
    "provider_identity o' = Some trade_no"
    "map_of (note_keys db') (po_method o', event_id) = Some (Some i, digest payload)" "length event_id \<le> 128" "length (digest payload) \<le> 64"
proof -
  obtain o1 where o1: "find_order i db = Some o1" "map_of (note_keys db') (po_method o1, event_id) = Some (Some i, digest payload)"
    "length event_id \<le> 128" "length (digest payload) \<le> 64" using credit_paid_note(2) [OF r refl] by blast
  show thesis
  proof (cases rule: credit_paid_cases [OF r])
    case (2 o')
    have "find_order i db' = Some o'" using 2(2,6) unfolding find_order_def by simp
    with 2 o1 show thesis by (intro that) simp_all
  next
    case (3 o' b x)
    have mem: "o' \<in> set (pd_orders db)" "po_id o' = i" using find_order_mem [OF 3(2)] by simp_all
    let ?o = "paid_row now trade_no payload o'"
    have "?o \<in> set (pd_orders db')" unfolding 3(4) set_map using mem 3(3) by (intro image_eqI [of _ _ o']) simp_all
    then have "find_order (po_id ?o) db' = Some ?o" by (rule find_order_Some [OF credit_paid_inv [OF inv r]])
    then have "find_order i db' = Some ?o" using mem(2) by simp
    then show thesis by (rule that) (use o1 3(2) in \<open>simp_all add: provider_identity_def\<close>)
  qed simp
qed

lemma credit_paid_again:
  assumes "find_order i db = Some o'" "has_tenant (po_tenant_id o') (wd_tenants (pd_wallet db))" "po_status o' = Order_Paid"
    "provider_identity o' = Some trade_no"
    "map_of (note_keys db) (po_method o', event_id) = Some (Some i, digest payload)" "length event_id \<le> 128" "length (digest payload) \<le> 64"
  shows "snd (credit_paid digest now new_id i trade_no event_id payload description db) = Inr False"
proof -
  have "map_option (\<lambda>n. (pn_order_id n, pn_payload_digest n)) (find_notification (po_method o') event_id db) = Some (Some i, digest payload)"
    unfolding find_notification_map_of by (rule assms(5))
  then obtain n where n: "find_notification (po_method o') event_id db = Some n" "pn_order_id n = Some i" "pn_payload_digest n = digest payload"
    by auto
  have ex: "list_ex (\<lambda>x. pn_method x = po_method o' \<and> pn_event_id x = event_id) (pd_notifications db)"
    using n(1) unfolding find_notification_def list_ex_iff by (auto simp: find_Some_iff)
  have i: "po_id o' = i" using find_order_mem [OF assms(1)] by simp
  show ?thesis
    using assms n ex i by (simp add: credit_paid_def credit_paid_in_tx_def insert_notification_def varchar_def ensure_def)
qed

text \<open>
  C29: notifications are idempotent. After a notification of an order was accepted, and whatever else happens, no further
  notification of that order changes a wallet or an order or answers that it credited it; one with another provider
  transaction is refused; and the same notification again is accepted as already processed, as long as the tenant exists.
\<close>

theorem notification_idempotent:
  assumes "payment_reach digest db"
    "credit_paid digest now new_id i trade_no event_id payload description db = (db1, Inr c)" "(payment_step digest)\<^sup>*\<^sup>* db1 db2"
    "credit_paid digest now' new_id' i trade_no' event_id' payload' description' db2 = (db3, r)"
  shows "pd_wallet db3 = pd_wallet db2 \<and> pd_orders db3 = pd_orders db2 \<and> r \<noteq> Inr True \<and> (trade_no' \<noteq> trade_no \<longrightarrow> (\<exists>e. r = Inl e))
     \<and> (trade_no' = trade_no \<and> event_id' = event_id \<and> payload' = payload
         \<and> (\<forall>o'. find_order i db2 = Some o' \<longrightarrow> has_tenant (po_tenant_id o') (wd_tenants (pd_wallet db2))) \<longrightarrow> r = Inr False)"
proof -
  obtain o1 where o1: "find_order i db1 = Some o1" "po_status o1 = Order_Paid"
    "provider_identity o1 = Some trade_no"
    "map_of (note_keys db1) (po_method o1, event_id) = Some (Some i, digest payload)" "length event_id \<le> 128" "length (digest payload) \<le> 64"
    by (rule credit_paid_result [OF payment_reach_inv [OF assms(1)] assms(2)])
  have "db1 = fst (credit_paid digest now new_id i trade_no event_id payload description db)" using assms(2) by simp
  then have reach: "payment_reach digest db1" using assms(1) by (simp only: payment_reach.step [OF _ payment_step.credit])
  obtain o2 where o2: "find_order i db2 = Some o2" "order_evolves o1 o2" using later_order [OF assms(3) reach o1(1)] by blast
  have p2: "po_status o2 = Order_Paid" "po_method o2 = po_method o1"
    "provider_identity o2 = Some trade_no"
    using o2(2) o1(2,3) unfolding order_evolves_def provider_identity_def by (simp_all cong: option.case_cong)
  have same: "pd_wallet db3 = pd_wallet db2 \<and> pd_orders db3 = pd_orders db2 \<and> r \<noteq> Inr True \<and> (trade_no' \<noteq> trade_no \<longrightarrow> (\<exists>e. r = Inl e))"
    using assms(4) by (cases rule: credit_paid_cases) (use o2(1) p2 in auto)
  have note2: "map_of (note_keys db2) (po_method o2, event_id) = Some (Some i, digest payload)"
    unfolding p2(2) by (rule payment_steps_notes [OF assms(3) o1(4)])
  have "r = Inr False" if "trade_no' = trade_no" "event_id' = event_id" "payload' = payload"
      "has_tenant (po_tenant_id o2) (wd_tenants (pd_wallet db2))"
    using credit_paid_again [where digest = digest and payload = payload and now = now' and new_id = new_id' and description = description',
        OF o2(1) that(4) p2(1,3) note2 o1(5,6)] assms(4) that by simp
  then show ?thesis using same o2(1) by simp
qed

section \<open>Well-formed tables\<close>

definition order_typed :: "payment_order \<Rightarrow> bool" where
  "order_typed o' \<longleftrightarrow> length (po_out_trade_no o') \<le> 64 \<and> length (po_scene o') \<le> 20 \<and> length (po_subject o') \<le> 256
     \<and> \<bar>po_amount o'\<bar> < 10 ^ 20 \<and> 10 ^ 8 dvd po_amount o'
     \<and> (po_status o' = Order_Paid \<longleftrightarrow> po_paid_at o' \<noteq> None) \<and> (po_status o' = Order_Paid \<longleftrightarrow> po_provider_trade_no o' \<noteq> None)
     \<and> (\<forall>s. po_provider_trade_no o' = Some s \<longrightarrow> length s \<le> 64) \<and> po_trade_no o' = po_provider_trade_no o'
     \<and> (po_status o' = Order_Closed \<longleftrightarrow> po_closed_at o' \<noteq> None)"

definition orders_typed :: "payment_db \<Rightarrow> bool" where
  "orders_typed db \<longleftrightarrow> list_all order_typed (pd_orders db) \<and> distinct (map po_id (pd_orders db)) \<and> distinct (map po_out_trade_no (pd_orders db))
     \<and> distinct (map (\<lambda>y. (po_method y, po_provider_trade_no y)) (filter (\<lambda>y. po_provider_trade_no y \<noteq> None) (pd_orders db)))"

text \<open>Updates that keep the keys of every row.\<close>

lemma orders_typed_map:
  assumes typed: "orders_typed db" and db': "pd_orders db' = map f (pd_orders db)"
    and f: "\<And>o'. po_id (f o') = po_id o' \<and> po_out_trade_no (f o') = po_out_trade_no o'" "\<And>o'. order_typed o' \<Longrightarrow> order_typed (f o')"
    and keys: "distinct (map (\<lambda>y. (po_method y, po_provider_trade_no y)) (filter (\<lambda>y. po_provider_trade_no y \<noteq> None) (pd_orders db')))"
  shows "orders_typed db'"
proof -
  have "map po_id (pd_orders db') = map po_id (pd_orders db)" "map po_out_trade_no (pd_orders db') = map po_out_trade_no (pd_orders db)"
    unfolding db' using f(1) by simp_all
  moreover have "list_all order_typed (pd_orders db')" using typed f(2) unfolding db' orders_typed_def list_all_iff by auto
  ultimately show ?thesis using typed keys unfolding orders_typed_def by (simp only:)
qed

lemma provider_keys_map:
  assumes "\<And>o'. po_provider_trade_no (f o') = po_provider_trade_no o' \<and> po_method (f o') = po_method o'"
  shows "map (\<lambda>y. (po_method y, po_provider_trade_no y)) (filter (\<lambda>y. po_provider_trade_no y \<noteq> None) (map f os))
    = map (\<lambda>y. (po_method y, po_provider_trade_no y)) (filter (\<lambda>y. po_provider_trade_no y \<noteq> None) os)"
  by (induction os) (simp_all add: assms)

lemma orders_typed_status:
  assumes typed: "orders_typed db" and db': "pd_orders db' = map f (pd_orders db)"
    and f: "\<And>o'. po_id (f o') = po_id o' \<and> po_out_trade_no (f o') = po_out_trade_no o'" "\<And>o'. order_typed o' \<Longrightarrow> order_typed (f o')"
      "\<And>o'. po_provider_trade_no (f o') = po_provider_trade_no o' \<and> po_method (f o') = po_method o'"
  shows "orders_typed db'"
  by (rule orders_typed_map [OF typed db' f(1,2)])
    (use typed in \<open>simp_all only: db' provider_keys_map [OF f(3)] orders_typed_def\<close>)

lemma update_pending_typed:
  assumes "orders_typed db" "\<And>o'. po_id (f o') = po_id o' \<and> po_out_trade_no (f o') = po_out_trade_no o'"
    "\<And>o'. order_typed o' \<Longrightarrow> po_status o' = Order_Pending \<Longrightarrow> order_typed (f o')"
    "\<And>o'. po_provider_trade_no (f o') = po_provider_trade_no o' \<and> po_method (f o') = po_method o'"
  shows "orders_typed (fst (update_pending i f db))"
proof -
  have "orders_typed (db\<lparr>pd_orders := map (\<lambda>x. if po_id x = i \<and> po_status x = Order_Pending then f x else x) (pd_orders db)\<rparr>)"
    by (rule orders_typed_status [where f = "\<lambda>x. if po_id x = i \<and> po_status x = Order_Pending then f x else x", OF assms(1)])
      (simp_all add: assms(2-4))
  then show ?thesis using assms(1) by (simp add: update_pending_def split: option.split)
qed

lemma cents_typed: "cents a = Inr amount \<Longrightarrow> \<bar>amount\<bar> < 10 ^ 20 \<and> 10 ^ 8 dvd amount"
  by (auto simp: cents_def and_then_Inr_iff to_cents_def)

lemma payment_step_typed: "payment_step digest db db' \<Longrightarrow> orders_typed db \<Longrightarrow> orders_typed db'"
proof (induction rule: payment_step.induct)
  case (create db now new_id req out_trade_no pay_url)
  show ?case
  proof (cases rule: create_order_cases [OF prod.collapse [symmetric], of now new_id req out_trade_no pay_url db])
    case (2 amount)
    then have "order_typed (new_order now new_id req out_trade_no pay_url amount)"
      using cents_typed [OF 2(1)] by (simp add: order_typed_def new_order_def)
    with create 2 show ?thesis by (simp add: orders_typed_def new_order_def)
  qed (use create in simp)
next
  case (credit db now new_id i trade_no event_id payload description)
  show ?case
  proof (cases rule: credit_paid_cases [OF prod.collapse [symmetric], of digest now new_id i trade_no event_id payload description db])
    case (3 o' b x)
    show ?thesis by (rule orders_typed_map [OF credit 3(4) _ _ 3(5)]) (use 3(7) in \<open>auto simp: order_typed_def\<close>)
  qed (use credit in \<open>simp_all add: orders_typed_def\<close>)
next
  case (pay_url db i url)
  then show ?case
    by (rule orders_typed_status [where f = "\<lambda>o'. if po_id o' = i then o'\<lparr>po_pay_url := Some url\<rparr> else o'"])
      (auto simp: set_pay_url_def order_typed_def)
next
  case (fail db i)
  then show ?case unfolding mark_as_failed_def by (rule update_pending_typed) (auto simp: order_typed_def)
next
  case (close db now i)
  then show ?case unfolding close_order_def by (rule update_pending_typed) (auto simp: order_typed_def)
next
  case (expire db now)
  then show ?case
    by (rule orders_typed_status [where f = "\<lambda>o'. if po_status o' = Order_Pending \<and> po_expired_at o' < now
          then o'\<lparr>po_status := Order_Closed, po_closed_at := Some now\<rparr> else o'"])
      (auto simp: close_expired_orders_def Let_def order_typed_def)
qed (simp add: orders_typed_def)

text \<open>
  C30: the order table is always well formed: keys are unique, texts fit their columns, amounts are whole cents within
  DECIMAL(12,2), an order has a payment time and a provider transaction exactly when it is paid and a closing time exactly when
  it is closed, and no provider transaction pays two orders.
\<close>

theorem orders_well_typed: "payment_reach digest db \<Longrightarrow> orders_typed db"
proof (induction rule: payment_reach.induct)
  case (start db)
  then show ?case by (simp add: orders_typed_def)
qed (rule payment_step_typed)

section \<open>Statistics and pages\<close>

lemma sum_list_by_key:
  assumes "finite I" "\<forall>x \<in> set xs. k x \<in> I"
  shows "sum_list (map f xs) = (\<Sum>i \<in> I. sum_list (map f (filter (\<lambda>x. k x = i) xs)) :: int)"
  using assms(2)
proof (induction xs)
  case (Cons x xs)
  have "(\<Sum>i \<in> I. sum_list (map f (filter (\<lambda>x. k x = i) (x # xs))))
      = (\<Sum>i \<in> I. (if k x = i then f x else 0) + sum_list (map f (filter (\<lambda>x. k x = i) xs)))"
    by (rule sum.cong) simp_all
  also have "\<dots> = f x + sum_list (map f xs)" using Cons assms(1) by (simp add: sum.distrib)
  finally show ?case by simp
qed simp

text \<open>
  C31: the paid amount a user sees in the statistics of their orders is the sum of the ledger's recharges for orders in
  their wallet: the console and the ledger cannot disagree.
\<close>

theorem stats_match_ledger:
  assumes "payment_reach digest db" "current_tenant_actor False (ts_tenant_id s) (ts_user_id s) (pd_wallet db)" "stats_owned s db = Inr st"
  shows "st_paid_amount st = sum_list (map bt_amount
    (filter (\<lambda>x. bt_type x = Recharge \<and> bt_order_id x \<noteq> None \<and> bt_tenant_id x = ts_tenant_id s \<and> bt_user_id x = ts_user_id s)
      (wd_transactions (pd_wallet db))))"
proof -
  let ?t = "ts_tenant_id s" and ?u = "ts_user_id s" and ?w = "pd_wallet db" and ?os = "pd_orders db"
  let ?own = "\<lambda>o'. po_tenant_id o' = ?t \<and> po_user_id o' = ?u"
  let ?E = "filter (\<lambda>x. bt_type x = Recharge \<and> bt_order_id x \<noteq> None \<and> bt_tenant_id x = ?t \<and> bt_user_id x = ?u) (wd_transactions ?w)"
  note inv = payment_reach_inv [OF assms(1)]
  have st: "st_paid_amount st = sum_list (map po_amount (filter (\<lambda>o'. ?own o' \<and> po_status o' = Order_Paid) ?os))"
    using assms(2,3) by (auto simp: stats_owned_def read_predicate_def scope_predicate_def order_stats_def Let_def conj_commute)
  have dist: "distinct ?os" "inj_on po_id (set ?os)" using payment_invD(2) [OF inv] by (simp_all add: distinct_map)
  have closed: "the (bt_order_id x) \<in> po_id ` set ?os" if "x \<in> set ?E" for x
  proof -
    have "bt_order_id x \<noteq> None" using that by simp
    then obtain i where i: "bt_order_id x = Some i" by blast
    then have "order_entries i ?w \<noteq> []" using that unfolding order_entries_def by (auto simp: filter_empty_conv)
    then show ?thesis using payment_invD(4) [OF inv] i by simp
  qed
  have each: "sum_list (map bt_amount (filter (\<lambda>x. the (bt_order_id x) = po_id o') ?E)) = (if ?own o' \<and> po_status o' = Order_Paid then po_amount o' else 0)"
    if "o' \<in> set ?os" for o'
  proof -
    have "filter (\<lambda>x. the (bt_order_id x) = po_id o') ?E
        = filter (\<lambda>x. bt_tenant_id x = ?t \<and> bt_user_id x = ?u) (order_entries (po_id o') ?w)"
      unfolding order_entries_def by (auto intro!: filter_cong)
    then show ?thesis using payment_invD(3) [OF inv that] unfolding order_ok_def by (auto split: if_splits)
  qed
  have "sum_list (map bt_amount ?E) = (\<Sum>i \<in> po_id ` set ?os. sum_list (map bt_amount (filter (\<lambda>x. the (bt_order_id x) = i) ?E)))"
    by (rule sum_list_by_key) (use closed in auto)
  also have "\<dots> = (\<Sum>o' \<in> set ?os. if ?own o' \<and> po_status o' = Order_Paid then po_amount o' else 0)"
    unfolding sum.reindex [OF dist(2)] comp_def by (rule sum.cong [OF refl each])
  also have "\<dots> = sum_list (map (\<lambda>o'. if ?own o' \<and> po_status o' = Order_Paid then po_amount o' else 0) ?os)"
    by (simp add: sum_list_distinct_conv_sum_set [OF dist(1)])
  also have "\<dots> = st_paid_amount st" unfolding st by (simp add: sum_list_map_filter')
  finally show ?thesis by simp
qed

lemma concat_pages: "concat (map (\<lambda>k. take m (drop (k * m) xs)) [0..<n]) = take (n * m) xs"
proof (induction n)
  case (Suc n)
  have "take (n * m) xs @ take m (drop (n * m) xs) = take (n * m + m) xs" by (simp add: take_add)
  with Suc show ?case by (simp add: add.commute)
qed simp

lemma newest_orders_set: "set (newest_orders rows) = set rows" "length (newest_orders rows) = length rows"
  by (simp_all add: newest_orders_def)

lemma newest_orders_distinct: "distinct rows \<Longrightarrow> distinct (newest_orders rows)"
  by (simp add: newest_orders_def distinct_sort)

lemma newest_orders_sorted: "sorted_wrt (\<lambda>a b. po_created_at b \<le> po_created_at a) (newest_orders rows)"
  unfolding newest_orders_def sorted_wrt_rev using sorted_sort_key [of po_created_at] by (simp add: sorted_wrt_map)

text \<open>
  The pages of a user's own orders, followed by the offset, show exactly the orders of that user in that tenant with the
  requested status, each once and newest first, and as many as the counter says; another user's order is never on a page.
\<close>

theorem owned_pages_complete:
  assumes "payment_reach digest db" "current_tenant_actor False (ts_tenant_id s) (ts_user_id s) (pd_wallet db)" "1 \<le> limit" "limit \<le> 1000"
    "count_owned s status db = Inr n"
  shows "\<exists>pages. map (\<lambda>k. list_owned s status (int limit) (int (k * limit)) db) [0..<Suc (n div limit)] = map Inr pages
     \<and> length (concat pages) = n \<and> distinct (concat pages) \<and> sorted_wrt (\<lambda>a b. po_created_at b \<le> po_created_at a) (concat pages)
     \<and> set (concat pages) = {o' \<in> set (pd_orders db). po_tenant_id o' = ts_tenant_id s \<and> po_user_id o' = ts_user_id s
          \<and> (\<forall>wanted. status = Some wanted \<longrightarrow> payment_status_as_str (po_status o') = wanted)}"
proof -
  let ?p = "\<lambda>o'. po_tenant_id o' = ts_tenant_id s \<and> po_user_id o' = ts_user_id s
     \<and> (\<forall>wanted. status = Some wanted \<longrightarrow> payment_status_as_str (po_status o') = wanted)"
  let ?rows = "newest_orders (filter ?p (pd_orders db))"
  let ?pages = "map (\<lambda>k. take limit (drop (k * limit) ?rows)) [0..<Suc (n div limit)]"
  have pred: "read_predicate (Read_Personal s) status None (pd_wallet db) = Inr ?p"
    using assms(2) by (cases status) (simp_all add: read_predicate_def scope_predicate_def)
  have n: "n = length ?rows" using assms(5) by (simp add: count_owned_def scoped_count_def pred newest_orders_set(2))
  have page: "list_owned s status (int limit) (int (k * limit)) db = Inr (take limit (drop (k * limit) ?rows))" for k
    using assms(3,4) by (simp add: list_owned_def scoped_list_def pred nat_mult_distrib)
  have "concat ?pages = take (Suc (n div limit) * limit) ?rows" by (rule concat_pages)
  moreover have "n \<le> Suc (n div limit) * limit" using assms(3) dividend_less_div_times [of limit n] by simp
  ultimately have all: "concat ?pages = ?rows" unfolding n by simp
  have "distinct (pd_orders db)" using payment_invD(2) [OF payment_reach_inv [OF assms(1)]] by (simp add: distinct_map)
  then have d: "distinct ?rows" by (intro newest_orders_distinct) simp
  have pages: "map (\<lambda>k. list_owned s status (int limit) (int (k * limit)) db) [0..<Suc (n div limit)] = map Inr ?pages"
    unfolding map_map comp_def by (rule map_cong [OF refl page])
  have rows: "set ?rows = {o' \<in> set (pd_orders db). ?p o'}" by (simp add: newest_orders_set)
  show ?thesis
    by (intro exI [of _ ?pages] conjI pages; unfold all) (rule n [symmetric] d newest_orders_sorted rows)+
qed

section \<open>A concrete history\<close>

definition demo_order_request :: create_payment_order_request where
  "demo_order_request = \<lparr>cp_tenant_id = 1, cp_user_id = 7, cp_amount = 500000000, cp_subject = ''credit'', cp_body = None, cp_method = Alipay,
     cp_scene = ''page'', cp_expired_at = 900\<rparr>"

definition demo_digest :: "string \<Rightarrow> string" where "demo_digest s = take 64 s"

definition demo_ordered :: payment_db where
  "demo_ordered = fst (create_order 30 800 demo_order_request ''T1'' ''url'' \<lparr>pd_wallet = fst (get_or_create 1 7 demo_start), pd_orders = [], pd_notifications = []\<rparr>)"

definition demo_credit :: "string \<Rightarrow> payment_db \<Rightarrow> payment_db \<times> (credit_error + bool)" where
  "demo_credit trade_no db = credit_paid demo_digest 40 801 800 trade_no ''E1'' ''paid'' ''recharge'' db"

definition demo_paid :: payment_db where
  "demo_paid = fst (demo_credit ''P1'' demo_ordered)"

lemma demo_cents: "cents (cp_amount demo_order_request) = Inr 500000000"
  by (simp add: cents_def to_cents_def demo_order_request_def ensure_def floor_eq_iff)

lemma demo_ordered_orders:
  "demo_ordered = \<lparr>pd_wallet = fst (get_or_create 1 7 demo_start), pd_orders = [new_order 30 800 demo_order_request ''T1'' ''url'' 500000000], pd_notifications = []\<rparr>"
  unfolding demo_ordered_def create_order_def Let_def demo_cents payment_db.simps
  unfolding demo_order_request_def create_payment_order_request.simps
  by code_simp

lemma demo_payment_reach: "payment_reach demo_digest demo_ordered" "payment_reach demo_digest demo_paid"
proof -
  have "payment_reach demo_digest \<lparr>pd_wallet = fst (get_or_create 1 7 demo_start), pd_orders = [], pd_notifications = []\<rparr>"
  proof (rule payment_reach.start)
    show "wallet_reach (pd_wallet \<lparr>pd_wallet = fst (get_or_create 1 7 demo_start), pd_orders = [], pd_notifications = []\<rparr>)"
      unfolding payment_db.simps by (rule wallet_reach.step [OF demo_reach(1) wallet_step.get_or_create])
  qed (simp, code_simp, simp_all)
  then show o: "payment_reach demo_digest demo_ordered"
    unfolding demo_ordered_def by (rule payment_reach.step) (rule payment_step.create)
  show "payment_reach demo_digest demo_paid"
    unfolding demo_paid_def demo_credit_def by (rule payment_reach.step [OF o]) (rule payment_step.credit)
qed

lemma demo_credits:
  "snd (demo_credit ''P1'' demo_ordered) = Inr True"
  "map po_status (pd_orders demo_paid) = [Order_Paid]"
  "map bt_amount (wd_transactions (pd_wallet demo_paid)) = [500000000]"
  unfolding demo_paid_def demo_ordered_orders unfolding demo_order_request_def new_order_def create_payment_order_request.simps by code_simp+

definition demo_order :: payment_order where
  "demo_order = paid_row 40 ''P1'' ''paid'' (new_order 30 800 demo_order_request ''T1'' ''url'' 500000000)"

lemma demo_paid_orders: "pd_orders demo_paid = [demo_order]" "find_order 800 demo_paid = Some demo_order"
  unfolding demo_paid_def demo_ordered_orders demo_order_def
  unfolding demo_order_request_def new_order_def create_payment_order_request.simps by code_simp+

lemma demo_order_simps: "po_status demo_order = Order_Paid" "po_amount demo_order = 500000000" "po_id demo_order = 800"
    "po_tenant_id demo_order = 1" "po_user_id demo_order = 7"
  by (simp_all add: demo_order_def new_order_def demo_order_request_def)

definition demo_tenant_scope :: tenant_scope where
  "demo_tenant_scope = \<lparr>ts_tenant_id = 1, ts_user_id = 7, ts_tenant_role = Tenant_Member_Role\<rparr>"

lemma demo_actor: "current_tenant_actor False (ts_tenant_id demo_tenant_scope) (ts_user_id demo_tenant_scope) (pd_wallet demo_paid)"
  unfolding demo_paid_def demo_ordered_orders
  unfolding demo_order_request_def new_order_def create_payment_order_request.simps by code_simp

lemma demo_paid_eq: "demo_credit ''P1'' demo_ordered = (demo_paid, Inr True)"
  using demo_credits(1) by (simp add: demo_paid_def prod_eq_iff)

theorem order_credited_once_witness:
  "\<exists>x. filter (\<lambda>x. bt_type x = Recharge \<and> bt_order_id x = Some 800) (wd_transactions (pd_wallet demo_paid)) = [x] \<and> bt_amount x = 500000000"
  using order_credited_once [OF demo_payment_reach(2), of demo_order] by (auto simp: demo_paid_orders(1) demo_order_simps)

theorem order_status_final_witness:
  "\<exists>o2. find_order 800 (fst (close_order 50 800 demo_paid)) = Some o2 \<and> po_status o2 = Order_Paid \<and> po_amount o2 = 500000000"
proof -
  have "(payment_step demo_digest)\<^sup>*\<^sup>* demo_paid (fst (close_order 50 800 demo_paid))" by (rule r_into_rtranclp) (rule payment_step.close)
  from order_status_final [OF this demo_payment_reach(2) demo_paid_orders(2)] show ?thesis by (auto simp: demo_order_simps)
qed

theorem notification_idempotent_witness:
  "\<exists>db3 r. demo_credit ''P1'' demo_ordered = (demo_paid, Inr True) \<and> demo_credit ''P1'' demo_paid = (db3, r)
     \<and> pd_wallet db3 = pd_wallet demo_paid \<and> r = Inr False \<and> (\<exists>e. snd (demo_credit ''P2'' demo_paid) = Inl e)"
proof -
  note idem = notification_idempotent [OF demo_payment_reach(1) demo_paid_eq [unfolded demo_credit_def] rtranclp.rtrancl_refl prod.collapse [symmetric]]
  have "has_tenant (po_tenant_id demo_order) (wd_tenants (pd_wallet demo_paid))"
    unfolding demo_order_simps demo_paid_def demo_ordered_orders
    unfolding demo_order_request_def new_order_def create_payment_order_request.simps by code_simp
  then have "snd (demo_credit ''P1'' demo_paid) = Inr False" "pd_wallet (fst (demo_credit ''P1'' demo_paid)) = pd_wallet demo_paid"
    using idem [of 40 801 "''P1''" "''E1''" "''paid''" "''recharge''"] by (simp_all add: demo_credit_def demo_paid_orders(2))
  moreover have "\<exists>e. snd (demo_credit ''P2'' demo_paid) = Inl e"
    using idem [of 40 801 "''P2''" "''E1''" "''paid''" "''recharge''"] by (simp add: demo_credit_def)
  ultimately show ?thesis using demo_paid_eq by (metis prod.collapse)
qed

theorem orders_well_typed_witness: "orders_typed demo_paid \<and> pd_orders demo_paid = [demo_order]"
  using orders_well_typed [OF demo_payment_reach(2)] demo_paid_orders(1) by simp

theorem stats_match_ledger_witness:
  "\<exists>st. stats_owned demo_tenant_scope demo_paid = Inr st \<and> st_paid_amount st = 500000000
     \<and> sum_list (map bt_amount (filter (\<lambda>x. bt_type x = Recharge \<and> bt_order_id x \<noteq> None \<and> bt_tenant_id x = 1 \<and> bt_user_id x = 7)
          (wd_transactions (pd_wallet demo_paid)))) = 500000000"
proof -
  obtain st where st: "stats_owned demo_tenant_scope demo_paid = Inr st" "st_paid_amount st = 500000000"
    using demo_actor by (auto simp: stats_owned_def read_predicate_def scope_predicate_def order_stats_def demo_paid_orders(1)
        demo_order_simps demo_tenant_scope_def)
  show ?thesis using stats_match_ledger [OF demo_payment_reach(2) demo_actor st(1)] st by (simp add: demo_tenant_scope_def)
qed

theorem owned_pages_complete_witness:
  "\<exists>pages. map (\<lambda>k. list_owned demo_tenant_scope None 1 (int k) demo_paid) [0..<2] = map Inr pages \<and> set (concat pages) = {demo_order}"
proof -
  have n: "count_owned demo_tenant_scope None demo_paid = Inr 1"
    using demo_actor by (simp add: count_owned_def scoped_count_def read_predicate_def scope_predicate_def demo_paid_orders(1)
        demo_order_simps demo_tenant_scope_def)
  have two: "[0..<Suc (1 div 1)] = [0..<2]" by (simp add: numeral_2_eq_2)
  have rows: "{o' \<in> set (pd_orders demo_paid). po_tenant_id o' = ts_tenant_id demo_tenant_scope \<and> po_user_id o' = ts_user_id demo_tenant_scope
      \<and> (\<forall>wanted. None = Some wanted \<longrightarrow> payment_status_as_str (po_status o') = wanted)} = {demo_order}"
    by (auto simp: demo_paid_orders(1) demo_order_simps demo_tenant_scope_def)
  show ?thesis using owned_pages_complete [OF demo_payment_reach(2) demo_actor _ _ n, of 1] unfolding two rows by auto
qed

end
