(* ===== verification/Memory_Budget.thy ===== *)
theory Memory_Budget
  imports Prelude "HOL-Library.Multiset"
begin

text \<open>
  The process-wide budget for payloads kept in memory (\<open>crates/keycompute-types/src/memory.rs\<close>) and the permits for large bodies
  built on it (\<open>crates/llm-protocol/provider/src/http.rs\<close>). A reservation (\<open>Arc<Claim>\<close>) is a claim with the number of
  its owners; a permit is the position of its claim. A claim leaves the budget when its last owner is dropped. A panic of the
  sources (\<open>expect\<close>) is the value \<open>None\<close>. \<open>usize\<close> has 64 bits.
\<close>

type_synonym usize = u64

record memory_status =
  limit :: usize
  used :: usize
  peak :: usize

record claim =
  claim_bytes :: usize
  owners :: nat

record memory_budget =
  state :: memory_status
  claims :: "claim list"

datatype memory_error = MemoryExhausted | NonPositiveLimit | DifferentLimit

type_synonym permit = nat

section \<open>The operations of the budget\<close>

definition budget_new :: "usize \<Rightarrow> memory_error + memory_budget" where
  "budget_new l = (if l = 0 then Inl NonPositiveLimit else Inr \<lparr>state = \<lparr>limit = l, used = 0, peak = 0\<rparr>, claims = []\<rparr>)"

definition available :: "memory_status \<Rightarrow> usize" where
  "available s = sat_sub (limit s) (used s)"

definition charge :: "usize \<Rightarrow> memory_status \<Rightarrow> memory_status" where
  "charge n s = s\<lparr>used := used s + n, peak := max (peak s) (used s + n)\<rparr>"

definition budget_reserve :: "usize \<Rightarrow> memory_budget \<Rightarrow> (memory_error + permit) \<times> memory_budget" where
  "budget_reserve n b =
     (if available (state b) < n then (Inl MemoryExhausted, b)
      else (Inr (length (claims b)),
            b\<lparr>state := charge n (state b), claims := claims b @ [\<lparr>claim_bytes = n, owners = 1\<rparr>]\<rparr>))"

definition permit_bytes :: "permit \<Rightarrow> memory_budget \<Rightarrow> usize" where
  "permit_bytes p b = claim_bytes (claims b ! p)"

definition grow_to :: "permit \<Rightarrow> usize \<Rightarrow> memory_budget \<Rightarrow> (memory_error + unit) \<times> memory_budget" where
  "grow_to p n b =
     (let c = claims b ! p; current = claim_bytes c; delta = n - current in
      if n \<le> current then (Inr (), b)
      else if available (state b) < delta then (Inl MemoryExhausted, b)
      else (Inr (), b\<lparr>state := charge delta (state b), claims := (claims b)[p := c\<lparr>claim_bytes := n\<rparr>]\<rparr>))"

definition shrink_to :: "permit \<Rightarrow> usize \<Rightarrow> memory_budget \<Rightarrow> memory_budget" where
  "shrink_to p n b =
     (let c = claims b ! p; current = claim_bytes c in
      if owners c \<noteq> 1 then b
      else if current \<le> n then b
      else b\<lparr>state := (state b)\<lparr>used := used (state b) - (current - n)\<rparr>, claims := (claims b)[p := c\<lparr>claim_bytes := n\<rparr>]\<rparr>)"

definition clone_permit :: "permit \<Rightarrow> memory_budget \<Rightarrow> memory_budget" where
  "clone_permit p b = (let c = claims b ! p in b\<lparr>claims := (claims b)[p := c\<lparr>owners := owners c + 1\<rparr>]\<rparr>)"

text \<open>Dropping the last owner runs \<open>Claim::drop\<close>, whose subtraction panics below zero.\<close>

definition claim_drop :: "usize \<Rightarrow> memory_status \<Rightarrow> memory_status option" where
  "claim_drop n s = (if n \<le> used s then Some (s\<lparr>used := used s - n\<rparr>) else None)"

definition drop_permit :: "permit \<Rightarrow> memory_budget \<Rightarrow> memory_budget option" where
  "drop_permit p b =
     (let c = claims b ! p; b' = b\<lparr>claims := (claims b)[p := c\<lparr>owners := owners c - 1\<rparr>]\<rparr> in
      if owners c = 1 then map_option (\<lambda>s. b'\<lparr>state := s\<rparr>) (claim_drop (claim_bytes c) (state b)) else Some b')"

text \<open>The budget of the process is set once; a later configuration has to agree with it.\<close>

definition default_managed_memory_bytes :: usize where "default_managed_memory_bytes = 512 * 1024 * 1024"

definition process_memory_budget :: "memory_budget option \<Rightarrow> memory_budget" where
  "process_memory_budget p =
     (case p of Some b \<Rightarrow> b
      | None \<Rightarrow> \<lparr>state = \<lparr>limit = default_managed_memory_bytes, used = 0, peak = 0\<rparr>, claims = []\<rparr>)"

definition configure_process_memory_budget ::
    "usize \<Rightarrow> memory_budget option \<Rightarrow> (memory_error + unit) \<times> memory_budget option" where
  "configure_process_memory_budget n p =
     (if n = 0 then (Inl NonPositiveLimit, p)
      else let b = (case p of Some b \<Rightarrow> b | None \<Rightarrow> \<lparr>state = \<lparr>limit = n, used = 0, peak = 0\<rparr>, claims = []\<rparr>) in
        (if limit (state b) \<noteq> n then Inl DifferentLimit else Inr (), Some b))"

section \<open>Permits for large bodies\<close>

text \<open>
  A large body holds one of two process-wide slots in addition to its bytes (\<open>LargeBodyPermit\<close>). The slots are the live entries of
  a list of owner counts, as the claims are.
\<close>

record process_memory =
  budget :: memory_budget
  slots :: "nat list"

record large_permit =
  lp_slot :: "nat option"
  lp_memory :: permit

definition large_json_body_concurrency :: nat where "large_json_body_concurrency = 2"

definition slots_taken :: "nat list \<Rightarrow> nat" where "slots_taken ss = length (filter (\<lambda>n. 0 < n) ss)"

definition try_acquire_slot :: "process_memory \<Rightarrow> (nat \<times> process_memory) option" where
  "try_acquire_slot m =
     (if slots_taken (slots m) < large_json_body_concurrency then Some (length (slots m), m\<lparr>slots := slots m @ [1]\<rparr>) else None)"

definition large_reserve :: "usize \<Rightarrow> process_memory \<Rightarrow> large_permit option \<times> process_memory" where
  "large_reserve n m =
     (case budget_reserve n (budget m) of
        (Inl _, b) \<Rightarrow> (None, m\<lparr>budget := b\<rparr>)
      | (Inr p, b) \<Rightarrow> (Some \<lparr>lp_slot = None, lp_memory = p\<rparr>, m\<lparr>budget := b\<rparr>))"

definition large_grow_to :: "large_permit \<Rightarrow> usize \<Rightarrow> process_memory \<Rightarrow> bool \<times> process_memory" where
  "large_grow_to g n m = (case grow_to (lp_memory g) n (budget m) of (r, b) \<Rightarrow> (r = Inr (), m\<lparr>budget := b\<rparr>))"

definition has_large_slot :: "large_permit \<Rightarrow> bool" where "has_large_slot g \<longleftrightarrow> lp_slot g \<noteq> None"

definition admit_payload ::
    "large_permit option \<Rightarrow> usize \<Rightarrow> bool \<Rightarrow> process_memory \<Rightarrow> bool \<times> large_permit option \<times> process_memory" where
  "admit_payload g n large m =
     (case (case g of None \<Rightarrow> large_reserve n m | Some _ \<Rightarrow> (g, m)) of
        (None, m1) \<Rightarrow> (False, None, m1)
      | (Some guard, m1) \<Rightarrow>
          (case large_grow_to guard n m1 of
             (False, m2) \<Rightarrow> (False, Some guard, m2)
           | (True, m2) \<Rightarrow>
               if large \<and> \<not> has_large_slot guard
               then (case try_acquire_slot m2 of
                       None \<Rightarrow> (False, Some guard, m2)
                     | Some (slot, m3) \<Rightarrow> (True, Some (guard\<lparr>lp_slot := Some slot\<rparr>), m3))
               else (True, Some guard, m2)))"

text \<open>A copy of a large permit shares the slot and the claim; dropping a permit gives up its share of both.\<close>

definition clone_large :: "large_permit \<Rightarrow> process_memory \<Rightarrow> process_memory" where
  "clone_large g m =
     m\<lparr>budget := clone_permit (lp_memory g) (budget m),
       slots := (case lp_slot g of None \<Rightarrow> slots m | Some i \<Rightarrow> (slots m)[i := slots m ! i + 1])\<rparr>"

definition drop_large :: "large_permit \<Rightarrow> process_memory \<Rightarrow> process_memory option" where
  "drop_large g m =
     map_option
       (\<lambda>b. m\<lparr>budget := b, slots := (case lp_slot g of None \<Rightarrow> slots m | Some i \<Rightarrow> (slots m)[i := slots m ! i - 1])\<rparr>)
       (drop_permit (lp_memory g) (budget m))"

text \<open>A permit that is not admitted is dropped on return.\<close>

definition max_json_passthrough_working_set_bytes :: usize where "max_json_passthrough_working_set_bytes = 224 * 1024 * 1024"

definition try_acquire_large_body_permit :: "process_memory \<Rightarrow> (large_permit option \<times> process_memory) option" where
  "try_acquire_large_body_permit m =
     (case admit_payload None max_json_passthrough_working_set_bytes True m of
        (True, g, m') \<Rightarrow> Some (g, m')
      | (False, None, m') \<Rightarrow> Some (None, m')
      | (False, Some g, m') \<Rightarrow> map_option (Pair None) (drop_large g m'))"

section \<open>Exact accounting\<close>

definition live_claim :: "claim \<Rightarrow> nat" where "live_claim c = (if 0 < owners c then unat (claim_bytes c) else 0)"

definition live_bytes :: "memory_budget \<Rightarrow> nat" where "live_bytes b = sum_list (map live_claim (claims b))"

definition held :: "permit \<Rightarrow> memory_budget \<Rightarrow> bool" where
  "held p b \<longleftrightarrow> p < length (claims b) \<and> 0 < owners (claims b ! p)"

definition budget_inv :: "memory_budget \<Rightarrow> bool" where
  "budget_inv b \<longleftrightarrow> unat (used (state b)) = live_bytes b \<and> used (state b) \<le> peak (state b) \<and> peak (state b) \<le> limit (state b)"

lemma live_bytes_update:
  assumes "p < length (claims b)"
  shows "live_bytes (b\<lparr>state := s, claims := (claims b)[p := c]\<rparr>) + live_claim (claims b ! p) = live_bytes b + live_claim c"
    and "live_bytes (b\<lparr>claims := (claims b)[p := c]\<rparr>) + live_claim (claims b ! p) = live_bytes b + live_claim c"
proof -
  have "live_claim (claims b ! p) \<le> sum_list (map live_claim (claims b))"
    using elem_le_sum_list [of p "map live_claim (claims b)"] assms by simp
  then show "live_bytes (b\<lparr>state := s, claims := (claims b)[p := c]\<rparr>) + live_claim (claims b ! p) = live_bytes b + live_claim c"
    "live_bytes (b\<lparr>claims := (claims b)[p := c]\<rparr>) + live_claim (claims b ! p) = live_bytes b + live_claim c"
    using assms by (simp_all add: live_bytes_def map_update sum_list_update)
qed

lemma live_le: "p < length (claims b) \<Longrightarrow> live_claim (claims b ! p) \<le> live_bytes b"
  using elem_le_sum_list [of p "map live_claim (claims b)"] by (simp add: live_bytes_def)

lemma charge_exact:
  assumes "used s \<le> limit s" "\<not> available s < n"
  shows "unat (used s + n) = unat (used s) + unat n" "used s + n \<le> limit s"
proof -
  have le: "unat (used s) + unat n \<le> unat (limit s)"
    using assms by (simp add: available_def word_less_nat_alt word_le_nat_alt unat_sat_sub)
  moreover have "unat (limit s) < 2 ^ 64" using unsigned_less [of "limit s"] by simp
  ultimately show u: "unat (used s + n) = unat (used s) + unat n" by (simp add: unat_word_ariths)
  show "used s + n \<le> limit s" using le by (simp add: word_le_nat_alt u)
qed

lemma budget_inv_new: "budget_new l = Inr b \<Longrightarrow> budget_inv b"
  by (auto simp: budget_new_def budget_inv_def live_bytes_def split: if_splits)

lemma budget_inv_reserve: "budget_inv b \<Longrightarrow> budget_inv (snd (budget_reserve n b))"
proof -
  assume b: "budget_inv b"
  then have "used (state b) \<le> limit (state b)" by (auto simp: budget_inv_def)
  note e = charge_exact [OF this]
  show ?thesis
    using b e by (auto simp: budget_reserve_def budget_inv_def charge_def live_bytes_def live_claim_def max_def)
qed

lemma budget_inv_grow_to:
  assumes b: "budget_inv b" and p: "held p b"
  shows "budget_inv (snd (grow_to p n b))"
proof -
  let ?c = "claims b ! p" and ?d = "n - claim_bytes (claims b ! p)"
  have "used (state b) \<le> limit (state b)" using b by (auto simp: budget_inv_def)
  note e = charge_exact [OF this, of ?d]
  show ?thesis
  proof (cases "n \<le> claim_bytes ?c \<or> available (state b) < ?d")
    case True
    then show ?thesis using b by (auto simp: grow_to_def Let_def)
  next
    case False
    let ?b = "b\<lparr>state := charge ?d (state b), claims := (claims b)[p := ?c\<lparr>claim_bytes := n\<rparr>]\<rparr>"
    have cn: "claim_bytes ?c < n" using False by (simp add: not_le)
    have "unat ?d = unat n - unat (claim_bytes ?c)" by (rule unat_sub [OF less_imp_le [OF cn]])
    moreover have "unat (claim_bytes ?c) < unat n" using cn by (simp add: word_less_nat_alt)
    moreover have "live_bytes ?b + live_claim ?c = live_bytes b + live_claim (?c\<lparr>claim_bytes := n\<rparr>)"
      by (rule live_bytes_update) (use p in \<open>simp add: held_def\<close>)
    ultimately have "live_bytes ?b = live_bytes b + unat ?d" using p by (simp add: live_claim_def held_def)
    then have "budget_inv ?b" using b e False by (auto simp: budget_inv_def charge_def max_def)
    then show ?thesis using False by (simp add: grow_to_def Let_def)
  qed
qed

lemma budget_inv_shrink_to:
  assumes b: "budget_inv b" and p: "held p b"
  shows "budget_inv (shrink_to p n b)"
proof (cases "owners (claims b ! p) \<noteq> 1 \<or> claim_bytes (claims b ! p) \<le> n")
  case True
  then show ?thesis using b by (auto simp: shrink_to_def Let_def)
next
  case False
  let ?c = "claims b ! p"
  let ?d = "claim_bytes ?c - n"
  let ?b = "b\<lparr>state := (state b)\<lparr>used := used (state b) - ?d\<rparr>, claims := (claims b)[p := ?c\<lparr>claim_bytes := n\<rparr>]\<rparr>"
  have cn: "n < claim_bytes ?c" using False by (simp add: not_le)
  have d: "unat ?d = unat (claim_bytes ?c) - unat n" "unat n < unat (claim_bytes ?c)"
    using unat_sub [OF less_imp_le [OF cn]] cn by (simp_all add: word_less_nat_alt)
  have "live_bytes ?b + live_claim ?c = live_bytes b + live_claim (?c\<lparr>claim_bytes := n\<rparr>)"
    by (rule live_bytes_update) (use p in \<open>simp add: held_def\<close>)
  moreover have "live_claim ?c \<le> live_bytes b" by (rule live_le) (use p in \<open>simp add: held_def\<close>)
  ultimately have l: "live_bytes ?b = live_bytes b - unat ?d" "unat ?d \<le> live_bytes b"
    using p d by (simp_all add: live_claim_def held_def)
  then have "?d \<le> used (state b)" using b by (simp add: budget_inv_def word_le_nat_alt)
  then have u: "unat (used (state b) - ?d) = unat (used (state b)) - unat ?d" by (rule unat_sub)
  then have "used (state b) - ?d \<le> used (state b)" by (simp add: word_le_nat_alt)
  then have "budget_inv ?b" using b l u by (auto simp: budget_inv_def)
  then show ?thesis using False by (simp add: shrink_to_def Let_def)
qed

lemma budget_inv_clone: "budget_inv b \<Longrightarrow> held p b \<Longrightarrow> budget_inv (clone_permit p b)"
  using live_bytes_update(2) [of p b "(claims b ! p)\<lparr>owners := owners (claims b ! p) + 1\<rparr>"]
  by (simp add: budget_inv_def clone_permit_def Let_def held_def live_claim_def)

text \<open>A held permit can be dropped: the subtraction never goes below zero.\<close>

lemma drop_permit_held:
  assumes b: "budget_inv b" and p: "held p b"
  obtains b' where "drop_permit p b = Some b'" "budget_inv b'"
    "claims b' = (claims b)[p := (claims b ! p)\<lparr>owners := owners (claims b ! p) - 1\<rparr>]"
proof -
  let ?c = "claims b ! p"
  let ?c' = "?c\<lparr>owners := owners ?c - 1\<rparr>"
  have l: "p < length (claims b)" using p by (simp add: held_def)
  show ?thesis
  proof (cases "owners ?c = 1")
    case True
    have "live_claim ?c \<le> live_bytes b" by (rule live_le [OF l])
    then have le: "claim_bytes ?c \<le> used (state b)" using b True by (simp add: budget_inv_def live_claim_def word_le_nat_alt)
    then have u: "unat (used (state b) - claim_bytes ?c) = unat (used (state b)) - unat (claim_bytes ?c)" by (rule unat_sub)
    then have "used (state b) - claim_bytes ?c \<le> used (state b)" by (simp add: word_le_nat_alt)
    moreover have "live_bytes (b\<lparr>state := (state b)\<lparr>used := used (state b) - claim_bytes ?c\<rparr>, claims := (claims b)[p := ?c']\<rparr>)
        + live_claim ?c = live_bytes b + live_claim ?c'" by (rule live_bytes_update [OF l])
    ultimately have i: "budget_inv (b\<lparr>state := (state b)\<lparr>used := used (state b) - claim_bytes ?c\<rparr>, claims := (claims b)[p := ?c']\<rparr>)"
      using b u True by (auto simp: budget_inv_def live_claim_def)
    have "drop_permit p b = Some (b\<lparr>state := (state b)\<lparr>used := used (state b) - claim_bytes ?c\<rparr>, claims := (claims b)[p := ?c']\<rparr>)"
      using True le by (simp add: drop_permit_def claim_drop_def Let_def)
    then show ?thesis by (rule that [OF _ i]) simp
  next
    case False
    then have "1 < owners ?c" using p by (simp add: held_def)
    then have "live_claim ?c' = live_claim ?c" by (simp add: live_claim_def)
    then have i: "budget_inv (b\<lparr>claims := (claims b)[p := ?c']\<rparr>)"
      using b live_bytes_update(2) [OF l, of ?c'] by (simp add: budget_inv_def)
    have "drop_permit p b = Some (b\<lparr>claims := (claims b)[p := ?c']\<rparr>)" using False by (simp add: drop_permit_def Let_def)
    then show ?thesis by (rule that [OF _ i]) simp
  qed
qed

section \<open>The permits of the process\<close>

text \<open>
  The state of the process: the budget, the slots and the permits that are held. Every holder of a \<open>MemoryPermit\<close> is a permit
  without a slot. A step is one call under the locks of the budget; calls of different tasks interleave in any order.
\<close>

record memory_world =
  mem :: process_memory
  permits :: "large_permit list"

inductive memory_step :: "memory_world \<Rightarrow> memory_world \<Rightarrow> bool" where
  MS_Admit: "admit_payload None n large (mem w) = (ok, g, m) \<Longrightarrow>
     memory_step w (w\<lparr>mem := m, permits := permits w @ (case g of None \<Rightarrow> [] | Some g \<Rightarrow> [g])\<rparr>)"
| MS_Readmit: "g \<in> set (permits w) \<Longrightarrow> admit_payload (Some g) n large (mem w) = (ok, Some g', m) \<Longrightarrow>
     memory_step w (w\<lparr>mem := m, permits := remove1 g (permits w) @ [g']\<rparr>)"
| MS_Shrink: "g \<in> set (permits w) \<Longrightarrow>
     memory_step w (w\<lparr>mem := (mem w)\<lparr>budget := shrink_to (lp_memory g) n (budget (mem w))\<rparr>\<rparr>)"
| MS_Clone: "g \<in> set (permits w) \<Longrightarrow> memory_step w (w\<lparr>mem := clone_large g (mem w), permits := permits w @ [g]\<rparr>)"
| MS_Drop: "g \<in> set (permits w) \<Longrightarrow> drop_large g (mem w) = Some m \<Longrightarrow>
     memory_step w (w\<lparr>mem := m, permits := remove1 g (permits w)\<rparr>)"

definition memory_start :: "usize \<Rightarrow> memory_world" where
  "memory_start l = \<lparr>mem = \<lparr>budget = \<lparr>state = \<lparr>limit = l, used = 0, peak = 0\<rparr>, claims = []\<rparr>, slots = []\<rparr>, permits = []\<rparr>"

definition memory_reach :: "usize \<Rightarrow> memory_world \<Rightarrow> bool" where
  "memory_reach l w \<longleftrightarrow> memory_step\<^sup>*\<^sup>* (memory_start l) w"

text \<open>The owners of a claim, and of a slot, are the permits that name it.\<close>

definition tally :: "('g \<Rightarrow> bool) \<Rightarrow> 'g list \<Rightarrow> nat" where "tally P gs = length (filter P gs)"

definition owners_ok :: "claim list \<Rightarrow> large_permit list \<Rightarrow> bool" where
  "owners_ok cs gs \<longleftrightarrow> (\<forall>g\<in>set gs. lp_memory g < length cs) \<and>
     (\<forall>p<length cs. owners (cs ! p) = tally (\<lambda>g. lp_memory g = p) gs)"

definition slots_ok :: "nat list \<Rightarrow> large_permit list \<Rightarrow> bool" where
  "slots_ok ss gs \<longleftrightarrow> (\<forall>g\<in>set gs. \<forall>i. lp_slot g = Some i \<longrightarrow> i < length ss) \<and>
     (\<forall>i<length ss. ss ! i = tally (\<lambda>g. lp_slot g = Some i) gs) \<and> slots_taken ss \<le> large_json_body_concurrency"

definition memory_inv :: "memory_world \<Rightarrow> bool" where
  "memory_inv w \<longleftrightarrow> budget_inv (budget (mem w)) \<and> owners_ok (claims (budget (mem w))) (permits w) \<and> slots_ok (slots (mem w)) (permits w)"

lemma tally_simps [simp]:
  "tally P [] = 0" "tally P (gs @ hs) = tally P gs + tally P hs" "tally P [g] = (if P g then 1 else 0)"
  by (simp_all add: tally_def)

lemma tally_remove1: "g \<in> set gs \<Longrightarrow> tally P (remove1 g gs) = tally P gs - (if P g then 1 else 0)"
  by (simp add: tally_def length_filter_remove1)

lemma tally_pos: "g \<in> set gs \<Longrightarrow> P g \<Longrightarrow> 0 < tally P gs"
  by (auto simp: tally_def filter_empty_conv)

lemma tally_none: "(\<And>g. g \<in> set gs \<Longrightarrow> \<not> P g) \<Longrightarrow> tally P gs = 0"
  by (simp add: tally_def filter_empty_conv)

lemma owners_ok_held: "owners_ok cs gs \<Longrightarrow> g \<in> set gs \<Longrightarrow> lp_memory g < length cs \<and> 0 < owners (cs ! lp_memory g)"
  by (simp add: owners_ok_def tally_pos)

lemma owners_ok_new:
  assumes "owners_ok cs gs" "lp_memory g = length cs" "owners c = 1"
  shows "owners_ok (cs @ [c]) (gs @ [g])"
proof -
  have "tally (\<lambda>g. lp_memory g = length cs) gs = 0"
    by (rule tally_none) (use assms(1) in \<open>auto simp: owners_ok_def\<close>)
  with assms show ?thesis by (auto simp: owners_ok_def nth_append less_Suc_eq)
qed

lemma owners_ok_same: "owners_ok cs gs \<Longrightarrow> owners c = owners (cs ! p) \<Longrightarrow> owners_ok (cs[p := c]) gs"
  by (cases "p < length cs") (auto simp: owners_ok_def nth_list_update)

lemma owners_ok_replace:
  assumes "owners_ok cs gs" "g \<in> set gs" "lp_memory g' = lp_memory g"
  shows "owners_ok cs (remove1 g gs @ [g'])"
proof -
  have "0 < tally (\<lambda>h. lp_memory h = lp_memory g) gs" by (rule tally_pos) (use assms(2) in simp_all)
  with assms show ?thesis by (auto simp: owners_ok_def tally_remove1 dest: notin_set_remove1 in_set_remove1 [THEN iffD1])
qed

lemma owners_ok_clone:
  assumes "owners_ok cs gs" "g \<in> set gs" "owners c = owners (cs ! lp_memory g) + 1"
  shows "owners_ok (cs[lp_memory g := c]) (gs @ [g])"
  using assms owners_ok_held [OF assms(1,2)] by (auto simp: owners_ok_def nth_list_update)

lemma owners_ok_drop:
  assumes "owners_ok cs gs" "g \<in> set gs" "owners c = owners (cs ! lp_memory g) - 1"
  shows "owners_ok (cs[lp_memory g := c]) (remove1 g gs)"
  using assms owners_ok_held [OF assms(1,2)] by (auto simp: owners_ok_def nth_list_update tally_remove1 dest: set_remove1_subset [THEN subsetD])

lemma slots_taken_card: "slots_taken ss = card {i. i < length ss \<and> 0 < ss ! i}"
  by (simp add: slots_taken_def length_filter_conv_card)

lemma slots_taken_mono:
  assumes "length ts = length ss" "\<And>i. i < length ss \<Longrightarrow> 0 < ts ! i \<Longrightarrow> 0 < ss ! i"
  shows "slots_taken ts \<le> slots_taken ss"
  unfolding slots_taken_card by (rule card_mono) (use assms in auto)

lemma slots_ok_pos: "slots_ok ss gs \<Longrightarrow> g \<in> set gs \<Longrightarrow> lp_slot g = Some i \<Longrightarrow> i < length ss \<and> 0 < ss ! i"
  using tally_pos [of g gs "\<lambda>g. lp_slot g = Some i"] by (auto simp: slots_ok_def)

lemma slots_ok_unslotted: "slots_ok ss gs \<Longrightarrow> lp_slot g = None \<Longrightarrow> slots_ok ss (gs @ [g])"
  by (auto simp: slots_ok_def)

lemma slots_ok_new:
  assumes "slots_ok ss gs" "slots_taken ss < large_json_body_concurrency" "lp_slot g = Some (length ss)"
  shows "slots_ok (ss @ [1]) (gs @ [g])"
proof -
  have "tally (\<lambda>g. lp_slot g = Some (length ss)) gs = 0"
    by (rule tally_none) (use assms(1) in \<open>auto simp: slots_ok_def\<close>)
  moreover have "slots_taken (ss @ [1]) = slots_taken ss + 1" by (simp add: slots_taken_def)
  ultimately show ?thesis using assms by (auto simp: slots_ok_def nth_append less_Suc_eq)
qed

lemma slots_ok_clone:
  assumes s: "slots_ok ss gs" and g: "g \<in> set gs"
  shows "slots_ok (case lp_slot g of None \<Rightarrow> ss | Some i \<Rightarrow> ss[i := ss ! i + 1]) (gs @ [g])"
proof (cases "lp_slot g")
  case None
  then show ?thesis using slots_ok_unslotted [OF s] by simp
next
  case (Some i)
  note i = slots_ok_pos [OF s g Some]
  have "slots_taken (ss[i := ss ! i + 1]) \<le> slots_taken ss"
    by (rule slots_taken_mono) (use i in \<open>auto simp: nth_list_update split: if_splits\<close>)
  then show ?thesis using s Some i by (auto simp: slots_ok_def nth_list_update)
qed

lemma slots_ok_drop:
  assumes s: "slots_ok ss gs" and g: "g \<in> set gs"
  shows "slots_ok (case lp_slot g of None \<Rightarrow> ss | Some i \<Rightarrow> ss[i := ss ! i - 1]) (remove1 g gs)"
proof (cases "lp_slot g")
  case None
  then show ?thesis using s g by (auto simp: slots_ok_def tally_remove1 dest: set_remove1_subset [THEN subsetD])
next
  case (Some i)
  note i = slots_ok_pos [OF s g Some]
  have "slots_taken (ss[i := ss ! i - 1]) \<le> slots_taken ss"
    by (rule slots_taken_mono) (use i in \<open>auto simp: nth_list_update split: if_splits\<close>)
  then show ?thesis
    using s g Some i by (auto simp: slots_ok_def nth_list_update tally_remove1 dest: set_remove1_subset [THEN subsetD])
qed

text \<open>Replacing a permit by one with the same claim and the same slot, or with a new slot where it had none.\<close>

lemma slots_ok_replace_same: "slots_ok ss gs \<Longrightarrow> g \<in> set gs \<Longrightarrow> slots_ok ss (remove1 g gs @ [g])"
proof -
  assume s: "slots_ok ss gs" and g: "g \<in> set gs"
  have "mset (remove1 g gs @ [g]) = mset gs" using g by simp
  then have "tally P (remove1 g gs @ [g]) = tally P gs" for P
    unfolding tally_def by (metis mset_filter size_mset)
  moreover have "set (remove1 g gs @ [g]) = set gs" using \<open>mset _ = mset _\<close> by (metis set_mset_mset)
  ultimately have "slots_ok ss (remove1 g gs @ [g]) = slots_ok ss gs" by (simp only: slots_ok_def)
  then show ?thesis using s by (rule iffD2)
qed

section \<open>Every step keeps the accounts\<close>

lemma large_reserve_cases:
  assumes "large_reserve n m = (g, m')" "budget_inv (budget m)" "owners_ok (claims (budget m)) gs" "slots_ok (slots m) gs"
  shows "budget_inv (budget m')" "slots m' = slots m"
    "owners_ok (claims (budget m')) (gs @ (case g of None \<Rightarrow> [] | Some g \<Rightarrow> [g]))"
    "slots_ok (slots m) (gs @ (case g of None \<Rightarrow> [] | Some g \<Rightarrow> [g]))"
proof -
  have "budget_inv (snd (budget_reserve n (budget m)))" by (rule budget_inv_reserve) (rule assms(2))
  then show "budget_inv (budget m')" "slots m' = slots m"
    using assms(1) by (auto simp: large_reserve_def split: prod.splits sum.splits)
  show "owners_ok (claims (budget m')) (gs @ (case g of None \<Rightarrow> [] | Some g \<Rightarrow> [g]))"
    using assms(1,3) by (auto simp: large_reserve_def budget_reserve_def owners_ok_new split: if_splits)
  show "slots_ok (slots m) (gs @ (case g of None \<Rightarrow> [] | Some g \<Rightarrow> [g]))"
    using assms(1,4) by (auto simp: large_reserve_def budget_reserve_def slots_ok_unslotted split: if_splits)
qed

lemma large_grow_to_keeps:
  assumes "large_grow_to g n m = (ok, m')" "budget_inv (budget m)" "owners_ok (claims (budget m)) gs" "g \<in> set gs"
  shows "budget_inv (budget m')" "owners_ok (claims (budget m')) gs" "slots m' = slots m"
proof -
  have h: "held (lp_memory g) (budget m)" using owners_ok_held [OF assms(3,4)] by (simp add: held_def)
  have m': "budget m' = snd (grow_to (lp_memory g) n (budget m))" "slots m' = slots m"
    using assms(1) by (auto simp: large_grow_to_def split: prod.splits)
  show "budget_inv (budget m')" unfolding m' by (rule budget_inv_grow_to [OF assms(2) h])
  show "owners_ok (claims (budget m')) gs"
    unfolding m' using assms(3) by (auto simp: grow_to_def Let_def intro: owners_ok_same)
  show "slots m' = slots m" by (rule m')
qed

lemma try_acquire_slot_keeps:
  assumes "try_acquire_slot m = Some (i, m')" "slots_ok (slots m) (gs @ [g])" "lp_slot g = None"
  shows "budget m' = budget m" "slots_ok (slots m') (gs @ [g\<lparr>lp_slot := Some i\<rparr>])"
proof -
  have m': "i = length (slots m)" "m' = m\<lparr>slots := slots m @ [1]\<rparr>" "slots_taken (slots m) < large_json_body_concurrency"
    using assms(1) by (auto simp: try_acquire_slot_def split: if_splits)
  then show "budget m' = budget m" by simp
  have "slots_ok (slots m) gs" using assms(2,3) by (auto simp: slots_ok_def)
  then show "slots_ok (slots m') (gs @ [g\<lparr>lp_slot := Some i\<rparr>])"
    using slots_ok_new [OF _ m'(3), of gs "g\<lparr>lp_slot := Some i\<rparr>"] m'(1,2) by simp
qed

text \<open>The last two steps of an admission, for a permit that is the last of those held.\<close>

lemma admit_guard_keeps:
  assumes "admit_payload (Some g) n large m = (ok, g', m')" "budget_inv (budget m)"
    "owners_ok (claims (budget m)) (gs @ [g])" "slots_ok (slots m) (gs @ [g])"
  obtains h where "g' = Some h" "memory_inv \<lparr>mem = m', permits = gs @ [h]\<rparr>"
proof -
  obtain grown m2 where m2: "large_grow_to g n m = (grown, m2)" by (cases "large_grow_to g n m")
  note k = large_grow_to_keeps [OF m2 assms(2,3)]
  have base: "memory_inv \<lparr>mem = m2, permits = gs @ [g]\<rparr>" using k assms(4) by (simp add: memory_inv_def)
  show ?thesis
  proof (cases "grown \<and> large \<and> \<not> has_large_slot g")
    case True
    show ?thesis
    proof (cases "try_acquire_slot m2")
      case None
      then show ?thesis using True assms(1) m2 base by (intro that [of g]) (simp_all add: admit_payload_def)
    next
      case (Some r)
      obtain i m3 where r: "r = (i, m3)" by (cases r)
      have o: "owners_ok (claims (budget m2)) (gs @ [g\<lparr>lp_slot := Some i\<rparr>])"
        using k(2) by (simp add: owners_ok_def)
      have "lp_slot g = None" "slots_ok (slots m2) (gs @ [g])" using True k(3) assms(4) by (simp_all add: has_large_slot_def)
      note t = try_acquire_slot_keeps [OF Some [unfolded r] this(2,1)]
      show ?thesis using True assms(1) m2 Some r t o k(1)
        by (intro that [of "g\<lparr>lp_slot := Some i\<rparr>"]) (simp_all add: admit_payload_def memory_inv_def)
    qed
  next
    case False
    then show ?thesis using assms(1) m2 base by (cases grown) (auto simp: admit_payload_def intro: that)
  qed
qed

lemma admit_none_keeps:
  assumes "admit_payload None n large m = (ok, g, m')" "memory_inv \<lparr>mem = m, permits = gs\<rparr>"
  shows "memory_inv \<lparr>mem = m', permits = gs @ (case g of None \<Rightarrow> [] | Some g \<Rightarrow> [g])\<rparr>"
proof -
  have i: "budget_inv (budget m)" "owners_ok (claims (budget m)) gs" "slots_ok (slots m) gs"
    using assms(2) by (simp_all add: memory_inv_def)
  obtain h m1 where m1: "large_reserve n m = (h, m1)" by (cases "large_reserve n m")
  note k = large_reserve_cases [OF m1 i]
  show ?thesis
  proof (cases h)
    case None
    then show ?thesis using assms(1) m1 k by (simp add: admit_payload_def memory_inv_def)
  next
    case (Some guard)
    have "admit_payload (Some guard) n large m1 = (ok, g, m')" using assms(1) m1 Some by (simp add: admit_payload_def)
    then obtain h' where "g = Some h'" "memory_inv \<lparr>mem = m', permits = gs @ [h']\<rparr>"
      using k Some by (auto elim: admit_guard_keeps)
    then show ?thesis by simp
  qed
qed

lemma owners_ok_rotate:
  assumes "owners_ok cs gs" "g \<in> set gs"
  shows "owners_ok cs (remove1 g gs @ [g])"
  using owners_ok_replace [OF assms] by simp

lemma drop_large_keeps:
  assumes "memory_inv w" "g \<in> set (permits w)"
  obtains m where "drop_large g (mem w) = Some m" "memory_inv (w\<lparr>mem := m, permits := remove1 g (permits w)\<rparr>)"
proof -
  have i: "budget_inv (budget (mem w))" "owners_ok (claims (budget (mem w))) (permits w)" "slots_ok (slots (mem w)) (permits w)"
    using assms(1) by (simp_all add: memory_inv_def)
  have "held (lp_memory g) (budget (mem w))" using owners_ok_held [OF i(2) assms(2)] by (simp add: held_def)
  then obtain b where b: "drop_permit (lp_memory g) (budget (mem w)) = Some b" "budget_inv b"
    "claims b = (claims (budget (mem w)))[lp_memory g := (claims (budget (mem w)) ! lp_memory g)
       \<lparr>owners := owners (claims (budget (mem w)) ! lp_memory g) - 1\<rparr>]"
    by (rule drop_permit_held [OF i(1)])
  have o: "owners_ok (claims b) (remove1 g (permits w))" unfolding b(3) by (rule owners_ok_drop [OF i(2) assms(2)]) simp
  have "drop_large g (mem w) = Some ((mem w)\<lparr>budget := b,
      slots := (case lp_slot g of None \<Rightarrow> slots (mem w) | Some i \<Rightarrow> (slots (mem w))[i := slots (mem w) ! i - 1])\<rparr>)"
    using b(1) by (simp add: drop_large_def)
  then show ?thesis
    by (rule that) (use b(2) o slots_ok_drop [OF i(3) assms(2)] in \<open>simp add: memory_inv_def\<close>)
qed

lemma memory_step_inv:
  assumes "memory_step w w'" "memory_inv w"
  shows "memory_inv w'"
  using assms
proof cases
  case (MS_Admit n large ok g m)
  then show ?thesis using admit_none_keeps [OF MS_Admit(2), of "permits w"] assms(2) by (simp add: memory_inv_def)
next
  case (MS_Readmit g n large ok g' m)
  have "owners_ok (claims (budget (mem w))) (remove1 g (permits w) @ [g])" "slots_ok (slots (mem w)) (remove1 g (permits w) @ [g])"
    using assms(2) MS_Readmit(2) by (simp_all add: memory_inv_def owners_ok_rotate slots_ok_replace_same)
  with MS_Readmit(3) assms(2) have "memory_inv \<lparr>mem = m, permits = remove1 g (permits w) @ [g']\<rparr>"
    by (auto simp: memory_inv_def elim: admit_guard_keeps)
  then show ?thesis using MS_Readmit(1) by (simp add: memory_inv_def)
next
  case (MS_Shrink g n)
  have o: "owners_ok (claims (budget (mem w))) (permits w)" using assms(2) by (simp add: memory_inv_def)
  have "held (lp_memory g) (budget (mem w))" using owners_ok_held [OF o MS_Shrink(2)] by (simp add: held_def)
  then have "budget_inv (shrink_to (lp_memory g) n (budget (mem w)))"
    using assms(2) by (simp add: memory_inv_def budget_inv_shrink_to)
  moreover have "owners_ok (claims (shrink_to (lp_memory g) n (budget (mem w)))) (permits w)"
    using o by (auto simp: shrink_to_def Let_def intro: owners_ok_same)
  ultimately show ?thesis using MS_Shrink assms(2) by (simp add: memory_inv_def)
next
  case (MS_Clone g)
  have o: "owners_ok (claims (budget (mem w))) (permits w)" using assms(2) by (simp add: memory_inv_def)
  have "held (lp_memory g) (budget (mem w))" using owners_ok_held [OF o MS_Clone(2)] by (simp add: held_def)
  then have "budget_inv (clone_permit (lp_memory g) (budget (mem w)))"
    using assms(2) by (simp add: memory_inv_def budget_inv_clone)
  moreover have "owners_ok (claims (clone_permit (lp_memory g) (budget (mem w)))) (permits w @ [g])"
    using o MS_Clone(2) by (simp add: clone_permit_def Let_def owners_ok_clone)
  ultimately show ?thesis
    using MS_Clone assms(2) slots_ok_clone [of "slots (mem w)" "permits w" g] by (simp add: memory_inv_def clone_large_def)
next
  case (MS_Drop g m)
  then show ?thesis using drop_large_keeps [OF assms(2) MS_Drop(2)] by (metis option.inject)
qed

lemma memory_reach_inv: "memory_reach l w \<Longrightarrow> memory_inv w"
  unfolding memory_reach_def
proof (induction rule: rtranclp_induct)
  case base
  then show ?case
    by (simp add: memory_inv_def memory_start_def budget_inv_def live_bytes_def owners_ok_def slots_ok_def slots_taken_def)
next
  case (step w w')
  then show ?case by (rule_tac memory_step_inv)
qed

lemma memory_step_limit: "memory_step w w' \<Longrightarrow> limit (state (budget (mem w'))) = limit (state (budget (mem w)))"
  by (induction rule: memory_step.induct)
    (auto simp: admit_payload_def large_reserve_def budget_reserve_def large_grow_to_def grow_to_def charge_def try_acquire_slot_def
      shrink_to_def clone_large_def clone_permit_def drop_large_def drop_permit_def claim_drop_def Let_def
      split: if_splits option.splits prod.splits bool.splits sum.splits)

lemma memory_reach_limit: "memory_reach l w \<Longrightarrow> limit (state (budget (mem w))) = l"
  unfolding memory_reach_def
  by (induction rule: rtranclp_induct) (simp_all add: memory_start_def memory_step_limit)

text \<open>The bytes of the live claims are those of the claims some permit names, each counted once.\<close>

lemma live_bytes_by_permit:
  assumes "owners_ok (claims b) gs"
  shows "live_bytes b = (\<Sum>p\<in>lp_memory ` set gs. unat (permit_bytes p b))"
proof -
  have set: "{p. p < length (claims b) \<and> 0 < owners (claims b ! p)} = lp_memory ` set gs"
  proof (intro equalityI subsetI)
    fix p assume "p \<in> {p. p < length (claims b) \<and> 0 < owners (claims b ! p)}"
    then have "0 < tally (\<lambda>g. lp_memory g = p) gs" using assms by (auto simp: owners_ok_def)
    then show "p \<in> lp_memory ` set gs" by (auto simp: tally_def filter_empty_conv)
  qed (use owners_ok_held [OF assms] in auto)
  have "live_bytes b = (\<Sum>p = 0..<length (claims b). live_claim (claims b ! p))"
    by (simp add: live_bytes_def sum_list_sum_nth)
  also have "\<dots> = (\<Sum>p\<in>{p. p < length (claims b) \<and> 0 < owners (claims b ! p)}. unat (permit_bytes p b))"
    by (rule sum.mono_neutral_cong_right) (auto simp: live_claim_def permit_bytes_def)
  finally show ?thesis by (simp only: set)
qed

lemma grow_to_covers: "p < length (claims b) \<Longrightarrow> grow_to p n b = (Inr (), b') \<Longrightarrow> n \<le> permit_bytes p b'"
  by (auto simp: grow_to_def Let_def permit_bytes_def split: if_splits)

section \<open>What the budget promises\<close>

text \<open>
  C33: for every budget and every sequence of admissions, growths, shrinkings, copies and drops of permits by any number of tasks,
  the bytes in use are exactly those of the reservations some permit still holds, each counted once however many copies it has;
  they and their peak never exceed the configured limit; at most two large bodies hold a slot; no drop panics; and when the last permit is
  gone the budget is free again.
\<close>

theorem memory_accounted:
  assumes "memory_reach l w"
  shows "unat (used (state (budget (mem w)))) = (\<Sum>p\<in>lp_memory ` set (permits w). unat (permit_bytes p (budget (mem w)))) \<and>
    used (state (budget (mem w))) \<le> l \<and> peak (state (budget (mem w))) \<le> l \<and> slots_taken (slots (mem w)) \<le> 2 \<and>
    (\<forall>g\<in>set (permits w). drop_large g (mem w) \<noteq> None) \<and> (permits w = [] \<longrightarrow> used (state (budget (mem w))) = 0)"
proof -
  have i: "memory_inv w" by (rule memory_reach_inv [OF assms])
  then have b: "budget_inv (budget (mem w))" "owners_ok (claims (budget (mem w))) (permits w)"
    "slots_taken (slots (mem w)) \<le> 2"
    by (simp_all add: memory_inv_def slots_ok_def large_json_body_concurrency_def)
  have u: "unat (used (state (budget (mem w)))) = (\<Sum>p\<in>lp_memory ` set (permits w). unat (permit_bytes p (budget (mem w))))"
    using b(1) live_bytes_by_permit [OF b(2)] by (simp add: budget_inv_def)
  have "used (state (budget (mem w))) \<le> l" "peak (state (budget (mem w))) \<le> l"
    using b(1) memory_reach_limit [OF assms] by (auto simp: budget_inv_def)
  moreover have "drop_large g (mem w) \<noteq> None" if "g \<in> set (permits w)" for g
    using drop_large_keeps [OF i that] by (metis option.distinct(1))
  moreover have "permits w = [] \<longrightarrow> used (state (budget (mem w))) = 0"
    using u by (auto simp: unat_eq_0)
  ultimately show ?thesis using u b(3) by blast
qed

lemma admit_guard_covered:
  assumes "admit_payload (Some h) n large m = (ok, g', m')" "lp_memory h < length (claims (budget m))"
  shows "(ok \<longrightarrow> (\<exists>h'. g' = Some h' \<and> n \<le> permit_bytes (lp_memory h') (budget m') \<and> (large \<longrightarrow> has_large_slot h'))) \<and>
    (\<not> ok \<longrightarrow> slots m' = slots m)"
proof -
  obtain grown m2 where m2: "large_grow_to h n m = (grown, m2)" by (cases "large_grow_to h n m")
  have "grown \<Longrightarrow> n \<le> permit_bytes (lp_memory h) (budget m2)" "slots m2 = slots m"
    using m2 grow_to_covers [OF assms(2)] by (auto simp: large_grow_to_def split: prod.splits)
  then show ?thesis
    using assms(1) m2 by (auto simp: admit_payload_def try_acquire_slot_def has_large_slot_def split: if_splits bool.splits option.splits)
qed

text \<open>
  C34: in every reachable state, a payload that is admitted holds a permit that covers all the bytes it asked for, and, when it is large,
  one of the slots; a payload that is refused takes no slot.
\<close>

theorem admitted_payload_covered:
  assumes "memory_reach l w" "case g of None \<Rightarrow> True | Some h \<Rightarrow> h \<in> set (permits w)"
    "admit_payload g n large (mem w) = (ok, g', m')"
  shows "(ok \<longrightarrow> (\<exists>h. g' = Some h \<and> n \<le> permit_bytes (lp_memory h) (budget m') \<and> (large \<longrightarrow> has_large_slot h))) \<and>
    (\<not> ok \<longrightarrow> slots m' = slots (mem w))"
proof (cases g)
  case None
  obtain h m1 where m1: "large_reserve n (mem w) = (h, m1)" by (cases "large_reserve n (mem w)")
  show ?thesis
  proof (cases h)
    case None
    then show ?thesis using assms(3) m1 \<open>g = None\<close> by (auto simp: admit_payload_def large_reserve_def budget_reserve_def split: if_splits)
  next
    case (Some guard)
    have "admit_payload (Some guard) n large m1 = (ok, g', m')" using assms(3) m1 Some \<open>g = None\<close> by (simp add: admit_payload_def)
    moreover have "lp_memory guard < length (claims (budget m1))" "slots m1 = slots (mem w)"
      using m1 Some by (auto simp: large_reserve_def budget_reserve_def split: if_splits)
    ultimately show ?thesis using admit_guard_covered by metis
  qed
next
  case (Some h)
  have "owners_ok (claims (budget (mem w))) (permits w)" using memory_reach_inv [OF assms(1)] by (simp add: memory_inv_def)
  then have "lp_memory h < length (claims (budget (mem w)))" using owners_ok_held assms(2) Some by auto
  then show ?thesis using admit_guard_covered assms(3) Some by blast
qed

section \<open>A run of the budget\<close>

definition demo_memory :: memory_world where
  "demo_memory = \<lparr>mem = \<lparr>budget = \<lparr>state = \<lparr>limit = 1024, used = 700, peak = 700\<rparr>,
       claims = [\<lparr>claim_bytes = 300, owners = 2\<rparr>, \<lparr>claim_bytes = 400, owners = 1\<rparr>]\<rparr>, slots = [2]\<rparr>,
     permits = [\<lparr>lp_slot = Some 0, lp_memory = 0\<rparr>, \<lparr>lp_slot = Some 0, lp_memory = 0\<rparr>, \<lparr>lp_slot = None, lp_memory = 1\<rparr>]\<rparr>"

lemma demo_memory_reach: "memory_reach 1024 demo_memory"
proof -
  let ?g = "\<lparr>lp_slot = Some 0, lp_memory = 0\<rparr> :: large_permit"
  let ?w1 = "\<lparr>mem = \<lparr>budget = \<lparr>state = \<lparr>limit = 1024, used = 300, peak = 300\<rparr>,
       claims = [\<lparr>claim_bytes = 300, owners = 1\<rparr>]\<rparr>, slots = [1]\<rparr>, permits = [?g]\<rparr> :: memory_world"
  let ?w2 = "\<lparr>mem = \<lparr>budget = \<lparr>state = \<lparr>limit = 1024, used = 300, peak = 300\<rparr>,
       claims = [\<lparr>claim_bytes = 300, owners = 2\<rparr>]\<rparr>, slots = [2]\<rparr>, permits = [?g, ?g]\<rparr> :: memory_world"
  have a1: "admit_payload None 300 True (mem (memory_start 1024)) = (True, Some ?g, mem ?w1)" by code_simp
  have s1: "memory_step (memory_start 1024) ?w1"
    using MS_Admit [OF a1] by (simp add: memory_start_def)
  have s2: "memory_step ?w1 ?w2"
    using MS_Clone [of ?g ?w1] by (simp add: clone_large_def clone_permit_def numeral_2_eq_2)
  have a3: "admit_payload None 400 False (mem ?w2) = (True, Some \<lparr>lp_slot = None, lp_memory = 1\<rparr>, mem demo_memory)" by code_simp
  have s3: "memory_step ?w2 demo_memory"
    using MS_Admit [OF a3] by (simp add: demo_memory_def)
  note r = rtranclp.intros [where r = memory_step]
  show ?thesis unfolding memory_reach_def by (rule r(2), rule r(2), rule r(2), rule r(1), rule s1, rule s2, rule s3)
qed

theorem memory_accounted_witness:
  "memory_reach 1024 demo_memory \<and> (\<Sum>p\<in>{0, Suc 0}. unat (permit_bytes p (budget (mem demo_memory)))) = 700 \<and>
   drop_large \<lparr>lp_slot = None, lp_memory = 1\<rparr> (mem demo_memory) \<noteq> None"
  using memory_accounted [OF demo_memory_reach] demo_memory_reach by (simp add: demo_memory_def)

theorem admitted_payload_covered_witness:
  "\<exists>h m'. admit_payload (Some \<lparr>lp_slot = None, lp_memory = 1\<rparr>) 500 True (mem demo_memory) = (True, Some h, m') \<and>
     500 \<le> permit_bytes (lp_memory h) (budget m') \<and> has_large_slot h"
proof -
  let ?g = "\<lparr>lp_slot = None, lp_memory = 1\<rparr> :: large_permit"
  let ?r = "admit_payload (Some ?g) 500 True (mem demo_memory)"
  have "fst ?r" by code_simp
  then obtain g' m' where r: "?r = (True, g', m')" by (cases ?r) auto
  have m: "case Some ?g of None \<Rightarrow> True | Some h \<Rightarrow> h \<in> set (permits demo_memory)" by (simp add: demo_memory_def)
  from admitted_payload_covered [OF demo_memory_reach m r]
  obtain h where "g' = Some h" "500 \<le> permit_bytes (lp_memory h) (budget m')" "has_large_slot h" by blast
  with r show ?thesis by blast
qed
end
