(* ===== verification/Utf8.thy ===== *)
theory Utf8
  imports Prelude
begin

text \<open>
  Text of the standard library, as far as the stream parsers use it: a \<open>str\<close> is the list of its scalar values, bytes are
  8-bit words, \<open>from_utf8\<close> decodes and rejects what the encoding does not allow, \<open>as_bytes\<close> encodes. White space and
  control characters are those of Unicode.
\<close>

type_synonym bytes = "8 word list"
type_synonym str = "int list"

definition lit :: "string \<Rightarrow> str" where "lit s = map of_char s"

definition scalar :: "int \<Rightarrow> bool" where
  "scalar c \<longleftrightarrow> 0 \<le> c \<and> c < 55296 \<or> 57344 \<le> c \<and> c < 1114112"

definition continuation :: "int \<Rightarrow> bool" where
  "continuation b \<longleftrightarrow> 128 \<le> b \<and> b < 192"

definition second_of_three :: "int \<Rightarrow> int \<Rightarrow> bool" where
  "second_of_three b c \<longleftrightarrow> (if b = 224 then 160 \<le> c \<and> c < 192 else if b = 237 then 128 \<le> c \<and> c < 160 else continuation c)"

definition second_of_four :: "int \<Rightarrow> int \<Rightarrow> bool" where
  "second_of_four b c \<longleftrightarrow> (if b = 240 then 144 \<le> c \<and> c < 192 else if b = 244 then 128 \<le> c \<and> c < 144 else continuation c)"

fun utf8_decode :: "int list \<Rightarrow> str option" where
  "utf8_decode [] = Some []"
| "utf8_decode (b # r) =
     (if b < 128 then map_option (Cons b) (utf8_decode r)
      else case r of
        [] \<Rightarrow> None
      | c1 # r1 \<Rightarrow>
          if 194 \<le> b \<and> b < 224 then
            (if continuation c1 then map_option (Cons ((b - 192) * 64 + (c1 - 128))) (utf8_decode r1) else None)
          else (case r1 of
            [] \<Rightarrow> None
          | c2 # r2 \<Rightarrow>
              if 224 \<le> b \<and> b < 240 then
                (if second_of_three b c1 \<and> continuation c2
                 then map_option (Cons ((b - 224) * 4096 + (c1 - 128) * 64 + (c2 - 128))) (utf8_decode r2) else None)
              else (case r2 of
                [] \<Rightarrow> None
              | c3 # r3 \<Rightarrow>
                  if 240 \<le> b \<and> b < 245 \<and> second_of_four b c1 \<and> continuation c2 \<and> continuation c3
                  then map_option (Cons ((b - 240) * 262144 + (c1 - 128) * 4096 + (c2 - 128) * 64 + (c3 - 128))) (utf8_decode r3)
                  else None)))"

definition from_utf8 :: "bytes \<Rightarrow> str option" where "from_utf8 bs = utf8_decode (map uint bs)"

definition encode_char :: "int \<Rightarrow> int list" where
  "encode_char c =
     (if c < 128 then [c]
      else if c < 2048 then [192 + c div 64, 128 + c mod 64]
      else if c < 65536 then [224 + c div 4096, 128 + c div 64 mod 64, 128 + c mod 64]
      else [240 + c div 262144, 128 + c div 4096 mod 64, 128 + c div 64 mod 64, 128 + c mod 64])"

definition as_bytes :: "str \<Rightarrow> bytes" where "as_bytes t = map word_of_int (concat (map encode_char t))"

definition text_len :: "str \<Rightarrow> int" where "text_len t = int (length (as_bytes t))"

definition white_space :: "int \<Rightarrow> bool" where
  "white_space c \<longleftrightarrow> 9 \<le> c \<and> c \<le> 13 \<or> c = 32 \<or> c = 133 \<or> c = 160 \<or> c = 5760 \<or> 8192 \<le> c \<and> c \<le> 8202 \<or> c = 8232 \<or> c = 8233
     \<or> c = 8239 \<or> c = 8287 \<or> c = 12288"

definition control_char :: "int \<Rightarrow> bool" where "control_char c \<longleftrightarrow> 0 \<le> c \<and> c < 32 \<or> 127 \<le> c \<and> c < 160"

definition trim_end_matches :: "(int \<Rightarrow> bool) \<Rightarrow> str \<Rightarrow> str" where
  "trim_end_matches p t = rev (dropWhile p (rev t))"

definition trim_text :: "str \<Rightarrow> str" where
  "trim_text t = trim_end_matches white_space (dropWhile white_space t)"

definition strip_prefix :: "str \<Rightarrow> str \<Rightarrow> str option" where
  "strip_prefix p t = (if take (length p) t = p then Some (drop (length p) t) else None)"

section \<open>The encoding\<close>

text \<open>A number is the sum of its digits to the base 64.\<close>

lemma digits64:
  fixes c :: int
  shows "c = c div 64 * 64 + c mod 64" "c div 4096 = c div 64 div 64" "c div 262144 = c div 64 div 64 div 64"
    "c div 4096 mod 64 = c div 64 div 64 mod 64"
  by (simp_all add: div_mult_mod_eq zdiv_zmult2_eq [symmetric])

lemma utf8_decode_2: "utf8_decode (b # c1 # r) =
    (if continuation c1 then map_option (Cons ((b - 192) * 64 + (c1 - 128))) (utf8_decode r) else None)"
  if "194 \<le> b" "b < 224"
  using that by simp

lemma utf8_decode_3: "utf8_decode (b # c1 # c2 # r) =
    (if second_of_three b c1 \<and> continuation c2
     then map_option (Cons ((b - 224) * 4096 + (c1 - 128) * 64 + (c2 - 128))) (utf8_decode r) else None)"
  if "224 \<le> b" "b < 240"
  using that by simp

lemma utf8_decode_4: "utf8_decode (b # c1 # c2 # c3 # r) =
    (if second_of_four b c1 \<and> continuation c2 \<and> continuation c3
     then map_option (Cons ((b - 240) * 262144 + (c1 - 128) * 4096 + (c2 - 128) * 64 + (c3 - 128))) (utf8_decode r) else None)"
  if "240 \<le> b" "b < 245"
  using that by simp

lemma utf8_decode_encode_char:
  assumes c: "scalar c"
  shows "utf8_decode (encode_char c @ r) = map_option (Cons c) (utf8_decode r)"
proof -
  define x y z u where "x = c mod 64" and "y = c div 64 mod 64" and "z = c div 64 div 64 mod 64" and "u = c div 64 div 64 div 64"
  have d: "0 \<le> x" "x < 64" "0 \<le> y" "y < 64" "0 \<le> z" "z < 64" by (simp_all add: x_def y_def z_def)
  have e3: "c div 64 div 64 = u * 64 + z" using div_mult_mod_eq [of "c div 64 div 64" 64] by (simp add: u_def z_def)
  have e2: "c div 64 = (c div 64 div 64) * 64 + y" using div_mult_mod_eq [of "c div 64" 64] by (simp add: y_def)
  have e1: "c = (c div 64) * 64 + x" using div_mult_mod_eq [of c 64] by (simp add: x_def)
  have k: "continuation (128 + x)" "continuation (128 + y)" using d by (simp_all add: continuation_def)
  consider "c < 128" | "128 \<le> c" "c < 2048" | "2048 \<le> c" "c < 65536" | "65536 \<le> c" by linarith
  then show ?thesis
  proof cases
    case 1
    then show ?thesis by (simp add: encode_char_def)
  next
    case 2
    have b: "194 \<le> 192 + c div 64" "192 + c div 64 < 224" using 2 e1 d by linarith+
    have "encode_char c = [192 + c div 64, 128 + x]" using 2 by (simp add: encode_char_def x_def)
    then show ?thesis using utf8_decode_2 [OF b] k e1 by simp
  next
    case 3
    define w where "w = c div 64 div 64"
    have w: "c = w * 4096 + y * 64 + x" using e1 e2 by (simp add: w_def)
    have b: "224 \<le> 224 + w" "224 + w < 240" using 3 w d by linarith+
    have "second_of_three (224 + w) (128 + y)"
      using c 3 w d b unfolding second_of_three_def continuation_def scalar_def by auto
    moreover have "encode_char c = [224 + w, 128 + y, 128 + x]" using 3 by (simp add: encode_char_def x_def y_def w_def digits64)
    ultimately show ?thesis using utf8_decode_3 [OF b] k w by simp
  next
    case 4
    have w: "c = u * 262144 + z * 4096 + y * 64 + x" using e1 e2 e3 by simp
    have b: "240 \<le> 240 + u" "240 + u < 245" using c 4 w d unfolding scalar_def by linarith+
    have "second_of_four (240 + u) (128 + z)"
      using c 4 w d b unfolding second_of_four_def continuation_def scalar_def by auto
    moreover have "encode_char c = [240 + u, 128 + z, 128 + y, 128 + x]"
      using 4 by (simp add: encode_char_def x_def y_def z_def u_def digits64)
    ultimately show ?thesis using utf8_decode_4 [OF b] k w by simp
  qed
qed

lemma utf8_decode_encode: "list_all scalar t \<Longrightarrow> utf8_decode (concat (map encode_char t)) = Some t"
  by (induction t) (simp_all add: utf8_decode_encode_char)

lemma encode_char_byte: "scalar c \<Longrightarrow> b \<in> set (encode_char c) \<Longrightarrow> 0 \<le> b \<and> b < 256"
proof -
  assume c: "scalar c" and b: "b \<in> set (encode_char c)"
  have "c < 2048 \<Longrightarrow> c div 64 < 32" "c < 65536 \<Longrightarrow> c div 4096 < 16" "c div 262144 < 5"
    using c by (auto simp: scalar_def intro!: div_less_iff_less_mult [THEN iffD2])
  moreover have "0 \<le> c div 64" "0 \<le> c div 4096" "0 \<le> c div 262144" using c by (auto simp: scalar_def pos_imp_zdiv_nonneg_iff)
  moreover have "0 \<le> x mod 64 \<and> x mod 64 < 64" for x :: int by simp
  ultimately show ?thesis using b c by (auto simp: encode_char_def scalar_def split: if_splits)
qed

text \<open>Text survives its encoding.\<close>

lemma from_utf8_as_bytes: "list_all scalar t \<Longrightarrow> from_utf8 (as_bytes t) = Some t"
proof -
  assume t: "list_all scalar t"
  have "map uint (as_bytes t) = concat (map encode_char t)"
    unfolding as_bytes_def map_map comp_def
  proof (rule map_idI)
    fix b assume "b \<in> set (concat (map encode_char t))"
    then obtain c where "c \<in> set t" "b \<in> set (encode_char c)" by auto
    then have "0 \<le> b \<and> b < 256" using t encode_char_byte [of c b] by (simp add: list_all_iff)
    then show "uint (word_of_int b :: 8 word) = b" by (simp add: uint_word_of_int_eq take_bit_eq_mod)
  qed
  then show ?thesis by (simp add: from_utf8_def utf8_decode_encode [OF t])
qed

text \<open>A decoded ASCII character is a byte of the input: only a byte of its own value decodes to it.\<close>

lemma utf8_decode_ascii: "utf8_decode bs = Some t \<Longrightarrow> c \<in> set t \<Longrightarrow> c < 128 \<Longrightarrow> c \<in> set bs"
proof (induction bs arbitrary: t rule: utf8_decode.induct)
  case (2 b r)
  then show ?case
    by (auto simp: continuation_def second_of_three_def second_of_four_def split: if_splits list.splits)
qed simp

lemma from_utf8_no_newline:
  assumes "from_utf8 bs = Some t" "10 \<notin> set bs"
  shows "10 \<notin> set t"
proof
  assume "10 \<in> set t"
  then have "10 \<in> set (map uint bs)" using utf8_decode_ascii [of "map uint bs" t 10] assms(1) by (simp add: from_utf8_def)
  then obtain b where "b \<in> set bs" "uint b = 10" by auto
  then have "b = word_of_int 10" by (metis word_of_int_uint)
  with \<open>b \<in> set bs\<close> assms(2) show False by simp
qed

end
