(* ===== verification/Sse.thy ===== *)
theory Sse
  imports Errors Utf8 "HOL-Library.Sublist"
begin

text \<open>
  The events of a provider's response stream (\<open>crates/llm-protocol/provider/src/stream.rs\<close>) and the loop that the two stream
  parsers share: chunks of bytes are collected, cut into lines, decoded and handed to the parser's line handler. What the loop
  sends to its channel is a list of items, an error being \<open>Inl\<close>; a receiver that goes away sees a prefix of it. The memory permits that
  events carry are left out (\<open>Memory_Budget\<close> has their accounts): whether the process grants the \<open>n\<close>-th request is an argument.
  \<open>serde_json\<close> and the regular expressions that redact credentials are arguments too.
\<close>

section \<open>JSON values\<close>

datatype json =
    JNull | JBool bool | JPosInt u64 | JNegInt int | JFloat u64 | JString str | JArray "json list" | JObject "(str \<times> json) list"

definition as_object :: "json \<Rightarrow> (str \<times> json) list option" where
  "as_object v = (case v of JObject kv \<Rightarrow> Some kv | _ \<Rightarrow> None)"

definition as_array :: "json \<Rightarrow> json list option" where
  "as_array v = (case v of JArray vs \<Rightarrow> Some vs | _ \<Rightarrow> None)"

definition as_str :: "json \<Rightarrow> str option" where
  "as_str v = (case v of JString t \<Rightarrow> Some t | _ \<Rightarrow> None)"

definition as_u64 :: "json \<Rightarrow> u64 option" where
  "as_u64 v = (case v of JPosInt n \<Rightarrow> Some n | _ \<Rightarrow> None)"

definition as_i64 :: "json \<Rightarrow> int option" where
  "as_i64 v = (case v of JPosInt n \<Rightarrow> if uint n < 2 ^ 63 then Some (uint n) else None | JNegInt i \<Rightarrow> Some i | _ \<Rightarrow> None)"

definition is_null :: "json \<Rightarrow> bool" where "is_null v \<longleftrightarrow> v = JNull"

definition key_get :: "(str \<times> json) list \<Rightarrow> string \<Rightarrow> json option" where "key_get kv k = map_of kv (lit k)"

definition json_get :: "json \<Rightarrow> string \<Rightarrow> json option" where
  "json_get v k = Option.bind (as_object v) (\<lambda>kv. key_get kv k)"

definition key_remove :: "string \<Rightarrow> (str \<times> json) list \<Rightarrow> (str \<times> json) list" where
  "key_remove k kv = filter (\<lambda>(l, v). l \<noteq> lit k) kv"

section \<open>Stream events\<close>

datatype native_stream_event =
    OpenAiChatJson json | OpenAiChatSse json | OpenAiResponsesJson json | OpenAiResponsesSse str json
  | OpenAiResponsesHttpError u16 "(str \<times> str) list" str

datatype stream_event =
    Delta (delta_content: str) (finish_reason: "str option")
  | TokenUsage (usage_input: u32) (usage_output: u32)
  | InputUsage (usage_input: u32)
  | StreamDone
  | StreamError (error_text: str)
  | Raw str
  | Native native_stream_event

type_synonym item = "stream_event kc_result"

record stream_env =
  memory_grows :: "nat \<Rightarrow> int \<Rightarrow> bool"
  payload_admitted :: "nat \<Rightarrow> int \<Rightarrow> bool \<Rightarrow> bool"
  json_from_str :: "str \<Rightarrow> json option"
  json_to_string :: "json \<Rightarrow> str"
  redact :: "str \<Rightarrow> str"

definition sanitize_error_summary :: "stream_env \<Rightarrow> str \<Rightarrow> str" where
  "sanitize_error_summary env value = take 512 (redact env value)"

definition stream_error :: "stream_env \<Rightarrow> str \<Rightarrow> stream_event" where
  "stream_error env message = StreamError (sanitize_error_summary env message)"

text \<open>
  The texts of errors are kept as 8-bit characters, with the interpolated part of a message left out: the summary is bounded and redacted as in
  the source, and a character beyond that range, which only the redaction could bring in, is reduced to it.
\<close>

definition bounded_stream_error :: "stream_env \<Rightarrow> key_compute_error \<Rightarrow> key_compute_error" where
  "bounded_stream_error env e =
     (case e of ProviderError message \<Rightarrow> ProviderError (map char_of (sanitize_error_summary env (lit message))) | other \<Rightarrow> other)"

definition memory_exhausted :: key_compute_error where
  "memory_exhausted = ServiceUnavailable ''process_payload_memory_exhausted''"

section \<open>Lines of the event stream\<close>

definition parse_sse_line :: "str \<Rightarrow> str option" where
  "parse_sse_line line =
     (if trim_text line = [] then None
      else case strip_prefix (lit ''data:'') line of
        None \<Rightarrow> None
      | Some rest \<Rightarrow>
          let data = unwrap_or (strip_prefix (lit '' '') rest) rest in
          if trim_text data = [] then None
          else if trim_text data = lit ''[DONE]'' then Some (lit ''[DONE]'')
          else Some data)"

definition is_done_marker :: "str \<Rightarrow> bool" where
  "is_done_marker data \<longleftrightarrow> trim_text data = lit ''[DONE]''"

section \<open>Working sets\<close>

definition usize_max :: int where "usize_max = 18446744073709551615"

definition usize_add :: "int \<Rightarrow> int \<Rightarrow> int" where "usize_add a b = min (a + b) usize_max"

definition usize_mul :: "int \<Rightarrow> int \<Rightarrow> int" where "usize_mul a b = min (a * b) usize_max"

definition max_body_bytes :: int where "max_body_bytes = 96 * 1024 * 1024"
definition max_working_set_bytes :: int where "max_working_set_bytes = 224 * 1024 * 1024"
definition large_working_set_bytes :: int where "large_working_set_bytes = 16 * 1024 * 1024"

fun scan_structure :: "bytes \<Rightarrow> bool \<Rightarrow> bool \<Rightarrow> int \<Rightarrow> int" where
  "scan_structure [] in_string escaped overhead = overhead"
| "scan_structure (b # bs) in_string escaped overhead =
     (if in_string then
        (if escaped then scan_structure bs True False overhead
         else if b = 92 then scan_structure bs True True overhead
         else if b = 34 then scan_structure bs False escaped overhead
         else scan_structure bs True escaped overhead)
      else if b = 34 then scan_structure bs True escaped overhead
      else if b = 123 \<or> b = 91 \<or> b = 44 \<or> b = 58 then scan_structure bs in_string escaped (usize_add overhead 64)
      else scan_structure bs in_string escaped overhead)"

definition estimated_json_parse_working_set_bytes :: "bytes \<Rightarrow> int" where
  "estimated_json_parse_working_set_bytes bs = usize_add (usize_mul (int (length bs)) 2) (scan_structure bs False False 0)"

text \<open>The check in front of every parse; \<open>k\<close> counts the payloads of the stream and \<open>copies\<close> those kept at once.\<close>

definition payload_refused :: "stream_env \<Rightarrow> nat \<Rightarrow> int \<Rightarrow> str \<Rightarrow> bool" where
  "payload_refused env k copies data =
     (let working = estimated_json_parse_working_set_bytes (as_bytes data) in
      max_working_set_bytes < working \<or>
      \<not> payload_admitted env k (usize_mul working copies) (large_working_set_bytes < working))"

section \<open>The loop over chunks and lines\<close>

record 's sse_parser =
  parser_name :: string
  held_bytes :: "'s \<Rightarrow> int"
  on_line :: "'s \<Rightarrow> str \<Rightarrow> 's \<times> item list \<times> bool"
  on_end :: "'s \<Rightarrow> item list"

definition invalid_utf8 :: "'s sse_parser \<Rightarrow> item" where
  "invalid_utf8 P = Inl (ProviderError (parser_name P @ '' stream contained invalid UTF-8: ''))"

definition next_line :: "bytes \<Rightarrow> (bytes \<times> bytes) option" where
  "next_line buffer =
     (case dropWhile (\<lambda>b. b \<noteq> 10) buffer of [] \<Rightarrow> None | _ # rest \<Rightarrow> Some (takeWhile (\<lambda>b. b \<noteq> 10) buffer, rest))"

definition pop_cr :: "bytes \<Rightarrow> bytes" where
  "pop_cr line = (if line \<noteq> [] \<and> last line = 13 then butlast line else line)"

lemma next_line_Some:
  "next_line buffer = Some (line, rest) \<longleftrightarrow> buffer = line @ 10 # rest \<and> 10 \<notin> set line"
proof
  assume n: "next_line buffer = Some (line, rest)"
  then obtain b where b: "dropWhile (\<lambda>b. b \<noteq> 10) buffer = b # rest" "line = takeWhile (\<lambda>b. b \<noteq> 10) buffer"
    by (auto simp: next_line_def split: list.splits)
  from dropWhile_eq_Cons_conv [THEN iffD1, OF b(1)]
  have "buffer = takeWhile (\<lambda>b. b \<noteq> 10) buffer @ b # rest" "b = 10" by blast+
  moreover have "10 \<notin> set (takeWhile (\<lambda>b. b \<noteq> 10) buffer)" by (auto dest: set_takeWhileD)
  ultimately show "buffer = line @ 10 # rest \<and> 10 \<notin> set line" unfolding b(2) by blast
next
  assume b: "buffer = line @ 10 # rest \<and> 10 \<notin> set line"
  then have "\<forall>x\<in>set line. x \<noteq> 10" by auto
  then show "next_line buffer = Some (line, rest)"
    using b by (simp add: next_line_def dropWhile_append2 takeWhile_append2)
qed

lemma next_line_None: "next_line buffer = None \<longleftrightarrow> 10 \<notin> set buffer"
proof (cases "next_line buffer")
  case None
  then have "dropWhile (\<lambda>b. b \<noteq> 10) buffer = []" by (simp add: next_line_def split: list.splits)
  then show ?thesis using None by (auto simp: dropWhile_eq_Nil_conv)
next
  case (Some lr)
  then show ?thesis by (cases lr) (auto simp: next_line_Some)
qed

function drain_lines :: "'s sse_parser \<Rightarrow> 's \<Rightarrow> bytes \<Rightarrow> 's \<times> bytes \<times> item list \<times> bool" where
  "drain_lines P s buffer =
     (case next_line buffer of
        None \<Rightarrow> (s, buffer, [], True)
      | Some (line, rest) \<Rightarrow>
          (case from_utf8 (pop_cr line) of
             None \<Rightarrow> (s, rest, [invalid_utf8 P], False)
           | Some t \<Rightarrow>
               (case on_line P s t of
                  (s', out, go) \<Rightarrow>
                    if go then (case drain_lines P s' rest of (s'', b, out', go') \<Rightarrow> (s'', b, out @ out', go'))
                    else (s', rest, out, False))))"
  by pat_completeness auto

termination
  by (relation "measure (\<lambda>(P, s, b). length b)") (auto simp: next_line_Some)

declare drain_lines.simps [simp del]

fun split_on :: "'a \<Rightarrow> 'a list \<Rightarrow> 'a list list" where
  "split_on c [] = [[]]"
| "split_on c (x # xs) = (if x = c then [] # split_on c xs else (case split_on c xs of l # ls \<Rightarrow> (x # l) # ls))"

fun handle_lines :: "'s sse_parser \<Rightarrow> 's \<Rightarrow> str list \<Rightarrow> 's \<times> item list \<times> bool" where
  "handle_lines P s [] = (s, [], True)"
| "handle_lines P s (t # ts) =
     (case on_line P s t of
        (s', out, go) \<Rightarrow> if go then (case handle_lines P s' ts of (s'', out', go') \<Rightarrow> (s'', out @ out', go')) else (s', out, False))"

definition at_eof :: "'s sse_parser \<Rightarrow> 's \<Rightarrow> bytes \<Rightarrow> item list" where
  "at_eof P s buffer =
     (if buffer = [] then on_end P s
      else case from_utf8 buffer of
        None \<Rightarrow> [invalid_utf8 P]
      | Some t \<Rightarrow>
          (case handle_lines P s (map (trim_end_matches (\<lambda>c. c = 13)) (split_on 10 t)) of
             (s', out, go) \<Rightarrow> if go then out @ on_end P s' else out))"

fun read_stream :: "stream_env \<Rightarrow> 's sse_parser \<Rightarrow> nat \<Rightarrow> 's \<Rightarrow> bytes \<Rightarrow> bytes kc_result list \<Rightarrow> item list" where
  "read_stream env P n s buffer [] = at_eof P s buffer"
| "read_stream env P n s buffer (Inl e # cs) = [Inl (bounded_stream_error env e)]"
| "read_stream env P n s buffer (Inr chunk # cs) =
     (let pending = usize_add (usize_add (int (length buffer)) (held_bytes P s)) (int (length chunk)) in
      if max_body_bytes < pending \<or> \<not> memory_grows env n (usize_mul pending 6) then [Inl memory_exhausted]
      else case drain_lines P s (buffer @ chunk) of
        (s', rest, out, go) \<Rightarrow> if go then out @ read_stream env P (Suc n) s' rest cs else out)"

lemma read_stream_chunk:
  assumes "drain_lines P s (buffer @ chunk) = (s', rest, out, go)"
  shows "read_stream env P n s buffer (Inr chunk # cs) = [Inl memory_exhausted] \<or>
    read_stream env P n s buffer (Inr chunk # cs) = (if go then out @ read_stream env P (Suc n) s' rest cs else out)"
proof (cases "max_body_bytes < usize_add (usize_add (int (length buffer)) (held_bytes P s)) (int (length chunk)) \<or>
    \<not> memory_grows env n (usize_mul (usize_add (usize_add (int (length buffer)) (held_bytes P s)) (int (length chunk))) 6)")
  case True
  then show ?thesis by (simp add: Let_def)
next
  case False
  then show ?thesis using assms by (simp add: Let_def)
qed

section \<open>Lines do not depend on chunks\<close>

text \<open>
  The reference: the bytes of the whole response, cut at its line feeds. Every line but the last is one that a line feed ended; the last
  is what was left when the response ended.
\<close>

fun run_lines :: "'s sse_parser \<Rightarrow> 's \<Rightarrow> bytes list \<Rightarrow> item list" where
  "run_lines P s [] = on_end P s"
| "run_lines P s [rest] = at_eof P s rest"
| "run_lines P s (line # lines) =
     (case from_utf8 (pop_cr line) of
        None \<Rightarrow> [invalid_utf8 P]
      | Some t \<Rightarrow> (case on_line P s t of (s', out, go) \<Rightarrow> if go then out @ run_lines P s' lines else out))"

definition whole_response :: "'s sse_parser \<Rightarrow> 's \<Rightarrow> bytes \<Rightarrow> item list" where
  "whole_response P s bs = run_lines P s (split_on 10 bs)"

lemma split_on_nonempty [simp]: "split_on c xs \<noteq> []"
  by (induction xs) (auto split: list.splits)

lemma split_on_none: "c \<notin> set xs \<Longrightarrow> split_on c xs = [xs]"
  by (induction xs) auto

lemma split_on_line: "c \<notin> set line \<Longrightarrow> split_on c (line @ c # rest) = line # split_on c rest"
  by (induction line) auto

definition then_drain :: "'s \<times> bytes \<times> item list \<times> bool \<Rightarrow> 's sse_parser \<Rightarrow> bytes \<Rightarrow> 's \<times> bytes \<times> item list \<times> bool" where
  "then_drain r P tail =
     (case r of (s, b, out, go) \<Rightarrow>
        if go then (case drain_lines P s (b @ tail) of (s', b', out', go') \<Rightarrow> (s', b', out @ out', go')) else (s, b @ tail, out, False))"

lemma drain_lines_None: "10 \<notin> set buffer \<Longrightarrow> drain_lines P s buffer = (s, buffer, [], True)"
  by (simp add: drain_lines.simps next_line_None [THEN iffD2])

lemma drain_lines_Some:
  "10 \<notin> set line \<Longrightarrow> drain_lines P s (line @ 10 # rest) =
     (case from_utf8 (pop_cr line) of
        None \<Rightarrow> (s, rest, [invalid_utf8 P], False)
      | Some t \<Rightarrow>
          (case on_line P s t of
             (s', out, go) \<Rightarrow>
               if go then (case drain_lines P s' rest of (s'', b, out', go') \<Rightarrow> (s'', b, out @ out', go'))
               else (s', rest, out, False)))"
  by (subst drain_lines.simps) (simp add: next_line_Some [THEN iffD2])

lemma bytes_line_induct [case_names Rest Line]:
  assumes "\<And>buffer s. 10 \<notin> set buffer \<Longrightarrow> Q s buffer"
    and "\<And>line rest s. 10 \<notin> set line \<Longrightarrow> (\<And>s'. Q s' rest) \<Longrightarrow> Q s (line @ 10 # rest)"
  shows "Q s (buffer :: bytes)"
proof (induction "length buffer" arbitrary: s buffer rule: less_induct)
  case less
  show ?case
  proof (cases "10 \<in> set buffer")
    case True
    then obtain line rest where b: "buffer = line @ 10 # rest" "10 \<notin> set line" by (meson split_list_first)
    show ?thesis unfolding b(1) by (rule assms(2) [OF b(2)]) (simp add: less b(1))
  qed (rule assms(1))
qed

text \<open>Draining two pieces one after the other is draining them together.\<close>

lemma drain_lines_append: "drain_lines P s (a @ tail) = then_drain (drain_lines P s a) P tail"
proof (induction s a rule: bytes_line_induct)
  case (Rest buffer s)
  then show ?case by (simp add: drain_lines_None then_drain_def)
next
  case (Line line rest s)
  then show ?case
    by (simp add: drain_lines_Some then_drain_def split: option.splits prod.splits)
qed

lemma drain_lines_rest: "drain_lines P s buffer = (s', rest, out, True) \<Longrightarrow> 10 \<notin> set rest"
proof (induction s buffer arbitrary: s' rest out rule: bytes_line_induct)
  case (Rest buffer s)
  then show ?case by (simp add: drain_lines_None)
next
  case (Line line rest s)
  then show ?case by (auto simp: drain_lines_Some split: option.splits prod.splits if_splits)
qed

lemma whole_response_drain:
  "whole_response P s bs = (case drain_lines P s bs of (s', rest, out, go) \<Rightarrow> if go then out @ at_eof P s' rest else out)"
proof (induction s bs rule: bytes_line_induct)
  case (Rest buffer s)
  then show ?case by (simp add: drain_lines_None whole_response_def split_on_none)
next
  case (Line line rest s)
  obtain l ls where "split_on 10 rest = l # ls" by (meson split_on_nonempty list.exhaust)
  with Line show ?case
    by (simp add: drain_lines_Some whole_response_def split_on_line split: option.splits prod.splits)
qed

text \<open>
  Whatever the chunks and the answers for memory, the items sent are those of the whole response, or a prefix of them followed by
  the error for exhausted memory.
\<close>

lemma read_stream_whole:
  assumes "10 \<notin> set buffer"
  shows "read_stream env P n s buffer (map Inr cs) = whole_response P s (buffer @ concat cs) \<or>
    (\<exists>pre. prefix pre (whole_response P s (buffer @ concat cs)) \<and>
       read_stream env P n s buffer (map Inr cs) = pre @ [Inl memory_exhausted])"
  using assms
proof (induction cs arbitrary: n s buffer)
  case Nil
  then show ?case by (simp add: whole_response_def split_on_none)
next
  case (Cons c cs)
  obtain s' rest out go where d: "drain_lines P s (buffer @ c) = (s', rest, out, go)" by (metis prod_cases4)
  have w: "whole_response P s (buffer @ concat (c # cs)) = (if go then out @ whole_response P s' (rest @ concat cs) else out)"
    using drain_lines_append [of P s "buffer @ c" "concat cs"]
    by (simp add: whole_response_drain d then_drain_def split: prod.splits)
  consider "read_stream env P n s buffer (map Inr (c # cs)) = [Inl memory_exhausted]"
    | (go_on) "read_stream env P n s buffer (map Inr (c # cs)) = (if go then out @ read_stream env P (Suc n) s' rest (map Inr cs) else out)"
    using read_stream_chunk [OF d, of env n "map Inr cs"] by auto
  then show ?case
  proof cases
    case 1
    then show ?thesis by (metis append_Nil Nil_prefix)
  next
    case r: go_on
    show ?thesis
    proof (cases go)
      case True
      then have "10 \<notin> set rest" using drain_lines_rest d by metis
      from Cons.IH [OF this, of "Suc n" s'] show ?thesis unfolding r w using True by auto
    qed (use r w in simp)
  qed
qed

section \<open>What the loop needs of a line handler\<close>

text \<open>
  Items that end a stream: \<open>clean\<close> output has none, \<open>stopped\<close> output has exactly one, as its last item.
\<close>

definition clean :: "(item \<Rightarrow> bool) \<Rightarrow> item list \<Rightarrow> bool" where "clean t out \<longleftrightarrow> (\<forall>x\<in>set out. \<not> t x)"

definition stopped :: "(item \<Rightarrow> bool) \<Rightarrow> item list \<Rightarrow> bool" where
  "stopped t out \<longleftrightarrow> (case rev out of [] \<Rightarrow> False | x # evs \<Rightarrow> t x \<and> clean t evs)"

lemma clean_simps [simp]: "clean t []" "clean t (a @ b) \<longleftrightarrow> clean t a \<and> clean t b" "clean t (x # a) \<longleftrightarrow> \<not> t x \<and> clean t a"
  by (auto simp: clean_def)

lemma stopped_simps [simp]: "\<not> stopped t []" "stopped t (evs @ [x]) \<longleftrightarrow> t x \<and> clean t evs" "stopped t [x] \<longleftrightarrow> t x"
  by (auto simp: stopped_def clean_def)

lemma clean_then_stopped: "clean t a \<Longrightarrow> stopped t b \<Longrightarrow> stopped t (a @ b)"
  by (cases b rule: rev_cases) (simp_all flip: append_assoc)

text \<open>
  The contract of a line handler: an error ends the stream, an item that ends the stream is sent exactly when the handler says to stop, and
  as the last one, and every line keeps a relation \<open>J\<close> between what was sent so far and the handler's state.
\<close>

locale stopping_parser =
  fixes P :: "'s sse_parser" and t :: "item \<Rightarrow> bool" and J :: "item list \<Rightarrow> 's \<Rightarrow> bool"
  assumes failure_ends: "t (Inl e)"
    and going_on: "on_line P s l = (s', out, True) \<Longrightarrow> clean t out"
    and stopping: "on_line P s l = (s', out, False) \<Longrightarrow> stopped t out"
    and line_keeps: "J sent s \<Longrightarrow> on_line P s l = (s', out, go) \<Longrightarrow> J (sent @ out) s'"
begin

definition halted :: "item list \<Rightarrow> item list \<Rightarrow> bool" where
  "halted sent out \<longleftrightarrow> stopped t out \<and> (\<exists>pre s. J (sent @ pre) s \<and> (out = pre \<or> (\<exists>e. out = pre @ [Inl e])))"

definition finished :: "item list \<Rightarrow> item list \<Rightarrow> bool" where
  "finished sent out \<longleftrightarrow> (\<exists>pre s. clean t pre \<and> J (sent @ pre) s \<and> out = pre @ on_end P s)"

lemma halted_failure: "J sent s \<Longrightarrow> halted sent [Inl e]"
  unfolding halted_def by (metis append_Nil append_Nil2 failure_ends stopped_simps(3))

lemma halted_append: "clean t out \<Longrightarrow> halted (sent @ out) out' \<Longrightarrow> halted sent (out @ out')"
  unfolding halted_def by (metis append_assoc clean_then_stopped)

lemma finished_append: "clean t out \<Longrightarrow> finished (sent @ out) out' \<Longrightarrow> finished sent (out @ out')"
  unfolding finished_def by (metis append_assoc clean_simps(2))

lemma line_outcome:
  "J sent s \<Longrightarrow> on_line P s l = (s', out, go) \<Longrightarrow> if go then clean t out \<and> J (sent @ out) s' else halted sent out"
  by (cases go) (auto simp: halted_def dest: going_on stopping line_keeps)

lemma handle_lines_outcome:
  "J sent s \<Longrightarrow> handle_lines P s ls = (s', out, go) \<Longrightarrow> if go then clean t out \<and> J (sent @ out) s' else halted sent out"
proof (induction ls arbitrary: sent s s' out go)
  case (Cons l ls)
  obtain s1 o1 g1 where l: "on_line P s l = (s1, o1, g1)" by (metis prod_cases3)
  obtain s2 o2 g2 where h: "handle_lines P s1 ls = (s2, o2, g2)" by (metis prod_cases3)
  note o = line_outcome [OF Cons.prems(1) l]
  show ?case
  proof (cases g1)
    case True
    then have c: "clean t o1" "J (sent @ o1) s1" using o by simp_all
    show ?thesis using Cons.IH [OF c(2) h] Cons.prems(2) l h True c halted_append by (auto split: if_splits)
  qed (use Cons.prems(2) l o in auto)
qed simp

lemma drain_lines_outcome:
  "J sent s \<Longrightarrow> drain_lines P s b = (s', r, out, go) \<Longrightarrow> if go then clean t out \<and> J (sent @ out) s' else halted sent out"
proof (induction s b arbitrary: sent s' r out go rule: bytes_line_induct)
  case (Rest b s)
  then show ?case by (auto simp: drain_lines_None)
next
  case (Line line rest s)
  show ?case
  proof (cases "from_utf8 (pop_cr line)")
    case None
    then show ?thesis using Line.prems Line.hyps by (auto simp: drain_lines_Some invalid_utf8_def halted_failure)
  next
    case (Some l)
    obtain s1 o1 g1 where l: "on_line P s l = (s1, o1, g1)" by (metis prod_cases3)
    obtain s2 r2 o2 g2 where h: "drain_lines P s1 rest = (s2, r2, o2, g2)" by (metis prod_cases4)
    note o = line_outcome [OF Line.prems(1) l]
    show ?thesis
    proof (cases g1)
      case True
      then have c: "clean t o1" "J (sent @ o1) s1" using o by simp_all
      show ?thesis using Line.IH [OF c(2) h] Line.prems(2) Line.hyps Some l h True c halted_append
        by (auto simp: drain_lines_Some split: if_splits)
    qed (use Line.prems(2) Line.hyps Some l o in \<open>auto simp: drain_lines_Some\<close>)
  qed
qed

lemma at_eof_outcome:
  assumes "J sent s"
  shows "finished sent (at_eof P s b) \<or> halted sent (at_eof P s b)"
proof (cases "b = []")
  case True
  have "finished sent (on_end P s)" unfolding finished_def using assms by (metis append_Nil append_Nil2 clean_simps(1))
  then show ?thesis using True by (simp add: at_eof_def)
next
  case False
  show ?thesis
  proof (cases "from_utf8 b")
    case None
    then show ?thesis using False halted_failure [OF assms] by (simp add: at_eof_def invalid_utf8_def)
  next
    case (Some u)
    obtain s' out go where h: "handle_lines P s (map (trim_end_matches (\<lambda>c. c = 13)) (split_on 10 u)) = (s', out, go)"
      by (metis prod_cases3)
    note o = handle_lines_outcome [OF assms h]
    show ?thesis
    proof (cases go)
      case True
      then have "finished sent (out @ on_end P s')" unfolding finished_def using o by auto
      then show ?thesis using False Some h True by (simp add: at_eof_def)
    qed (use False Some h o in \<open>simp add: at_eof_def\<close>)
  qed
qed

text \<open>Every run of the loop is one of the two: stopped on the way, or finished by what the parser sends at the end.\<close>

lemma read_stream_outcome:
  "J sent s \<Longrightarrow> finished sent (read_stream env P n s b cs) \<or> halted sent (read_stream env P n s b cs)"
proof (induction cs arbitrary: sent n s b)
  case Nil
  then show ?case using at_eof_outcome by simp
next
  case (Cons c cs)
  show ?case
  proof (cases c)
    case (Inl e)
    then show ?thesis using halted_failure [OF Cons.prems] by simp
  next
    case (Inr chunk)
    obtain s' r out go where d: "drain_lines P s (b @ chunk) = (s', r, out, go)" by (metis prod_cases4)
    note o = drain_lines_outcome [OF Cons.prems d]
    consider "read_stream env P n s b (c # cs) = [Inl memory_exhausted]"
      | "read_stream env P n s b (c # cs) = (if go then out @ read_stream env P (Suc n) s' r cs else out)"
      using Inr read_stream_chunk [OF d, of env n cs] by blast
    then show ?thesis
    proof cases
      case 1
      then show ?thesis using halted_failure [OF Cons.prems] by simp
    next
      case 2
      show ?thesis
      proof (cases go)
        case True
        then have "clean t out" "J (sent @ out) s'" using o by simp_all
        then show ?thesis using Cons.IH [of "sent @ out" s' "Suc n" r] 2 True finished_append halted_append by auto
      qed (use 2 o in simp)
    qed
  qed
qed

end

text \<open>A parser that ends its output explicitly also when the response just ends.\<close>

locale ending_parser = stopping_parser +
  assumes ending: "stopped t (on_end P s)"
begin

lemma read_stream_ends: "J [] s \<Longrightarrow> stopped t (read_stream env P n s b cs)"
  using read_stream_outcome [of "[]" s env n b cs] clean_then_stopped ending by (auto simp: finished_def halted_def)

end

text \<open>
  Two handlers of which the second sends an image of what the first sends: every line leads both to the same state and the same decision,
  and \<open>h\<close> says what the second sends for each item of the first, an error being left as it is.
\<close>

locale image_parsers =
  fixes P Q :: "'s sse_parser" and h :: "item \<Rightarrow> item list"
  assumes same_name: "parser_name P = parser_name Q"
    and same_held: "held_bytes P = held_bytes Q"
    and failure_kept: "h (Inl e) = [Inl e]"
    and end_image: "on_end Q s = concat (map h (on_end P s))"
    and line_image: "on_line P s l = (s', out, go) \<Longrightarrow> on_line Q s l = (s', concat (map h out), go)"
begin

lemma handle_lines_image: "handle_lines P s ls = (s', out, go) \<Longrightarrow> handle_lines Q s ls = (s', concat (map h out), go)"
proof (induction ls arbitrary: s s' out go)
  case (Cons l ls)
  obtain s1 o1 g1 where l: "on_line P s l = (s1, o1, g1)" by (metis prod_cases3)
  obtain s2 o2 g2 where h: "handle_lines P s1 ls = (s2, o2, g2)" by (metis prod_cases3)
  from line_image [OF l] Cons.IH [OF h] show ?case using Cons.prems l h by (auto split: if_splits)
qed simp

lemma drain_lines_image: "drain_lines P s b = (s', r, out, go) \<Longrightarrow> drain_lines Q s b = (s', r, concat (map h out), go)"
proof (induction s b arbitrary: s' r out go rule: bytes_line_induct)
  case (Rest b s)
  then show ?case by (simp add: drain_lines_None)
next
  case (Line line rest s)
  show ?case
  proof (cases "from_utf8 (pop_cr line)")
    case None
    then show ?thesis using Line.prems Line.hyps by (auto simp: drain_lines_Some invalid_utf8_def same_name failure_kept)
  next
    case (Some l)
    obtain s1 o1 g1 where l: "on_line P s l = (s1, o1, g1)" by (metis prod_cases3)
    obtain s2 r2 o2 g2 where h: "drain_lines P s1 rest = (s2, r2, o2, g2)" by (metis prod_cases4)
    from line_image [OF l] Line.IH [OF h] show ?thesis
      using Line.prems Line.hyps Some l h by (auto simp: drain_lines_Some split: if_splits)
  qed
qed

lemma at_eof_image: "at_eof Q s b = concat (map h (at_eof P s b))"
proof (cases "from_utf8 b")
  case None
  then show ?thesis by (simp add: at_eof_def invalid_utf8_def same_name end_image failure_kept)
next
  case (Some u)
  obtain s' out go where h: "handle_lines P s (map (trim_end_matches (\<lambda>c. c = 13)) (split_on 10 u)) = (s', out, go)"
    by (metis prod_cases3)
  from handle_lines_image [OF h] show ?thesis using Some h by (auto simp: at_eof_def end_image)
qed

lemma read_stream_image: "read_stream env Q n s b cs = concat (map h (read_stream env P n s b cs))"
proof (induction cs arbitrary: n s b)
  case Nil
  then show ?case by (simp add: at_eof_image)
next
  case (Cons c cs)
  show ?case
  proof (cases c)
    case (Inr chunk)
    obtain s' r out go where d: "drain_lines P s (b @ chunk) = (s', r, out, go)" by (metis prod_cases4)
    show ?thesis using Inr d drain_lines_image [OF d] Cons.IH by (simp add: Let_def same_held failure_kept)
  qed (simp add: failure_kept)
qed

end

section \<open>What an item says about the response\<close>

text \<open>The bytes that were read, up to the first read error, and the decoded lines in them, up to the first that is not UTF-8.\<close>

fun received :: "bytes kc_result list \<Rightarrow> bytes" where
  "received [] = []"
| "received (Inl e # cs) = []"
| "received (Inr chunk # cs) = chunk @ received cs"

fun decoded_lines :: "bytes list \<Rightarrow> str list" where
  "decoded_lines [] = []"
| "decoded_lines [rest] =
     (if rest = [] then []
      else case from_utf8 rest of None \<Rightarrow> [] | Some t \<Rightarrow> map (trim_end_matches (\<lambda>c. c = 13)) (split_on 10 t))"
| "decoded_lines (line # lines) =
     (case from_utf8 (pop_cr line) of None \<Rightarrow> [] | Some t \<Rightarrow> t # decoded_lines lines)"

definition response_lines :: "bytes \<Rightarrow> str list" where
  "response_lines bs = decoded_lines (split_on 10 bs)"

text \<open>With read errors too, what is sent is a prefix of what the bytes read call for, and then at most an error.\<close>

lemma read_stream_prefix:
  assumes "10 \<notin> set buffer"
  shows "\<exists>pre tail. read_stream env P n s buffer cs = pre @ tail \<and>
    prefix pre (whole_response P s (buffer @ received cs)) \<and> (tail = [] \<or> (\<exists>e. tail = [Inl e]))"
  using assms
proof (induction cs arbitrary: n s buffer)
  case Nil
  then show ?case
    by (intro exI [of _ "at_eof P s buffer"] exI [of _ "[]"]) (simp add: whole_response_def split_on_none)
next
  case (Cons c cs)
  have failure: ?case if "read_stream env P n s buffer (c # cs) = [Inl e]" for e
    using that by (metis append_Nil Nil_prefix)
  show ?case
  proof (cases c)
    case (Inl e)
    then show ?thesis using failure by simp
  next
    case (Inr chunk)
    obtain s' rest out go where d: "drain_lines P s (buffer @ chunk) = (s', rest, out, go)" by (metis prod_cases4)
    have w: "whole_response P s (buffer @ received (c # cs)) = (if go then out @ whole_response P s' (rest @ received cs) else out)"
      using drain_lines_append [of P s "buffer @ chunk" "received cs"] Inr
      by (simp add: whole_response_drain d then_drain_def split: prod.splits)
    consider "read_stream env P n s buffer (c # cs) = [Inl memory_exhausted]"
      | (go_on) "read_stream env P n s buffer (c # cs) = (if go then out @ read_stream env P (Suc n) s' rest cs else out)"
      using read_stream_chunk [OF d, of env n cs] Inr by auto
    then show ?thesis
    proof cases
      case 1
      then show ?thesis by (rule failure)
    next
      case r: go_on
      show ?thesis
      proof (cases go)
        case True
        then have "10 \<notin> set rest" using drain_lines_rest d by metis
        from Cons.IH [OF this, of "Suc n" s'] obtain pre tail where "read_stream env P (Suc n) s' rest cs = pre @ tail"
          "prefix pre (whole_response P s' (rest @ received cs))" "tail = [] \<or> (\<exists>e. tail = [Inl e])" by auto
        then show ?thesis unfolding r w using True by (intro exI [of _ "out @ pre"] exI [of _ tail]) simp
      next
        case False
        then show ?thesis unfolding r w by (intro exI [of _ out] exI [of _ "[]"]) simp
      qed
    qed
  qed
qed

text \<open>
  A handler whose items of a kind \<open>z\<close> have a reason in the lines it was given: \<open>K\<close> relates the lines seen so far to its state, and
  \<open>E\<close> is what the lines of a response then satisfy.
\<close>

locale tracking_parser =
  fixes P :: "'s sse_parser" and K :: "str list \<Rightarrow> 's \<Rightarrow> bool" and z :: "item \<Rightarrow> bool" and E :: "str list \<Rightarrow> bool"
  assumes failure_no_reason: "\<not> z (Inl e)"
    and line_tracked: "K seen s \<Longrightarrow> on_line P s l = (s', out, go) \<Longrightarrow> K (seen @ [l]) s'"
    and line_reason: "K seen s \<Longrightarrow> on_line P s l = (s', out, go) \<Longrightarrow> clean z out \<or> E (seen @ l # rest)"
    and end_reason: "K seen s \<Longrightarrow> clean z (on_end P s) \<or> E seen"
begin

lemma handle_lines_reason:
  "K seen s \<Longrightarrow> handle_lines P s ls = (s', out, go) \<Longrightarrow>
     (clean z out \<or> E (seen @ ls)) \<and> (go \<longrightarrow> K (seen @ ls) s')"
proof (induction ls arbitrary: seen s s' out go)
  case (Cons l ls)
  obtain s1 o1 g1 where l: "on_line P s l = (s1, o1, g1)" by (metis prod_cases3)
  obtain s2 o2 g2 where h: "handle_lines P s1 ls = (s2, o2, g2)" by (metis prod_cases3)
  from Cons.IH [OF line_tracked [OF Cons.prems(1) l] h] line_reason [OF Cons.prems(1) l, of ls]
  show ?case using Cons.prems(2) l h by (auto split: if_splits)
qed simp

lemma at_eof_reason: "K seen s \<Longrightarrow> clean z (at_eof P s b) \<or> E (seen @ decoded_lines [b])"
proof (cases "b = [] \<or> from_utf8 b = None")
  case True
  then show "K seen s \<Longrightarrow> ?thesis"
    using end_reason [of seen s] by (auto simp: at_eof_def invalid_utf8_def failure_no_reason)
next
  case False
  then obtain u where u: "from_utf8 b = Some u" by auto
  obtain s' out go where h: "handle_lines P s (map (trim_end_matches (\<lambda>c. c = 13)) (split_on 10 u)) = (s', out, go)"
    by (metis prod_cases3)
  show "K seen s \<Longrightarrow> ?thesis"
    using handle_lines_reason [OF _ h, of seen] end_reason [of _ s'] False u h by (auto simp: at_eof_def)
qed

lemma run_lines_reason: "K seen s \<Longrightarrow> clean z (run_lines P s ls) \<or> E (seen @ decoded_lines ls)"
proof (induction ls arbitrary: seen s)
  case Nil
  then show ?case using end_reason by auto
next
  case (Cons l ls)
  show ?case
  proof (cases ls)
    case Nil
    then show ?thesis using at_eof_reason [OF Cons.prems, of l] by simp
  next
    case c: (Cons l' ls')
    show ?thesis
    proof (cases "from_utf8 (pop_cr l)")
      case None
      then show ?thesis using c by (simp add: invalid_utf8_def failure_no_reason)
    next
      case (Some u)
      obtain s' out go where o: "on_line P s u = (s', out, go)" by (metis prod_cases3)
      from Cons.IH [OF line_tracked [OF Cons.prems o]] line_reason [OF Cons.prems o, of "decoded_lines ls"]
      show ?thesis using c Some o by auto
    qed
  qed
qed

lemma read_stream_reason:
  assumes "K [] s"
  shows "clean z (read_stream env P n s [] cs) \<or> E (response_lines (received cs))"
proof -
  obtain pre tail where r: "read_stream env P n s [] cs = pre @ tail" "prefix pre (whole_response P s (received cs))"
    "tail = [] \<or> (\<exists>e. tail = [Inl e])"
    using read_stream_prefix [of "[]" env P n s cs] by auto
  have "clean z pre" if "clean z (whole_response P s (received cs))"
    using that r(2) by (auto simp: prefix_def)
  then show ?thesis
    using run_lines_reason [OF assms, of "split_on 10 (received cs)"] r failure_no_reason
    by (auto simp: whole_response_def response_lines_def)
qed

end

section \<open>Bounds of the working set\<close>

lemma scan_structure_bounds:
  "0 \<le> overhead \<Longrightarrow> overhead \<le> usize_max \<Longrightarrow>
   overhead \<le> scan_structure bs in_string escaped overhead \<and> scan_structure bs in_string escaped overhead \<le> overhead + 64 * int (length bs)"
proof (induction bs arbitrary: in_string escaped overhead)
  case (Cons b bs)
  obtain i e v where v: "scan_structure (b # bs) in_string escaped overhead = scan_structure bs i e v"
    "v = overhead \<or> v = usize_add overhead 64"
    by (cases in_string; cases escaped; cases "b = 92"; cases "b = 34"; cases "b = 123 \<or> b = 91 \<or> b = 44 \<or> b = 58"; simp; blast)
  then have "overhead \<le> v" "v \<le> overhead + 64" "v \<le> usize_max" "0 \<le> v"
    using Cons.prems by (auto simp: usize_add_def)
  with Cons.IH [of v i e] show ?case unfolding v(1) by simp
qed simp

text \<open>The estimate is at least twice the text, and at most 66 times.\<close>

lemma working_set_bounds:
  assumes "66 * int (length bs) \<le> usize_max"
  shows "2 * int (length bs) \<le> estimated_json_parse_working_set_bytes bs \<and>
    estimated_json_parse_working_set_bytes bs \<le> 66 * int (length bs)"
  using assms scan_structure_bounds [of 0 bs False False]
  by (simp add: estimated_json_parse_working_set_bytes_def usize_add_def usize_mul_def usize_max_def)

end
