(* ===== verification/Openai_Stream.thy ===== *)
theory Openai_Stream
  imports Sse
begin

text \<open>
  The parser for OpenAI chat streams (\<open>crates/llm-protocol/openai/src/stream.rs\<close>), in the normalized mode and in the native mode, which
  forwards every chunk as it is. Reading a chunk into the typed response is derived code of \<open>serde\<close>, an argument (\<open>decode\<close>); of its fields, those that
  the parser never reads (tool calls, log probabilities) are left out. The state of
  the line handler is the number of payloads it has asked memory for.
\<close>

section \<open>The typed chunk\<close>

record openai_usage =
  prompt_tokens :: "32 word"
  completion_tokens :: "32 word"
  total_tokens :: "32 word"

record delta_message =
  dm_role :: "str option"
  dm_content :: "str option"

record stream_choice =
  sc_index :: "32 word"
  sc_delta :: delta_message
  sc_finish_reason :: "str option"

record openai_stream_response =
  osr_id :: str
  osr_object :: str
  osr_created :: int
  osr_model :: str
  osr_choices :: "stream_choice list"
  osr_usage :: "openai_usage option"

datatype chat_stream_mode = Normalized | NativeMode bool

section \<open>Events of one chunk\<close>

definition extract_upstream_error :: "json \<Rightarrow> str option" where
  "extract_upstream_error v =
     (case json_get v ''error'' of
        None \<Rightarrow> None
      | Some error \<Rightarrow>
          if is_null error then None
          else case as_str error of
            Some message \<Rightarrow> Some (lit ''Upstream stream error: '' @ message)
          | None \<Rightarrow>
              let message = unwrap_or (Option.bind (json_get error ''message'') as_str) (lit ''unknown error'');
                  kind = Option.bind (case json_get error ''type'' of Some k \<Rightarrow> Some k | None \<Rightarrow> json_get error ''code'') as_str
              in Some (case kind of
                   Some k \<Rightarrow> lit ''Upstream stream error ('' @ k @ lit ''): '' @ message
                 | None \<Rightarrow> lit ''Upstream stream error: '' @ message))"

definition invalid :: "string \<Rightarrow> key_compute_error" where
  "invalid message = ProviderError (''OpenAI stream event '' @ message)"

definition valid_id :: "json \<Rightarrow> bool" where
  "valid_id v = (case as_str v of None \<Rightarrow> False | Some t \<Rightarrow> t \<noteq> [] \<and> text_len t \<le> 512 \<and> \<not> list_ex control_char t)"

definition if_present :: "(str \<times> json) list \<Rightarrow> string \<Rightarrow> (json \<Rightarrow> bool) \<Rightarrow> bool" where
  "if_present kv k p = (case key_get kv k of None \<Rightarrow> True | Some v \<Rightarrow> p v)"

fun validate_choices :: "json list \<Rightarrow> unit kc_result" where
  "validate_choices [] = Inr ()"
| "validate_choices (choice # choices) =
     (case as_object choice of
        None \<Rightarrow> Inl (invalid ''choices must contain objects'')
      | Some kv \<Rightarrow>
          and_then (ensure (if_present kv ''index'' (\<lambda>v. as_u64 v \<noteq> None)) (invalid ''choice has an invalid index'')) (\<lambda>_.
          and_then (ensure (if_present kv ''delta'' (\<lambda>v. as_object v \<noteq> None)) (invalid ''choice has an invalid delta'')) (\<lambda>_.
          validate_choices choices)))"

definition validate_usage :: "json \<Rightarrow> unit kc_result" where
  "validate_usage usage =
     (if is_null usage then Inr ()
      else case as_object usage of
        None \<Rightarrow> Inl (invalid ''has invalid usage'')
      | Some kv \<Rightarrow>
          ensure (\<not> list_ex (\<lambda>name. Option.bind (key_get kv name) as_u64 = None) [''prompt_tokens'', ''completion_tokens'', ''total_tokens''])
            (invalid ''has invalid usage token counts''))"

definition validate_native_openai_chunk :: "json \<Rightarrow> unit kc_result" where
  "validate_native_openai_chunk v =
     (case as_object v of
        None \<Rightarrow> Inl (invalid ''must be a JSON object'')
      | Some kv \<Rightarrow>
          and_then (ensure (if_present kv ''object'' (\<lambda>v. as_str v = Some (lit ''chat.completion.chunk'')))
            (invalid ''has an invalid object type'')) (\<lambda>_.
          and_then (ensure (if_present kv ''id'' valid_id) (invalid ''has an invalid id'')) (\<lambda>_.
          and_then (ensure (if_present kv ''created'' (\<lambda>v. case as_i64 v of None \<Rightarrow> False | Some n \<Rightarrow> 0 \<le> n))
            (invalid ''has an invalid created timestamp'')) (\<lambda>_.
          and_then (ensure (if_present kv ''model'' (\<lambda>v. case as_str v of None \<Rightarrow> False | Some m \<Rightarrow> m \<noteq> []))
            (invalid ''has an invalid model'')) (\<lambda>_.
          and_then (ensure (\<not> (key_get kv ''choices'' = None \<and> if_present kv ''usage'' is_null))
            (invalid ''must contain choices or usage'')) (\<lambda>_.
          and_then (case key_get kv ''choices'' of
              None \<Rightarrow> Inr ()
            | Some choices \<Rightarrow>
                (case as_array choices of None \<Rightarrow> Inl (invalid ''choices must be an array'') | Some cs \<Rightarrow> validate_choices cs)) (\<lambda>_.
          (case key_get kv ''usage'' of None \<Rightarrow> Inr () | Some usage \<Rightarrow> validate_usage usage))))))))"

text \<open>\<open>u32::try_from\<close> with the largest value for what does not fit.\<close>

definition clamp_u32 :: "u64 \<Rightarrow> u32" where
  "clamp_u32 n = (if n < 4294967296 then ucast n else - 1)"

definition native_usage :: "json \<Rightarrow> (u32 \<times> u32) option" where
  "native_usage v =
     Option.bind (json_get v ''usage'') (\<lambda>usage.
     Option.bind (Option.bind (json_get usage ''prompt_tokens'') as_u64) (\<lambda>p.
     Option.bind (Option.bind (json_get usage ''completion_tokens'') as_u64) (\<lambda>c. Some (clamp_u32 p, clamp_u32 c))))"

definition choices_are_empty :: "json \<Rightarrow> bool" where
  "choices_are_empty v = (Option.bind (json_get v ''choices'') as_array = Some [])"

definition without_usage :: "json \<Rightarrow> json" where
  "without_usage v = (case v of JObject kv \<Rightarrow> JObject (key_remove ''usage'' kv) | other \<Rightarrow> other)"

definition parse_native_openai_event :: "json \<Rightarrow> bool \<Rightarrow> stream_event list kc_result" where
  "parse_native_openai_event v forward_usage =
     and_then (validate_native_openai_chunk v) (\<lambda>_.
       let usage = native_usage v; shown = (if forward_usage then v else without_usage v) in
       Inr ((if forward_usage \<or> usage = None \<or> \<not> choices_are_empty v then [Native (OpenAiChatSse shown)] else []) @
            (case usage of None \<Rightarrow> [] | Some (input_tokens, output_tokens) \<Rightarrow> [TokenUsage input_tokens output_tokens])))"

text \<open>The cast \<open>as u32\<close> of an \<open>i32\<close> keeps the bits.\<close>

definition normalized_events :: "openai_stream_response \<Rightarrow> stream_event list" where
  "normalized_events response =
     (case osr_choices response of
        [] \<Rightarrow> []
      | choice # _ \<Rightarrow>
          (case dm_content (sc_delta choice) of
             Some content \<Rightarrow> [Delta content (sc_finish_reason choice)]
           | None \<Rightarrow> if sc_finish_reason choice \<noteq> None then [Delta [] (sc_finish_reason choice)] else [])) @
     (case osr_usage response of None \<Rightarrow> [] | Some usage \<Rightarrow> [TokenUsage (prompt_tokens usage) (completion_tokens usage)])"

definition parse_openai_event_with_mode ::
    "stream_env \<Rightarrow> (json \<Rightarrow> openai_stream_response option) \<Rightarrow> str \<Rightarrow> chat_stream_mode \<Rightarrow> stream_event list kc_result" where
  "parse_openai_event_with_mode env decode data mode =
     and_then (ok_or (json_from_str env data) (ProviderError ''Failed to parse OpenAI stream event: '')) (\<lambda>v.
       case extract_upstream_error v of
         Some message \<Rightarrow> Inr [stream_error env message]
       | None \<Rightarrow>
           (case mode of
              NativeMode forward_usage \<Rightarrow> parse_native_openai_event v forward_usage
            | Normalized \<Rightarrow>
                and_then (ok_or (decode v) (ProviderError ''Failed to parse OpenAI stream event: '')) (\<lambda>response.
                  Inr (normalized_events response))))"

section \<open>The stream\<close>

definition handle_sse_line ::
    "stream_env \<Rightarrow> (json \<Rightarrow> openai_stream_response option) \<Rightarrow> chat_stream_mode \<Rightarrow> nat \<Rightarrow> str \<Rightarrow> nat \<times> item list \<times> bool" where
  "handle_sse_line env decode mode k line =
     (case parse_sse_line line of
        None \<Rightarrow> (k, [], True)
      | Some data \<Rightarrow>
          if is_done_marker data then (k, [Inr StreamDone], False)
          else if payload_refused env k 2 data then (Suc k, [Inl memory_exhausted], False)
          else case parse_openai_event_with_mode env decode data mode of
            Inr events \<Rightarrow> (Suc k, map Inr events, True)
          | Inl e \<Rightarrow> (Suc k, [Inl (bounded_stream_error env e)], False))"

definition openai_parser ::
    "stream_env \<Rightarrow> (json \<Rightarrow> openai_stream_response option) \<Rightarrow> chat_stream_mode \<Rightarrow> nat sse_parser" where
  "openai_parser env decode mode =
     \<lparr>parser_name = ''OpenAI'', held_bytes = (\<lambda>k. 0), on_line = handle_sse_line env decode mode,
      on_end = (\<lambda>k. [Inl (ProviderError ''OpenAI stream ended without a terminal [DONE] marker'')])\<rparr>"

definition parse_chat_stream ::
    "stream_env \<Rightarrow> (json \<Rightarrow> openai_stream_response option) \<Rightarrow> chat_stream_mode \<Rightarrow> bytes kc_result list \<Rightarrow> item list" where
  "parse_chat_stream env decode mode chunks = read_stream env (openai_parser env decode mode) 0 0 [] chunks"

definition parse_openai_stream where
  "parse_openai_stream env decode chunks = parse_chat_stream env decode Normalized chunks"

definition parse_native_openai_chat_stream where
  "parse_native_openai_chat_stream env decode forward_usage chunks = parse_chat_stream env decode (NativeMode forward_usage) chunks"

section \<open>The contract of the line handler\<close>

definition openai_end :: "item \<Rightarrow> bool" where
  "openai_end x \<longleftrightarrow> (case x of Inl _ \<Rightarrow> True | Inr e \<Rightarrow> e = StreamDone)"


lemma parse_event_cases:
  assumes "parse_openai_event_with_mode env decode data mode = Inr events"
  obtains (upstream) message where "events = [stream_error env message]"
  | (native) v forward_usage where "mode = NativeMode forward_usage" "parse_native_openai_event v forward_usage = Inr events"
  | (normalized) response where "mode = Normalized" "events = normalized_events response"
proof -
  obtain v where v: "json_from_str env data = Some v"
    using assms by (auto simp: parse_openai_event_with_mode_def and_then_Inr_iff)
  show thesis
  proof (cases "extract_upstream_error v")
    case None
    show thesis
    proof (cases mode)
      case Normalized
      then show thesis using assms v None normalized by (auto simp: parse_openai_event_with_mode_def and_then_Inr_iff)
    next
      case (NativeMode f)
      then show thesis using assms v None native [of f v] by (simp add: parse_openai_event_with_mode_def)
    qed
  next
    case (Some message)
    then show thesis using assms v upstream [of message] by (simp add: parse_openai_event_with_mode_def)
  qed
qed

lemma normalized_events_kinds:
  "e \<in> set (normalized_events response) \<Longrightarrow> (\<exists>c f. e = Delta c f) \<or> (\<exists>i k. e = TokenUsage i k)"
  by (cases "osr_choices response"; cases "osr_usage response")
    (auto simp: normalized_events_def split: option.splits if_splits)

lemma native_event_eq:
  "parse_native_openai_event v forward_usage = Inr events \<longleftrightarrow>
     validate_native_openai_chunk v = Inr () \<and>
     events = (if forward_usage \<or> native_usage v = None \<or> \<not> choices_are_empty v
        then [Native (OpenAiChatSse (if forward_usage then v else without_usage v))] else []) @
       (case native_usage v of None \<Rightarrow> [] | Some (i, k) \<Rightarrow> [TokenUsage i k])"
  by (auto simp: parse_native_openai_event_def and_then_Inr_iff Let_def)

lemma parse_event_not_done: "parse_openai_event_with_mode env decode data mode = Inr events \<Longrightarrow> StreamDone \<notin> set events"
proof (erule parse_event_cases)
  fix response assume "events = normalized_events response"
  then show "StreamDone \<notin> set events" using normalized_events_kinds by blast
qed (auto simp: stream_error_def native_event_eq split: option.splits)


interpretation oai: ending_parser "openai_parser env decode mode" openai_end "\<lambda>_ _. True"
proof
  show "openai_end (Inl e)" for e by (simp add: openai_end_def)
  show "clean openai_end out" if "on_line (openai_parser env decode mode) s l = (s', out, True)" for s l s' out
    using that parse_event_not_done
    by (auto simp: openai_parser_def handle_sse_line_def openai_end_def clean_def split: option.splits if_splits sum.splits)
  show "stopped openai_end out" if "on_line (openai_parser env decode mode) s l = (s', out, False)" for s l s' out
    using that by (auto simp: openai_parser_def handle_sse_line_def openai_end_def split: option.splits if_splits sum.splits)
  show "stopped openai_end (on_end (openai_parser env decode mode) s)" for s
    by (simp add: openai_parser_def openai_end_def)
qed simp




text \<open>The completion event is sent for a line with the marker and for nothing else.\<close>

definition done_line :: "str \<Rightarrow> bool" where
  "done_line line \<longleftrightarrow> (case parse_sse_line line of None \<Rightarrow> False | Some data \<Rightarrow> is_done_marker data)"

interpretation oai_done: tracking_parser "openai_parser env decode mode" "\<lambda>_ _. True" "\<lambda>x. x = Inr StreamDone" "list_ex done_line"
proof
  show "clean (\<lambda>x. x = Inr StreamDone) out \<or> list_ex done_line (seen @ l # rest)"
    if "on_line (openai_parser env decode mode) s l = (s', out, go)" for seen s l s' out go rest
    using that parse_event_not_done [of env decode _ mode]
    by (auto simp: openai_parser_def handle_sse_line_def done_line_def clean_def split: option.splits if_splits sum.splits)
qed (simp_all add: openai_parser_def)

section \<open>What a client of the stream can rely on\<close>

text \<open>
  C35: for every response, in whatever chunks, with whatever read errors, refusals of memory and malformed lines, a chat stream sends exactly one
  item that ends it, the completion event or an error, and sends it last. It is an error unless one of the lines that were read carries the
  marker: a response that was cut off before its marker is never reported as complete.
\<close>

theorem chat_stream_ends_once:
  "stopped openai_end (parse_chat_stream env decode mode chunks) \<and>
   (isl (last (parse_chat_stream env decode mode chunks)) \<or> list_ex done_line (response_lines (received chunks)))"
proof -
  let ?out = "parse_chat_stream env decode mode chunks"
  have s: "stopped openai_end ?out"
    unfolding parse_chat_stream_def by (rule oai.read_stream_ends) simp
  then have "openai_end (last ?out)" "last ?out \<in> set ?out" by (cases ?out rule: rev_cases; simp)+
  then have "isl (last ?out) \<or> \<not> clean (\<lambda>x. x = Inr StreamDone) ?out"
    by (cases "last ?out") (auto simp: openai_end_def clean_def)
  moreover have "clean (\<lambda>x. x = Inr StreamDone) ?out \<or> list_ex done_line (response_lines (received chunks))"
    unfolding parse_chat_stream_def by (rule oai_done.read_stream_reason) simp
  ultimately show ?thesis using s by blast
qed

text \<open>
  C36: the items of a chat stream do not depend on how the network cut the response: they are those of the lines of the whole
  response, each decoded as a whole, or a prefix of them followed by the error for exhausted memory.
\<close>

theorem chat_stream_chunking:
  "parse_chat_stream env decode mode (map Inr cs) = whole_response (openai_parser env decode mode) 0 (concat cs) \<or>
   (\<exists>pre. prefix pre (whole_response (openai_parser env decode mode) 0 (concat cs)) \<and>
      parse_chat_stream env decode mode (map Inr cs) = pre @ [Inl memory_exhausted])"
  using read_stream_whole [of "[]"] by (simp add: parse_chat_stream_def)


text \<open>A negative token count of the upstream becomes a count above two billion in the normalized mode.\<close>

lemma negative_usage_wraps:
  assumes "osr_usage response = Some usage" "sint (prompt_tokens usage) < 0"
  shows "\<exists>i k. TokenUsage i k \<in> set (normalized_events response) \<and> 2 ^ 31 \<le> uint i"
proof -
  have "\<not> uint (prompt_tokens usage) < 2 ^ 31"
  proof
    assume "uint (prompt_tokens usage) < 2 ^ 31"
    then have "sint (prompt_tokens usage) = uint (prompt_tokens usage)"
      by (simp add: sint_uint signed_take_bit_eq_take_bit_shift take_bit_eq_mod)
    then show False using assms(2) by simp
  qed
  moreover have "TokenUsage (prompt_tokens usage) (completion_tokens usage) \<in> set (normalized_events response)"
    using assms(1) by (simp add: normalized_events_def)
  ultimately show ?thesis by (metis not_less)
qed

text \<open>
  A response in two chunks: a chunk that carries only the usage, cut after the field name, and the marker without a line feed. The usage is billed
  and not shown, and the stream ends well.
\<close>

definition demo_chat_env :: stream_env where
  "demo_chat_env = \<lparr>memory_grows = (\<lambda>_ _. True), payload_admitted = (\<lambda>_ _ _. True),
     json_from_str = (\<lambda>t. if t = lit ''usage only'' then Some (JObject [(lit ''choices'', JArray []), (lit ''usage'',
       JObject [(lit ''prompt_tokens'', JPosInt 7), (lit ''completion_tokens'', JPosInt 5), (lit ''total_tokens'', JPosInt 12)])]) else None),
     json_to_string = (\<lambda>_. []), redact = (\<lambda>t. t)\<rparr>"

lemma demo_chat_stream:
  "parse_native_openai_chat_stream demo_chat_env (\<lambda>_. None) False
     [Inr (as_bytes (lit ''data:'')), Inr (as_bytes (lit '' usage only'' @ [13, 10] @ lit ''data: [DONE]''))] =
   [Inr (TokenUsage 7 5), Inr StreamDone]"
  by code_simp

text \<open>The same response without its marker ends with the error.\<close>

lemma demo_chat_truncated:
  "parse_native_openai_chat_stream demo_chat_env (\<lambda>_. None) True [Inr (as_bytes (lit ''data: usage only'' @ [10]))] =
   [Inr (Native (OpenAiChatSse (the (json_from_str demo_chat_env (lit ''usage only''))))), Inr (TokenUsage 7 5),
    Inl (ProviderError ''OpenAI stream ended without a terminal [DONE] marker'')]"
  by code_simp

end
