(* ===== verification/Anthropic_Stream.thy ===== *)
theory Anthropic_Stream
  imports Sse
begin

text \<open>
  The parser for Anthropic message streams (\<open>crates/llm-protocol/anthropic/src/stream.rs\<close>, with the events of \<open>protocol.rs\<close>). An event's data
  may span several lines and is dispatched at the empty line that ends it, or at the end of the response. Reading the data into the
  typed event is derived code of \<open>serde\<close>, an argument (\<open>decode\<close>); the fields of a message and of an image that the parser never
  reads are left out.
\<close>

section \<open>Events of the protocol\<close>

record anthropic_usage =
  au_input_tokens :: u32
  au_cache_creation_input_tokens :: u32
  au_cache_read_input_tokens :: u32
  au_output_tokens :: u32

definition total_input_tokens :: "anthropic_usage \<Rightarrow> u32 kc_result" where
  "total_input_tokens u =
     ok_or (Option.bind (checked_add_u32 (au_input_tokens u) (au_cache_creation_input_tokens u))
         (\<lambda>tokens. checked_add_u32 tokens (au_cache_read_input_tokens u)))
       (ProviderError ''Anthropic input token usage exceeds u32'')"

datatype content_block = TextBlock str | ImageBlock | UnknownBlock

datatype content_delta = TextDelta str | UnknownDelta

datatype anthropic_event =
    MessageStart anthropic_usage
  | ContentBlockStart u32 content_block
  | ContentBlockDelta u32 content_delta
  | ContentBlockStop u32
  | MessageDelta "str option" "anthropic_usage option"
  | MessageStop
  | AnthropicError str str
  | Ping
  | UnknownEvent

type_synonym decode_event = "str \<Rightarrow> anthropic_event option"

section \<open>One event\<close>

record anthropic_state =
  input_tokens :: u32
  done_received :: bool
  event_name :: "str option"
  data_lines :: "str list"
  payloads :: nat

definition anthropic_start :: anthropic_state where
  "anthropic_start = \<lparr>input_tokens = 0, done_received = False, event_name = None, data_lines = [], payloads = 0\<rparr>"

definition raw_anthropic_event :: "stream_env \<Rightarrow> str \<Rightarrow> str option \<Rightarrow> stream_event kc_result" where
  "raw_anthropic_event env data name =
     and_then (ok_or (json_from_str env data) (ProviderError ''Failed to parse Anthropic stream event: '')) (\<lambda>body.
     and_then (ok_or (Option.bind (json_get body ''type'') as_str) (ProviderError ''Anthropic stream event missing type'')) (\<lambda>body_type.
       let event = (case name of None \<Rightarrow> body_type | Some n \<Rightarrow> if n = [] then body_type else n) in
       Inr (Raw (json_to_string env (JObject [(lit ''kind'', JString (lit ''anthropic_sse'')), (lit ''event'', JString event), (lit ''data'', body)])))))"

fun anthropic_events :: "stream_env \<Rightarrow> anthropic_event \<Rightarrow> anthropic_state \<Rightarrow> stream_event list kc_result \<times> anthropic_state" where
  "anthropic_events env (MessageStart usage) st =
     (case total_input_tokens usage of
        Inl e \<Rightarrow> (Inl e, st)
      | Inr n \<Rightarrow> (Inr [InputUsage n], st\<lparr>input_tokens := n\<rparr>))"
| "anthropic_events env (ContentBlockStart _ block) st =
     (case block of TextBlock t \<Rightarrow> (Inr (if t \<noteq> [] then [Delta t None] else []), st) | _ \<Rightarrow> (Inr [], st))"
| "anthropic_events env (ContentBlockDelta _ delta) st =
     (case delta of TextDelta t \<Rightarrow> (Inr [Delta t None], st) | UnknownDelta \<Rightarrow> (Inr [], st))"
| "anthropic_events env (ContentBlockStop _) st = (Inr [], st)"
| "anthropic_events env (MessageDelta stop_reason usage) st =
     (let events = (if stop_reason \<noteq> None then [Delta [] stop_reason] else []) in
      case usage of
        None \<Rightarrow> (Inr events, st)
      | Some u \<Rightarrow>
          (case total_input_tokens u of
             Inl e \<Rightarrow> (Inl e, st)
           | Inr reported \<Rightarrow> (Inr (events @ [TokenUsage (max (input_tokens st) reported) (au_output_tokens u)]), st)))"
| "anthropic_events env MessageStop st = (Inr [StreamDone], st\<lparr>done_received := True\<rparr>)"
| "anthropic_events env (AnthropicError kind message) st =
     (Inr [stream_error env (lit ''Anthropic API error ('' @ kind @ lit ''): '' @ message)], st)"
| "anthropic_events env Ping st = (Inr [], st)"
| "anthropic_events env UnknownEvent st = (Inr [], st)"

definition parse_anthropic_event ::
    "stream_env \<Rightarrow> decode_event \<Rightarrow> str \<Rightarrow> anthropic_state \<Rightarrow> stream_event list kc_result \<times> anthropic_state" where
  "parse_anthropic_event env decode data st =
     (case decode data of
        None \<Rightarrow> (Inl (ProviderError ''Failed to parse Anthropic stream event: ''), st)
      | Some event \<Rightarrow> anthropic_events env event st)"

definition dispatch_anthropic_event ::
    "stream_env \<Rightarrow> decode_event \<Rightarrow> bool \<Rightarrow> str \<Rightarrow> str option \<Rightarrow> anthropic_state \<Rightarrow> anthropic_state \<times> item list \<times> bool" where
  "dispatch_anthropic_event env decode preserve_raw data name st =
     (let st1 = st\<lparr>payloads := Suc (payloads st)\<rparr> in
      if payload_refused env (payloads st) 3 data then (st1, [Inl memory_exhausted], False)
      else case (if preserve_raw then and_then (raw_anthropic_event env data name) (\<lambda>event. Inr [event]) else Inr []) of
        Inl e \<Rightarrow> (st1, [Inl (bounded_stream_error env e)], False)
      | Inr raw \<Rightarrow>
          (case parse_anthropic_event env decode data st1 of
             (Inl e, st2) \<Rightarrow> (st2, [Inl (bounded_stream_error env e)], False)
           | (Inr events, st2) \<Rightarrow> (st2, map Inr (raw @ events), True)))"

section \<open>The stream\<close>

fun join_lines :: "str list \<Rightarrow> str" where
  "join_lines [] = []"
| "join_lines [l] = l"
| "join_lines (l # ls) = l @ 10 # join_lines ls"

definition handle_complete_line ::
    "stream_env \<Rightarrow> decode_event \<Rightarrow> bool \<Rightarrow> anthropic_state \<Rightarrow> str \<Rightarrow> anthropic_state \<times> item list \<times> bool" where
  "handle_complete_line env decode preserve_raw st line =
     (if line = [] then
        (let st1 = st\<lparr>event_name := None\<rparr> in
         if data_lines st = [] then (st1, [], True)
         else dispatch_anthropic_event env decode preserve_raw (join_lines (data_lines st)) (event_name st) (st1\<lparr>data_lines := []\<rparr>))
      else case strip_prefix (lit ''event:'') line of
        Some name \<Rightarrow> (st\<lparr>event_name := Some (trim_text name)\<rparr>, [], True)
      | None \<Rightarrow>
          (case strip_prefix (lit ''data:'') line of
             None \<Rightarrow> (st, [], True)
           | Some rest \<Rightarrow>
               let data = unwrap_or (strip_prefix (lit '' '') rest) rest in
               if trim_text data = [] then (st, [], True)
               else if trim_text data = lit ''[DONE]'' then (st, [], True)
               else (st\<lparr>data_lines := data_lines st @ [data]\<rparr>, [], True)))"

definition pending_data :: "anthropic_state \<Rightarrow> int" where
  "pending_data st = foldl usize_add 0 (map (\<lambda>l. usize_add (text_len l) 32) (data_lines st))"

text \<open>At the end of the response the outcome of the last dispatch is ignored.\<close>

definition anthropic_end :: "stream_env \<Rightarrow> decode_event \<Rightarrow> bool \<Rightarrow> anthropic_state \<Rightarrow> item list" where
  "anthropic_end env decode preserve_raw st =
     (case (if data_lines st \<noteq> [] then dispatch_anthropic_event env decode preserve_raw (join_lines (data_lines st)) (event_name st) st
            else (st, [], True)) of
        (st', out, _) \<Rightarrow>
          out @ (if done_received st' then []
                 else [Inl (ProviderError ''Anthropic stream ended without a terminal message_stop marker'')]))"

definition anthropic_parser :: "stream_env \<Rightarrow> decode_event \<Rightarrow> bool \<Rightarrow> anthropic_state sse_parser" where
  "anthropic_parser env decode preserve_raw =
     \<lparr>parser_name = ''Anthropic'', held_bytes = pending_data, on_line = handle_complete_line env decode preserve_raw,
      on_end = anthropic_end env decode preserve_raw\<rparr>"

definition parse_anthropic_stream_with_raw :: "stream_env \<Rightarrow> decode_event \<Rightarrow> bool \<Rightarrow> bytes kc_result list \<Rightarrow> item list" where
  "parse_anthropic_stream_with_raw env decode preserve_raw chunks =
     read_stream env (anthropic_parser env decode preserve_raw) 0 anthropic_start [] chunks"

definition parse_anthropic_stream where
  "parse_anthropic_stream env decode chunks = parse_anthropic_stream_with_raw env decode False chunks"

section \<open>The contract of the line handler\<close>

fun usage_covers :: "u32 \<Rightarrow> item list \<Rightarrow> bool" where
  "usage_covers known [] = True"
| "usage_covers known (Inr (InputUsage n) # out) = usage_covers n out"
| "usage_covers known (Inr (TokenUsage n k) # out) = (known \<le> n \<and> usage_covers known out)"
| "usage_covers known (_ # out) = usage_covers known out"

fun known_input :: "u32 \<Rightarrow> item list \<Rightarrow> u32" where
  "known_input known [] = known"
| "known_input known (Inr (InputUsage n) # out) = known_input n out"
| "known_input known (_ # out) = known_input known out"

definition anthropic_record :: "item list \<Rightarrow> anthropic_state \<Rightarrow> bool" where
  "anthropic_record sent st \<longleftrightarrow>
     (done_received st \<longrightarrow> Inr StreamDone \<in> set sent) \<and> usage_covers 0 sent \<and> known_input 0 sent = input_tokens st"

lemma known_input_append: "known_input n (a @ b) = known_input (known_input n a) b"
  by (induction n a rule: known_input.induct) simp_all

lemma usage_covers_append: "usage_covers n (a @ b) \<longleftrightarrow> usage_covers n a \<and> usage_covers (known_input n a) b"
  by (induction n a rule: usage_covers.induct) simp_all

lemma anthropic_events_record:
  assumes "anthropic_record sent st" "anthropic_events env event st = (Inr events, st')"
  shows "anthropic_record (sent @ map Inr events) st'"
  using assms
  by (cases event)
    (auto simp: anthropic_record_def usage_covers_append known_input_append Let_def stream_error_def
      split: sum.splits option.splits content_block.splits content_delta.splits if_splits)

lemma anthropic_events_error: "anthropic_events env event st = (Inl e, st') \<Longrightarrow> st' = st"
  by (cases event) (auto simp: Let_def split: sum.splits option.splits content_block.splits content_delta.splits)

lemma raw_anthropic_event_raw: "raw_anthropic_event env data name = Inr event \<Longrightarrow> \<exists>d. event = Raw d"
  by (auto simp: raw_anthropic_event_def and_then_Inr_iff Let_def)

lemma record_failure: "anthropic_record sent st \<Longrightarrow> anthropic_record (sent @ [Inl e]) st"
  by (auto simp: anthropic_record_def usage_covers_append known_input_append)

lemma record_raw: "anthropic_record sent st \<Longrightarrow> anthropic_record (sent @ [Inr (Raw d)]) st"
  by (auto simp: anthropic_record_def usage_covers_append known_input_append)

lemma record_fields [simp]:
  "anthropic_record sent (st\<lparr>payloads := k\<rparr>) = anthropic_record sent st"
  "anthropic_record sent (st\<lparr>event_name := n\<rparr>) = anthropic_record sent st"
  "anthropic_record sent (st\<lparr>data_lines := ls\<rparr>) = anthropic_record sent st"
  by (simp_all add: anthropic_record_def)

lemma dispatch_outcome:
  assumes r: "anthropic_record sent st"
    and d: "dispatch_anthropic_event env decode preserve_raw data name st = (st', out, go)"
  shows "anthropic_record (sent @ out) st' \<and> (if go then clean isl out else stopped isl out)"
proof -
  let ?st1 = "st\<lparr>payloads := Suc (payloads st)\<rparr>"
  let ?raw = "if preserve_raw then and_then (raw_anthropic_event env data name) (\<lambda>event. Inr [event]) else Inr []"
  have r1: "anthropic_record sent ?st1" using r by simp
  note f = record_failure [OF r1]
  show ?thesis
  proof (cases "payload_refused env (payloads st) 3 data")
    case True
    then show ?thesis using d f by (auto simp: dispatch_anthropic_event_def Let_def)
  next
    case False
    show ?thesis
    proof (cases ?raw)
      case (Inl e)
      then show ?thesis using d f False by (auto simp: dispatch_anthropic_event_def Let_def)
    next
      case (Inr raw)
      then have raw: "raw = [] \<or> (\<exists>x. raw = [Raw x])"
        by (auto simp: and_then_Inr_iff dest!: raw_anthropic_event_raw split: if_splits)
      then have rr: "anthropic_record (sent @ map Inr raw) ?st1" using r1 record_raw [OF r1] by auto
      obtain res st2 where p: "parse_anthropic_event env decode data ?st1 = (res, st2)" by (cases "parse_anthropic_event env decode data ?st1")
      show ?thesis
      proof (cases res)
        case (Inl e)
        then have "st2 = ?st1" using p anthropic_events_error by (auto simp: parse_anthropic_event_def split: option.splits)
        then show ?thesis using d f False \<open>?raw = Inr raw\<close> p Inl by (auto simp: dispatch_anthropic_event_def Let_def)
      next
        case (Inr events)
        then obtain event where "anthropic_events env event ?st1 = (Inr events, st2)"
          using p by (auto simp: parse_anthropic_event_def split: option.splits)
        from anthropic_events_record [OF rr this] show ?thesis
          using d False \<open>?raw = Inr raw\<close> p Inr by (auto simp: dispatch_anthropic_event_def Let_def clean_def)
      qed
    qed
  qed
qed

lemma line_record:
  assumes r: "anthropic_record sent st" and l: "handle_complete_line env decode preserve_raw st line = (st', out, go)"
  shows "anthropic_record (sent @ out) st' \<and> (if go then clean isl out else stopped isl out)"
proof (cases "line = [] \<and> data_lines st \<noteq> []")
  case True
  then have "dispatch_anthropic_event env decode preserve_raw (join_lines (data_lines st)) (event_name st)
      (st\<lparr>event_name := None, data_lines := []\<rparr>) = (st', out, go)"
    using l by (simp add: handle_complete_line_def Let_def)
  then show ?thesis by (rule dispatch_outcome [rotated]) (use r in simp)
next
  case False
  then show ?thesis using l r by (auto simp: handle_complete_line_def Let_def split: if_splits option.splits)
qed

lemma line_stops:
  assumes "handle_complete_line env decode preserve_raw st line = (st', out, go)"
  shows "if go then clean isl out else stopped isl out"
proof -
  have "anthropic_record [Inr (InputUsage (input_tokens st)), Inr StreamDone] st" by (simp add: anthropic_record_def)
  from line_record [OF this assms] show ?thesis by simp
qed

interpretation anth: stopping_parser "anthropic_parser env decode preserve_raw" isl anthropic_record
proof
  show "clean isl out" if "on_line (anthropic_parser env decode preserve_raw) s l = (s', out, True)" for s l s' out
    using that line_stops [of env decode preserve_raw s l s' out True] by (simp add: anthropic_parser_def)
  show "stopped isl out" if "on_line (anthropic_parser env decode preserve_raw) s l = (s', out, False)" for s l s' out
    using that line_stops [of env decode preserve_raw s l s' out False] by (simp add: anthropic_parser_def)
  show "anthropic_record (sent @ out) s'"
    if "anthropic_record sent s" "on_line (anthropic_parser env decode preserve_raw) s l = (s', out, go)" for sent s l s' out go
    using that line_record by (fastforce simp: anthropic_parser_def)
qed simp

lemma anthropic_on_end: "on_end (anthropic_parser env decode preserve_raw) = anthropic_end env decode preserve_raw"
  by (simp add: anthropic_parser_def)

lemma end_record:
  assumes "anthropic_record sent st"
  shows "usage_covers 0 (sent @ anthropic_end env decode preserve_raw st) \<and>
    (list_ex isl (anthropic_end env decode preserve_raw st) \<or> Inr StreamDone \<in> set (sent @ anthropic_end env decode preserve_raw st))"
proof -
  obtain st' out go where d: "(if data_lines st \<noteq> [] then dispatch_anthropic_event env decode preserve_raw (join_lines (data_lines st))
      (event_name st) st else (st, [], True)) = (st', out, go)" by (metis prod_cases3)
  then have "anthropic_record (sent @ out) st'" using assms dispatch_outcome [OF assms] by (auto split: if_splits)
  moreover have "anthropic_end env decode preserve_raw st = out @ (if done_received st' then []
      else [Inl (ProviderError ''Anthropic stream ended without a terminal message_stop marker'')])"
    unfolding anthropic_end_def d by simp
  ultimately show ?thesis by (auto simp: anthropic_record_def usage_covers_append)
qed

lemma stream_record:
  "usage_covers 0 (parse_anthropic_stream_with_raw env decode preserve_raw chunks) \<and>
   (list_ex isl (parse_anthropic_stream_with_raw env decode preserve_raw chunks) \<or>
    Inr StreamDone \<in> set (parse_anthropic_stream_with_raw env decode preserve_raw chunks))"
proof -
  let ?out = "parse_anthropic_stream_with_raw env decode preserve_raw chunks"
  have "anthropic_record [] anthropic_start" by (simp add: anthropic_record_def anthropic_start_def)
  from anth.read_stream_outcome [OF this, of env decode preserve_raw env 0 "[]" chunks]
  consider (ended) pre st where "anthropic_record pre st" "?out = pre @ anthropic_end env decode preserve_raw st"
    | (halted) pre st where "stopped isl ?out" "anthropic_record pre st" "?out = pre \<or> (\<exists>e. ?out = pre @ [Inl e])"
    by (auto simp: anth.finished_def anth.halted_def parse_anthropic_stream_with_raw_def anthropic_on_end)
  then show ?thesis
  proof cases
    case ended
    then show ?thesis using end_record [OF ended(1), of env decode preserve_raw] by auto
  next
    case halted
    have "list_ex isl ?out" using halted(1) by (cases ?out rule: rev_cases) simp_all
    moreover have "usage_covers 0 ?out" using halted(2,3) by (auto simp: anthropic_record_def usage_covers_append)
    ultimately show ?thesis by blast
  qed
qed

text \<open>
  The frames of a response, read off its lines: the data fields up to an empty line, joined by line feeds, and what is left at the end.
  Blank fields and the marker of the other protocol do not count.
\<close>

definition data_field :: "str \<Rightarrow> str option" where
  "data_field line =
     (case strip_prefix (lit ''data:'') line of
        None \<Rightarrow> None
      | Some rest \<Rightarrow>
          let data = unwrap_or (strip_prefix (lit '' '') rest) rest in
          if trim_text data = [] \<or> trim_text data = lit ''[DONE]'' then None else Some data)"

fun message_frames :: "str list \<Rightarrow> str list \<Rightarrow> str list" where
  "message_frames ds [] = (if ds = [] then [] else [join_lines ds])"
| "message_frames ds (line # lines) =
     (if line = [] then (if ds = [] then message_frames [] lines else join_lines ds # message_frames [] lines)
      else case data_field line of None \<Rightarrow> message_frames ds lines | Some d \<Rightarrow> message_frames (ds @ [d]) lines)"

definition stop_received :: "decode_event \<Rightarrow> str list \<Rightarrow> bool" where
  "stop_received decode lines = list_ex (\<lambda>data. decode data = Some MessageStop) (message_frames [] lines)"

text \<open>The handler holds the data fields of the frame that its lines have left open.\<close>

definition frame_open :: "str list \<Rightarrow> anthropic_state \<Rightarrow> bool" where
  "frame_open seen st \<longleftrightarrow>
     (\<forall>rest. set (message_frames (data_lines st) rest) \<subseteq> set (message_frames [] (seen @ rest)))"

lemma anthropic_events_fields: "anthropic_events env event st = (res, st') \<Longrightarrow> data_lines st' = data_lines st"
  by (cases event) (auto simp: Let_def split: sum.splits option.splits content_block.splits content_delta.splits)

lemma anthropic_events_done:
  "anthropic_events env event st = (Inr events, st') \<Longrightarrow> StreamDone \<in> set events \<Longrightarrow> event = MessageStop"
  by (cases event) (auto simp: Let_def stream_error_def split: sum.splits option.splits content_block.splits content_delta.splits if_splits)

lemma dispatch_done:
  assumes "dispatch_anthropic_event env decode preserve_raw data name st = (st', out, go)"
  shows "data_lines st' = data_lines st"
    and "clean (\<lambda>x. x = Inr StreamDone) out \<or> decode data = Some MessageStop"
  using assms
  by (auto simp: dispatch_anthropic_event_def parse_anthropic_event_def Let_def and_then_Inr_iff clean_def
      dest: anthropic_events_fields anthropic_events_done dest!: raw_anthropic_event_raw
      split: if_splits sum.splits prod.splits option.splits)

lemma event_line_no_data: "strip_prefix (lit ''event:'') line = Some name \<Longrightarrow> data_field line = None"
  by (cases line) (auto simp: strip_prefix_def data_field_def lit_def split: if_splits)

lemma line_frames:
  assumes "handle_complete_line env decode preserve_raw st line = (st', out, go)"
  shows "set (message_frames (data_lines st') rest) \<subseteq> set (message_frames (data_lines st) (line # rest))"
    and "clean (\<lambda>x. x = Inr StreamDone) out \<or>
      (\<exists>data \<in> set (message_frames (data_lines st) (line # rest)). decode data = Some MessageStop)"
proof -
  have "set (message_frames (data_lines st') rest) \<subseteq> set (message_frames (data_lines st) (line # rest)) \<and>
      (clean (\<lambda>x. x = Inr StreamDone) out \<or>
       (\<exists>data \<in> set (message_frames (data_lines st) (line # rest)). decode data = Some MessageStop))"
  proof (cases "line = [] \<and> data_lines st \<noteq> []")
    case True
    then have "dispatch_anthropic_event env decode preserve_raw (join_lines (data_lines st)) (event_name st)
        (st\<lparr>event_name := None, data_lines := []\<rparr>) = (st', out, go)"
      using assms by (simp add: handle_complete_line_def Let_def)
    from dispatch_done [OF this] True show ?thesis by auto
  next
    case False
    then show ?thesis
      using assms event_line_no_data [of line]
      by (auto simp: handle_complete_line_def data_field_def Let_def split: if_splits option.splits)
  qed
  then show "set (message_frames (data_lines st') rest) \<subseteq> set (message_frames (data_lines st) (line # rest))"
    and "clean (\<lambda>x. x = Inr StreamDone) out \<or>
      (\<exists>data \<in> set (message_frames (data_lines st) (line # rest)). decode data = Some MessageStop)" by blast+
qed

interpretation anth_done: tracking_parser "anthropic_parser env decode preserve_raw" frame_open "\<lambda>x. x = Inr StreamDone"
  "stop_received decode"
proof
  fix seen s l s' out go rest
  assume k: "frame_open seen s" and l: "on_line (anthropic_parser env decode preserve_raw) s l = (s', out, go)"
  have h: "handle_complete_line env decode preserve_raw s l = (s', out, go)" using l by (simp add: anthropic_parser_def)
  have sub: "set (message_frames (data_lines s) (l # r)) \<subseteq> set (message_frames [] (seen @ l # r))" for r
    using k by (simp only: frame_open_def)
  show "frame_open (seen @ [l]) s'" unfolding frame_open_def using line_frames(1) [OF h] sub by fastforce
  show "clean (\<lambda>x. x = Inr StreamDone) out \<or> stop_received decode (seen @ l # rest)"
    using line_frames(2) [OF h, of rest] sub [of rest] by (auto simp: stop_received_def list_ex_iff)
next
  fix seen s
  assume k: "frame_open seen s"
  have "set (message_frames (data_lines s) []) \<subseteq> set (message_frames [] (seen @ []))"
    using k by (simp only: frame_open_def)
  then show "clean (\<lambda>x. x = Inr StreamDone) (on_end (anthropic_parser env decode preserve_raw) s) \<or> stop_received decode seen"
    using dispatch_done(2) [of env decode preserve_raw "join_lines (data_lines s)" "event_name s" s]
    by (auto simp: anthropic_on_end anthropic_end_def stop_received_def list_ex_iff split: if_splits prod.splits)
qed simp

section \<open>What a client of the stream can rely on\<close>

text \<open>
  C38: whatever the response and its chunks, an Anthropic stream that reports no error has delivered the completion event, and a stop message
  was really among the frames of the bytes that were read: a response cut off before its stop message is never taken for a complete one.
\<close>

theorem anthropic_truncation_reported:
  "list_ex isl (parse_anthropic_stream_with_raw env decode preserve_raw chunks) \<or>
   Inr StreamDone \<in> set (parse_anthropic_stream_with_raw env decode preserve_raw chunks) \<and>
   stop_received decode (response_lines (received chunks))"
proof -
  have "frame_open [] anthropic_start" by (simp add: frame_open_def anthropic_start_def)
  then have "clean (\<lambda>x. x = Inr StreamDone) (parse_anthropic_stream_with_raw env decode preserve_raw chunks) \<or>
      stop_received decode (response_lines (received chunks))"
    unfolding parse_anthropic_stream_with_raw_def by (rule anth_done.read_stream_reason)
  then show ?thesis using stream_record [of env decode preserve_raw chunks] by (auto simp: clean_def)
qed

text \<open>
  C39: on every Anthropic stream, each usage event counts at least the input tokens, prompt-cache tokens included, that the last start
  message before it had reported: a later, smaller report never lowers what is billed.
\<close>

theorem anthropic_input_kept: "usage_covers 0 (parse_anthropic_stream_with_raw env decode preserve_raw chunks)"
  using stream_record by blast

text \<open>
  C40: the input tokens of a usage report are the exact sum of its three counts, and a sum beyond 32 bits is an error, never a smaller number.
\<close>

theorem total_input_tokens_exact:
  "total_input_tokens u = Inr n \<longleftrightarrow>
   unat n = unat (au_input_tokens u) + unat (au_cache_creation_input_tokens u) + unat (au_cache_read_input_tokens u)"
proof (cases "checked_add_u32 (au_input_tokens u) (au_cache_creation_input_tokens u)")
  case None
  then have "4294967296 \<le> unat (au_input_tokens u) + unat (au_cache_creation_input_tokens u)" by (simp only: checked_add_u32_None)
  then have "unat n \<noteq> unat (au_input_tokens u) + unat (au_cache_creation_input_tokens u) + unat (au_cache_read_input_tokens u)"
    using unat_u32_less [of n] by linarith
  then show ?thesis using None by (simp add: total_input_tokens_def)
next
  case (Some m)
  then have "unat m = unat (au_input_tokens u) + unat (au_cache_creation_input_tokens u)" by (simp only: checked_add_u32_Some)
  moreover have "total_input_tokens u = Inr n \<longleftrightarrow> checked_add_u32 m (au_cache_read_input_tokens u) = Some n"
    by (simp add: total_input_tokens_def Some)
  ultimately show ?thesis by (simp only: checked_add_u32_Some)
qed

text \<open>
  The items of an Anthropic stream do not depend on how the network cut the response: they are those of the lines of the whole response,
  or a prefix of them followed by the error for exhausted memory.
\<close>

theorem anthropic_stream_chunking:
  "parse_anthropic_stream_with_raw env decode preserve_raw (map Inr cs) =
     whole_response (anthropic_parser env decode preserve_raw) anthropic_start (concat cs) \<or>
   (\<exists>pre. prefix pre (whole_response (anthropic_parser env decode preserve_raw) anthropic_start (concat cs)) \<and>
      parse_anthropic_stream_with_raw env decode preserve_raw (map Inr cs) = pre @ [Inl memory_exhausted])"
  using read_stream_whole [of "[]"] by (simp add: parse_anthropic_stream_with_raw_def)

text \<open>
  A response whose last frame lacks its line feeds: the start message, a smaller repeated input count, and the stop message
  dispatched at the end of the response.
\<close>

definition demo_decode :: decode_event where
  "demo_decode t =
     (if t = lit ''start'' then Some (MessageStart \<lparr>au_input_tokens = 10, au_cache_creation_input_tokens = 20,
        au_cache_read_input_tokens = 30, au_output_tokens = 0\<rparr>)
      else if t = lit ''delta'' then Some (MessageDelta None (Some \<lparr>au_input_tokens = 10, au_cache_creation_input_tokens = 0,
        au_cache_read_input_tokens = 0, au_output_tokens = 7\<rparr>))
      else if t = lit ''stop'' then Some MessageStop else None)"

definition demo_anthropic_env :: stream_env where
  "demo_anthropic_env = \<lparr>memory_grows = (\<lambda>_ _. True), payload_admitted = (\<lambda>_ _ _. True), json_from_str = (\<lambda>_. None),
     json_to_string = (\<lambda>_. []), redact = (\<lambda>t. t)\<rparr>"

lemma demo_anthropic_stream:
  "parse_anthropic_stream demo_anthropic_env demo_decode
     [Inr (as_bytes (lit ''data: start'' @ [10, 10] @ lit ''data: de'')), Inr (as_bytes (lit ''lta'' @ [10, 10] @ lit ''data: stop''))] =
   [Inr (InputUsage 60), Inr (TokenUsage 60 7), Inr StreamDone]"
  by code_simp

text \<open>The same response without its stop message is reported as cut off.\<close>

lemma demo_anthropic_truncated:
  "parse_anthropic_stream demo_anthropic_env demo_decode [Inr (as_bytes (lit ''data: start'' @ [10, 10] @ lit ''data: delta''))] =
   [Inr (InputUsage 60), Inr (TokenUsage 60 7),
    Inl (ProviderError ''Anthropic stream ended without a terminal message_stop marker'')]"
  by code_simp

end
