(* ===== verification/Spec2Isabelle.thy ===== *)
theory Spec2Isabelle
  imports Rpm_Interleaving Admission Health_Sync Usage Routing_Correct Wallet_Manual Payment_Correct
  Memory_Budget Openai_Stream Anthropic_Stream
begin

text \<open>
  KeyCompute is a multi-tenant gateway for language-model services. A request is authenticated,
  admitted by a process-local gate and by rate limits, pays in advance by a reservation of wallet
  funds, is routed to upstream accounts by health, load and priority, is executed with retries and
  failover, and is settled against an immutable usage ledger.

  \<^bold>\<open>Parts and theories.\<close> Paths are under \<open>src/\<close>.

  \<^item> \<open>Prelude\<close>: scalar types, saturating arithmetic, results, sums over maps and table rows.
  \<^item> \<open>Errors\<close>: \<open>crates/keycompute-types/src/error.rs\<close>.
  \<^item> \<open>Token_Cache\<close>, \<open>Token_Window\<close>, \<open>Rate_Limit\<close>, \<open>Rpm_Interleaving\<close>: the in-memory limiter of
    \<open>crates/keycompute-ratelimit/src/lib.rs\<close>. \<open>TokenRecordCache\<close> is the record \<open>token_record_cache\<close>, its
    methods the functions of the same names; \<open>Token_Window\<close> is the specification it simulates, as
    a locale that the cache interprets; \<open>Rpm_Interleaving\<close> splits the request counter into its
    atomic actions.
  \<^item> \<open>Admission\<close>: \<open>crates/keycompute-runtime/src/admission.rs\<close>; the critical sections of \<open>acquire\<close>, of the
    destructors and of \<open>close\<close> are functions on the state under the lock, and a step relation
    interleaves them.
  \<^item> \<open>Account_Table\<close>, \<open>Account_Health\<close>, \<open>F64\<close>, \<open>Health_Store\<close>, \<open>Health_Sync\<close>: upstream accounts
    (\<open>crates/keycompute-db/src/models/account.rs\<close>) and the health of
    \<open>crates/keycompute-routing/src/provider_health.rs\<close>: local snapshots, queued events and the worker that
    applies them to the rows.
  \<^item> \<open>Usage\<close>, \<open>Account_State\<close>, \<open>Capacity_Cache\<close>, \<open>Execution_Plan\<close>: the token accumulator, cooldowns, load
    snapshots, and the plans with their retry and failover policies.
  \<^item> \<open>Routing\<close>, \<open>Routing_Correct\<close>: the engine of \<open>crates/keycompute-routing/src/lib.rs\<close>, over the models above.
  \<^item> \<open>Identity\<close>: roles, the rows of users, tenants and memberships, and the financial authority of a session
    (\<open>crates/keycompute-types/src/tenant.rs\<close>, \<open>crates/keycompute-db/src/models/financial_scope.rs\<close>).
  \<^item> \<open>Wallet_Table\<close>, \<open>Wallet\<close>, \<open>Wallet_Reclaim\<close>, \<open>Wallet_Inv\<close>, \<open>Wallet_Correct\<close>: the money tables and every
    operation of \<open>crates/keycompute-db/src/models/user_balance.rs\<close>.
  \<^item> \<open>Wallet_Admin\<close>, \<open>Wallet_Manual\<close>: the commands of an administrator on wallets, \<open>user_balance_admin.rs\<close> and
    \<open>user_balance_reservation_admin.rs\<close> beside it.
  \<^item> \<open>Wallet_Ledger\<close>, \<open>Payment\<close>, \<open>Payment_Correct\<close>: the ledger as an append-only table, and payment orders with their
    notifications and scoped reads (\<open>payment_order.rs\<close>, \<open>payment_order_scope.rs\<close>), over the wallet tables.
  \<^item> \<open>Memory_Budget\<close>: the budget for payloads in memory (\<open>crates/keycompute-types/src/memory.rs\<close>) and the permits for large
    bodies of \<open>crates/llm-protocol/provider/src/http.rs\<close>; a reservation is a claim with a count of its owners.
  \<^item> \<open>Utf8\<close>, \<open>Sse\<close>, \<open>Openai_Stream\<close>, \<open>Anthropic_Stream\<close>: text and its encoding, the events and the loop over chunks and
    lines that both parsers share, with the contract of a line handler as locales, and the parsers of
    \<open>crates/llm-protocol/openai/src/stream.rs\<close> and \<open>crates/llm-protocol/anthropic/src/stream.rs\<close>, which interpret them. What a
    parser sends to its channel is a list of items.

  \<^bold>\<open>Conventions.\<close> Identifiers are natural numbers, clock readings are arguments in the order the
  code takes them, counters keep their width where they can wrap, SQL statements are functions
  on lists of rows, transactions roll back on an error, a panic is \<open>None\<close>, an error a value of the left
  summand. Third-party code (decryption, JSON decoding, the iteration order of a hash map, identifiers the
  database generates) is an argument of the definitions that use it.

  \<^bold>\<open>What is shown.\<close> The token cache simulates its specification, never exceeds a limit and counts a
  request once; cleanup passes change no answer of the token window; the request window admits exactly the
  first calls up to its limit, and the interleaving in which it does not is exhibited. The admission gate respects its bounds, cannot panic, is fair and makes progress.
  While the backlog of an account does not overflow, its queued health events replay to the local snapshot, and the differences of the local and the stored
  average are exhibited. Routing selects only eligible accounts, in rank order, and a placeholder with a mock key when the account table
  cannot be read. A wallet is always what
  its ledger and active reservations say, a usage log is charged once, reservations are covered and
  fenced by their owner token, expired funds come back on every read, and two faults of the background
  sweep are exhibited. A manual operation is applied once per idempotency key, whatever happens between
  its retries. A paid order owns exactly one ledger entry, its notifications are idempotent, its
  statistics agree with the ledger. The bytes the memory budget counts are exactly those some permit holds. A chat
  stream ends once, with an error unless its marker was received, and does not depend on how the network cuts it; a client
  that did not ask for usage gets the same stream with the usage taken out; an Anthropic stream without an error has
  received its stop message, and its input tokens are never lowered.

  \<^bold>\<open>Bounds.\<close> Queues and caches have the bounds of the configuration. The only fuel is the number
  of pages a client follows in \<open>active_pages\<close>, where one more than the number of reservations is shown to be
  enough.

  \<^bold>\<open>Not modelled.\<close> Network, Redis and SMTP traffic, cryptography, the user interface, HTTP decoding and
  rendering, and the asynchronous plumbing of the executor; the life cycle of tenants, users and keys; prices, shares
  and the usage log, which rest on a decimal library and feed the wallet operations above; the parser of the Responses
  API. The manifest names these parts.
\<close>

end
